(* ===== verification/Prelude.thy ===== *)
theory Prelude
  imports Main
begin

text \<open>
  What the components share: the collections of rewrite rules that carry the
  component proofs, the abnormal ends a C++ operation of this program can have,
  and the generic facts on lists and C strings that more than one component uses.
\<close>

named_theorems consts_simps \<open>definitions of the named constants of constants.h and server-backend.h\<close>
named_theorems reply_simps \<open>the SET\_ and RETURN\_ macros of server-backend.cpp, unfolded to replies\<close>
named_theorems os_simps \<open>one-step behaviour of the operating system model\<close>

subsection \<open>Abnormal ends\<close>

text \<open>
  \<open>ExitFailure\<close> is a call of \<open>exit(EXIT_FAILURE)\<close>, \<open>AssertFailed\<close> a failed
  \<open>assert\<close> (or \<open>GTEST_CHECK_\<close>), \<open>Terminate\<close> an exception nothing catches, \<open>Undefined\<close> a point where the C++ standard gives the program no meaning
  (signed overflow, an out-of-range object size), \<open>Diverges\<close> a loop that never
  returns. A fallible operation returns \<open>Inl\<close> of one of them or \<open>Inr\<close> of its result.
\<close>

datatype abnormal = ExitFailure | AssertFailed | Terminate | Undefined | Diverges

type_synonym 'a outcome = "abnormal + 'a"

subsection \<open>Machine integer ranges\<close>

definition int_min :: int where "int_min = - (2 ^ 31)"
definition int_max :: int where "int_max = 2 ^ 31 - 1"
definition llong_min :: int where "llong_min = - (2 ^ 63)"
definition llong_max :: int where "llong_max = 2 ^ 63 - 1"

abbreviation is_int :: "int \<Rightarrow> bool" where
  "is_int i \<equiv> int_min \<le> i \<and> i \<le> int_max"

abbreviation is_llong :: "int \<Rightarrow> bool" where
  "is_llong i \<equiv> llong_min \<le> i \<and> i \<le> llong_max"

lemmas int_range_defs = int_min_def int_max_def llong_min_def llong_max_def

subsection \<open>C strings\<close>

text \<open>A \<open>char *\<close> argument is read up to its first NUL, as \<open>string(const char *)\<close> and \<open>strlen\<close> do.\<close>

definition NUL :: char where "NUL = CHR 0x00"

definition c_str :: "string \<Rightarrow> string" where
  "c_str s = takeWhile (\<lambda>c. c \<noteq> NUL) s"

abbreviation nul_free :: "string \<Rightarrow> bool" where
  "nul_free s \<equiv> NUL \<notin> set s"

lemma c_str_nul_free [simp]: "nul_free s \<Longrightarrow> c_str s = s"
  unfolding c_str_def by (rule takeWhile_eq_all_conv [THEN iffD2]) auto

lemma nul_free_c_str [simp]: "nul_free (c_str s)"
  unfolding c_str_def using set_takeWhileD by fastforce

lemma c_str_idem [simp]: "c_str (c_str s) = c_str s"
  by simp

subsection \<open>Lists\<close>

lemma takeWhile_append_stop:
  assumes "\<forall>x \<in> set xs. P x" and "ys = [] \<or> \<not> P (hd ys)"
  shows "takeWhile P (xs @ ys) = xs" and "dropWhile P (xs @ ys) = ys"
  using assms by (cases ys; simp add: takeWhile_append2 dropWhile_append2)+

lemma take_append_exact [simp]: "n = length xs \<Longrightarrow> take n (xs @ ys) = xs"
  by simp

lemma drop_append_exact [simp]: "n = length xs \<Longrightarrow> drop n (xs @ ys) = ys"
  by simp

lemma replicate_append_same_char: "replicate m c @ replicate n c = replicate (m + n) c"
  by (simp add: replicate_add)

end
