(* ===== verification/Cxx_Strings.thy ===== *)
theory Cxx_Strings
  imports Prelude
begin

text \<open>
  The parts of the C++ standard library's number and string formatting that the
  program calls: \<open>std::to_string\<close> on integers and formatted extraction
  (\<open>operator>>\<close>) from a string stream into integers and strings. Extraction models
  the stream's fail bit and the saturation of \<open>num_get\<close> on out-of-range input, since
  the server parses headers that a client controls.
\<close>

subsection \<open>Characters\<close>

definition is_digit :: "char \<Rightarrow> bool" where
  "is_digit c = (48 \<le> (of_char c :: nat) \<and> (of_char c :: nat) \<le> 57)"

definition is_space :: "char \<Rightarrow> bool" where
  "is_space c = ((of_char c :: nat) = 32 \<or> (9 \<le> (of_char c :: nat) \<and> (of_char c :: nat) \<le> 13))"

definition digit_char :: "nat \<Rightarrow> char" where
  "digit_char d = char_of (48 + d)"

definition digit_val :: "char \<Rightarrow> nat" where
  "digit_val c = of_char c - 48"

subsection \<open>std::to_string\<close>

fun to_string_nat :: "nat \<Rightarrow> string" where
  "to_string_nat n =
     (if n < 10 then [digit_char n] else to_string_nat (n div 10) @ [digit_char (n mod 10)])"

declare to_string_nat.simps [simp del]

definition to_string :: "int \<Rightarrow> string" where
  "to_string i = (if i < 0 then CHR ''-'' # to_string_nat (nat (- i)) else to_string_nat (nat i))"

subsection \<open>Formatted extraction from a string stream\<close>

text \<open>
  A stream is its fail bit and the characters not yet extracted. The value argument of an
  extraction is the variable's value before it: an extraction from a failed or
  exhausted stream leaves it unchanged, one that finds no digits stores 0, and one out of
  the type's range stores the nearest bound; the last two set the fail bit.
\<close>

record istream =
  failbit :: bool
  unread :: string

definition istringstream :: "string \<Rightarrow> istream" where
  "istringstream s = \<lparr>failbit = False, unread = s\<rparr>"

definition digits_value :: "string \<Rightarrow> nat" where
  "digits_value ds = foldl (\<lambda>n c. 10 * n + digit_val c) 0 ds"

definition split_sign :: "string \<Rightarrow> bool \<times> string" where
  "split_sign s =
     (case s of [] \<Rightarrow> (False, [])
      | c # cs \<Rightarrow> if c = CHR ''-'' then (True, cs) else if c = CHR ''+'' then (False, cs)
                  else (False, c # cs))"

definition extract_int :: "int \<Rightarrow> int \<Rightarrow> int \<Rightarrow> istream \<Rightarrow> int \<times> istream" where
  "extract_int lo hi old st =
     (let s = dropWhile is_space (unread st) in
      if failbit st \<or> s = [] then (old, st\<lparr>failbit := True, unread := (if failbit st then unread st else s)\<rparr>)
      else
        (let (neg, body) = split_sign s;
             ds = takeWhile is_digit body;
             r = dropWhile is_digit body;
             v = (if neg then - int (digits_value ds) else int (digits_value ds)) in
         if ds = [] then (0, \<lparr>failbit = True, unread = r\<rparr>)
         else if v < lo then (lo, \<lparr>failbit = True, unread = r\<rparr>)
         else if hi < v then (hi, \<lparr>failbit = True, unread = r\<rparr>)
         else (v, \<lparr>failbit = False, unread = r\<rparr>)))"

definition extract_string :: "string \<Rightarrow> istream \<Rightarrow> string \<times> istream" where
  "extract_string old st =
     (let s = dropWhile is_space (unread st) in
      if failbit st \<or> s = [] then (old, st\<lparr>failbit := True, unread := (if failbit st then unread st else s)\<rparr>)
      else (takeWhile (Not \<circ> is_space) s, \<lparr>failbit = False, unread = dropWhile (Not \<circ> is_space) s\<rparr>))"

abbreviation extract_cint :: "int \<Rightarrow> istream \<Rightarrow> int \<times> istream" where
  "extract_cint \<equiv> extract_int int_min int_max"

abbreviation extract_cllong :: "int \<Rightarrow> istream \<Rightarrow> int \<times> istream" where
  "extract_cllong \<equiv> extract_int llong_min llong_max"

subsection \<open>Digits\<close>

lemma of_char_digit_char: "d < 10 \<Longrightarrow> (of_char (digit_char d) :: nat) = 48 + d"
  by (simp add: digit_char_def)

lemma is_digit_digit_char [simp]: "d < 10 \<Longrightarrow> is_digit (digit_char d)"
  by (simp add: is_digit_def of_char_digit_char)

lemma digit_val_digit_char [simp]: "d < 10 \<Longrightarrow> digit_val (digit_char d) = d"
  by (simp add: digit_val_def of_char_digit_char)

lemma digit_char_digit_val [simp]: "is_digit c \<Longrightarrow> digit_char (digit_val c) = c"
  by (simp add: digit_char_def digit_val_def is_digit_def)

lemma digit_val_less [simp]: "is_digit c \<Longrightarrow> digit_val c < 10"
  by (auto simp: digit_val_def is_digit_def)

lemma is_digit_not_space [simp]: "is_digit c \<Longrightarrow> \<not> is_space c"
  by (auto simp: is_digit_def is_space_def)

lemma minus_not_space [simp]: "\<not> is_space (CHR ''-'')"
  by (simp add: is_space_def)

lemma is_digit_not_sign [simp]: "is_digit c \<Longrightarrow> c \<noteq> CHR ''-''" "is_digit c \<Longrightarrow> c \<noteq> CHR ''+''"
  by (auto simp: is_digit_def)

lemma is_digit_not_NUL [simp]: "is_digit c \<Longrightarrow> c \<noteq> NUL"
  by (auto simp: is_digit_def NUL_def)

lemma to_string_nat_digits: "c \<in> set (to_string_nat n) \<Longrightarrow> is_digit c"
  by (induction n rule: to_string_nat.induct) (subst (asm) (2) to_string_nat.simps, auto split: if_splits)

lemma to_string_nat_nonempty [simp]: "to_string_nat n \<noteq> []"
  by (subst to_string_nat.simps) simp

lemma digits_value_snoc [simp]: "digits_value (ds @ [c]) = 10 * digits_value ds + digit_val c"
  by (simp add: digits_value_def)

lemma digits_value_to_string_nat [simp]: "digits_value (to_string_nat n) = n"
proof (induction n rule: to_string_nat.induct)
  case (1 n)
  show ?case
  proof (cases "n < 10")
    case True
    then show ?thesis by (subst to_string_nat.simps) (simp add: digits_value_def)
  next
    case False
    with 1 show ?thesis by (subst to_string_nat.simps) simp
  qed
qed

text \<open>The number of digits is bounded by the power of ten the number is below.\<close>

lemma length_to_string_nat: "n < 10 ^ k \<Longrightarrow> 0 < k \<Longrightarrow> length (to_string_nat n) \<le> k"
proof (induction k arbitrary: n)
  case 0
  then show ?case by simp
next
  case (Suc k)
  show ?case
  proof (cases "n < 10")
    case True
    then show ?thesis by (subst to_string_nat.simps) simp
  next
    case False
    with Suc.prems have "n div 10 < 10 ^ k" and "0 < k"
      by (cases k; auto)+
    with Suc.IH have "length (to_string_nat (n div 10)) \<le> k" by blast
    with False show ?thesis by (subst to_string_nat.simps) simp
  qed
qed

subsection \<open>Extraction reads back what was printed\<close>

lemma hd_to_string_nat [simp]: "is_digit (hd (to_string_nat n))"
  by (rule to_string_nat_digits [OF hd_in_set]) simp

lemma to_string_nonempty [simp]: "to_string i \<noteq> []"
  by (simp add: to_string_def)

lemma hd_to_string_not_space [simp]: "\<not> is_space (hd (to_string i))"
  by (auto simp: to_string_def)

lemma to_string_not_space: "c \<in> set (to_string i) \<Longrightarrow> \<not> is_space c"
  by (auto simp: to_string_def dest: to_string_nat_digits split: if_splits)

lemma nul_free_to_string [simp]: "nul_free (to_string i)"
  by (auto simp: to_string_def NUL_def dest: to_string_nat_digits split: if_splits
      dest!: is_digit_not_NUL [unfolded NUL_def])

lemma split_sign_to_string:
  "split_sign (to_string i @ s) = (i < 0, to_string_nat (nat \<bar>i\<bar>) @ s)"
proof -
  obtain c cs where c: "to_string_nat (nat i) = c # cs"
    by (cases "to_string_nat (nat i)") auto
  then have "is_digit c" by (metis hd_to_string_nat list.sel(1))
  with c show ?thesis by (auto simp: split_sign_def to_string_def)
qed

lemma extract_int_to_string:
  assumes "lo \<le> i" "i \<le> hi" and r: "r = [] \<or> \<not> is_digit (hd r)"
    and sp: "\<forall>c \<in> set sp. is_space c"
  shows "extract_int lo hi old \<lparr>failbit = False, unread = sp @ to_string i @ r\<rparr>
       = (i, \<lparr>failbit = False, unread = r\<rparr>)"
proof -
  let ?n = "nat \<bar>i\<bar>"
  have "dropWhile is_space (sp @ to_string i @ r) = to_string i @ r"
    by (rule takeWhile_append_stop) (use sp in auto)
  moreover have "takeWhile is_digit (to_string_nat ?n @ r) = to_string_nat ?n"
    "dropWhile is_digit (to_string_nat ?n @ r) = r"
    using r by (intro takeWhile_append_stop; auto dest: to_string_nat_digits)+
  moreover have "(if i < 0 then - int ?n else int ?n) = i" by simp
  ultimately show ?thesis
    using assms(1,2) by (simp only: extract_int_def split_sign_to_string Let_def prod.case
        istream.simps digits_value_to_string_nat to_string_nat_nonempty append_is_Nil_conv
        to_string_nonempty simp_thms if_False not_less [symmetric, of i] not_less [symmetric, of lo])
qed

lemma extract_string_token:
  assumes "w \<noteq> []" "\<forall>c \<in> set w. \<not> is_space c" and r: "r = [] \<or> is_space (hd r)"
    and sp: "\<forall>c \<in> set sp. is_space c"
  shows "extract_string old \<lparr>failbit = False, unread = sp @ w @ r\<rparr> = (w, \<lparr>failbit = False, unread = r\<rparr>)"
proof -
  have "dropWhile is_space (sp @ w @ r) = w @ r"
    by (rule takeWhile_append_stop) (use assms in auto)
  moreover have "takeWhile (Not \<circ> is_space) (w @ r) = w" "dropWhile (Not \<circ> is_space) (w @ r) = r"
    using assms by (intro takeWhile_append_stop; auto)+
  ultimately show ?thesis using \<open>w \<noteq> []\<close> by (simp add: extract_string_def)
qed

lemma extract_failed [simp]:
  "failbit st \<Longrightarrow> extract_int lo hi old st = (old, st)"
  "failbit st \<Longrightarrow> extract_string olds st = (olds, st)"
  by (simp_all add: extract_int_def extract_string_def)

text \<open>Whatever the input, an extracted integer is in range, or the old value is kept.\<close>

lemma extract_int_range:
  assumes "lo \<le> old" "old \<le> hi" "lo \<le> 0" "0 \<le> hi"
  shows "lo \<le> fst (extract_int lo hi old st)" and "fst (extract_int lo hi old st) \<le> hi"
  using assms by (simp_all add: extract_int_def Let_def split: prod.split)

lemma length_to_string:
  assumes "is_int i"
  shows "length (to_string i) \<le> 11"
proof -
  have "nat \<bar>i\<bar> < 10 ^ 10" using assms by (auto simp: int_range_defs)
  then have "length (to_string_nat (nat \<bar>i\<bar>)) \<le> 10" by (rule length_to_string_nat) simp
  then show ?thesis by (auto simp: to_string_def)
qed

end
