(* ===== verification/Regex.thy ===== *)
theory Regex
  imports Cxx_Strings
begin

text \<open>
  The fragment of \<open>std::regex\<close> (ECMAScript grammar) that constants.h and
  argument-helper.h use: bracket expressions, concatenation, alternation, \<open>*\<close>,
  \<open>+\<close>, \<open>?\<close> and counted repetition. The meaning of an expression is its language;
  \<open>regex_match\<close>, which like the library's function must consume the whole subject,
  runs it by derivatives and is proved to decide the language.
\<close>

datatype rexp =
    Never
  | Eps
  | Bracket string
  | Concat rexp rexp
  | Either rexp rexp
  | Many rexp

subsection \<open>Languages\<close>

inductive_set repeated :: "string set \<Rightarrow> string set" for L :: "string set" where
  repeated_Nil: "[] \<in> repeated L"
| repeated_app: "u \<in> L \<Longrightarrow> v \<in> repeated L \<Longrightarrow> u @ v \<in> repeated L"

primrec lang :: "rexp \<Rightarrow> string set" where
  "lang Never = {}"
| "lang Eps = {[]}"
| "lang (Bracket cs) = {[c] | c. c \<in> set cs}"
| "lang (Concat r q) = {u @ v | u v. u \<in> lang r \<and> v \<in> lang q}"
| "lang (Either r q) = lang r \<union> lang q"
| "lang (Many r) = repeated (lang r)"

subsection \<open>Derived forms\<close>

definition Some_of :: "rexp \<Rightarrow> rexp" where
  "Some_of r = Concat r (Many r)"

definition Optional :: "rexp \<Rightarrow> rexp" where
  "Optional r = Either r Eps"

primrec Times :: "nat \<Rightarrow> rexp \<Rightarrow> rexp" where
  "Times 0 r = Eps"
| "Times (Suc n) r = Concat r (Times n r)"

primrec Literal :: "string \<Rightarrow> rexp" where
  "Literal [] = Eps"
| "Literal (c # cs) = Concat (Bracket [c]) (Literal cs)"

primrec Up_to :: "nat \<Rightarrow> rexp \<Rightarrow> rexp" where
  "Up_to 0 r = Eps"
| "Up_to (Suc n) r = Optional (Concat r (Up_to n r))"

subsection \<open>Matching by derivatives\<close>

primrec nullable :: "rexp \<Rightarrow> bool" where
  "nullable Never = False"
| "nullable Eps = True"
| "nullable (Bracket cs) = False"
| "nullable (Concat r q) = (nullable r \<and> nullable q)"
| "nullable (Either r q) = (nullable r \<or> nullable q)"
| "nullable (Many r) = True"

primrec after :: "char \<Rightarrow> rexp \<Rightarrow> rexp" where
  "after c Never = Never"
| "after c Eps = Never"
| "after c (Bracket cs) = (if List.member cs c then Eps else Never)"
| "after c (Concat r q) =
     (if nullable r then Either (Concat (after c r) q) (after c q) else Concat (after c r) q)"
| "after c (Either r q) = Either (after c r) (after c q)"
| "after c (Many r) = Concat (after c r) (Many r)"

fun regex_match :: "string \<Rightarrow> rexp \<Rightarrow> bool" where
  "regex_match [] r = nullable r"
| "regex_match (c # cs) r = regex_match cs (after c r)"

subsection \<open>The matcher decides the language\<close>

lemma nullable_iff: "nullable r \<longleftrightarrow> [] \<in> lang r"
  by (induction r) (auto intro: repeated_Nil)

lemma repeated_Cons:
  "c # w \<in> repeated L \<longleftrightarrow> (\<exists>u v. w = u @ v \<and> c # u \<in> L \<and> v \<in> repeated L)" (is "?l \<longleftrightarrow> ?r")
proof
  assume ?l
  then show ?r
  proof (induction "c # w" arbitrary: w rule: repeated.induct)
    case (repeated_app u v)
    then show ?case by (cases u) auto
  qed
next
  assume ?r
  then obtain u v where "w = u @ v" "c # u \<in> L" "v \<in> repeated L" by blast
  then show ?l using repeated_app [of "c # u" L v] by simp
qed

lemma after_iff: "w \<in> lang (after c r) \<longleftrightarrow> c # w \<in> lang r"
proof (induction r arbitrary: w)
  case (Concat r q)
  show ?case
    by (auto simp: Concat.IH nullable_iff Cons_eq_append_conv)
next
  case (Many r)
  show ?case by (auto simp: Many.IH repeated_Cons)
qed auto

theorem regex_match_lang: "regex_match w r \<longleftrightarrow> w \<in> lang r"
  by (induction w arbitrary: r) (simp_all add: nullable_iff after_iff)

subsection \<open>Languages of the derived forms\<close>

lemma Concat_iff: "w \<in> lang (Concat r q) \<longleftrightarrow> (\<exists>u v. w = u @ v \<and> u \<in> lang r \<and> v \<in> lang q)"
  by auto

lemma lang_ConcatI: "u \<in> lang r \<Longrightarrow> v \<in> lang q \<Longrightarrow> u @ v \<in> lang (Concat r q)"
  by auto

lemma repeated_singletons [simp]: "repeated {[c] | c. c \<in> set cs} = {w. set w \<subseteq> set cs}"
proof (rule set_eqI)
  fix w
  show "w \<in> repeated {[c] | c. c \<in> set cs} \<longleftrightarrow> w \<in> {w. set w \<subseteq> set cs}"
    by (induction w) (auto intro: repeated_Nil simp: repeated_Cons)
qed

lemma Concat_Bracket_iff:
  "w \<in> lang (Concat (Bracket cs) q) \<longleftrightarrow> (\<exists>c v. w = c # v \<and> c \<in> set cs \<and> v \<in> lang q)"
proof -
  have "[c] @ v \<in> lang (Concat (Bracket cs) q)" if "c \<in> set cs" "v \<in> lang q" for c v
    using that by (intro lang_ConcatI) auto
  then show ?thesis by auto
qed

lemma lang_Many_Bracket [simp]: "lang (Many (Bracket cs)) = {w. set w \<subseteq> set cs}"
  by simp

lemma lang_Some_of_Bracket [simp]:
  "lang (Some_of (Bracket cs)) = {w. w \<noteq> [] \<and> set w \<subseteq> set cs}"
  unfolding Some_of_def set_eq_iff Concat_Bracket_iff lang_Many_Bracket
  by (auto simp: neq_Nil_conv)

lemma lang_Optional [simp]: "lang (Optional r) = insert [] (lang r)"
  by (auto simp: Optional_def)

lemma lang_Literal [simp]: "lang (Literal w) = {w}"
  by (induction w) auto

lemma lang_Times_Bracket [simp]:
  "lang (Times n (Bracket cs)) = {w. length w = n \<and> set w \<subseteq> set cs}"
proof (induction n)
  case (Suc n)
  show ?case
  proof (rule set_eqI)
    fix w
    show "w \<in> lang (Times (Suc n) (Bracket cs)) \<longleftrightarrow> w \<in> {w. length w = Suc n \<and> set w \<subseteq> set cs}"
      unfolding Times.simps Concat_Bracket_iff Suc.IH by (cases w) auto
  qed
qed auto

end
