(* ===== verification/Constants.thy ===== *)
theory Constants
  imports Regex
begin

text \<open>
  The namespaces \<open>Constants\<close> (constants.h) and \<open>Errors\<close> (errors.h): configuration,
  message format, command names, and the error table. An iterator into the error map
  is modelled by the entry it points to; \<open>nil\<close> is \<open>end(messages)\<close>.
\<close>

subsection \<open>constants.h\<close>

definition server_backlog :: int where [consts_simps]: "server_backlog = 1000"
definition max_sockfd :: int where [consts_simps]: "max_sockfd = 255"
definition connection_timeout_seconds :: int where [consts_simps]: "connection_timeout_seconds = 10"
definition transaction_timeout_seconds :: int where [consts_simps]: "transaction_timeout_seconds = 15"
definition default_txn_id :: int where [consts_simps]: "default_txn_id = -1"
definition delimiting_character :: char where [consts_simps]: "delimiting_character = CHR '' ''"
definition error_seq_num :: int where [consts_simps]: "error_seq_num = -1"
definition initial_seq_num :: int where [consts_simps]: "initial_seq_num = 0"
definition padding_character :: char where [consts_simps]: "padding_character = CHR ''0''"
definition request_header_len :: nat where [consts_simps]: "request_header_len = 64"
definition response_header_len :: nat where [consts_simps]: "response_header_len = 128"

definition abort_cmd :: string where [consts_simps]: "abort_cmd = ''ABORT''"
definition commit_cmd :: string where [consts_simps]: "commit_cmd = ''COMMIT''"
definition new_txn_cmd :: string where [consts_simps]: "new_txn_cmd = ''NEW_TXN''"
definition read_cmd :: string where [consts_simps]: "read_cmd = ''READ''"
definition write_cmd :: string where [consts_simps]: "write_cmd = ''WRITE''"
definition ack_cmd :: string where [consts_simps]: "ack_cmd = ''ACK''"
definition ask_resend_cmd :: string where [consts_simps]: "ask_resend_cmd = ''ASK_RESEND''"
definition error_cmd :: string where [consts_simps]: "error_cmd = ''ERROR''"

subsection \<open>The message formats\<close>

definition upper_or_underscore :: string where
  "upper_or_underscore = ''ABCDEFGHIJKLMNOPQRSTUVWXYZ_''"

definition digits :: string where
  "digits = ''0123456789''"

definition rx_command :: rexp where
  "rx_command = Some_of (Bracket upper_or_underscore)"

definition rx_delim :: rexp where
  "rx_delim = Bracket [delimiting_character]"

definition rx_signed :: rexp where
  "rx_signed = Concat (Optional (Bracket ''-'')) (Some_of (Bracket digits))"

definition rx_unsigned :: rexp where
  "rx_unsigned = Some_of (Bracket digits)"

definition rx_padding :: rexp where
  "rx_padding = Optional (Concat rx_delim (Many (Bracket [padding_character])))"

text \<open>
  The look-ahead \<open>(?=.{n}$)\<close> at the start asks for a subject of exactly \<open>n\<close> characters;
  the rest of the expression admits no line terminator, so it adds nothing else.
\<close>

definition request_format :: "nat \<times> rexp" where
  "request_format = (request_header_len,
     Concat rx_command (Concat rx_delim (Concat rx_signed (Concat rx_delim
       (Concat rx_signed (Concat rx_delim (Concat rx_unsigned rx_padding)))))))"

definition response_format :: "nat \<times> rexp" where
  "response_format = (response_header_len,
     Concat rx_command (Concat rx_delim (Concat rx_signed (Concat rx_delim
       (Concat rx_signed (Concat rx_delim (Concat rx_unsigned (Concat rx_delim
         (Concat rx_unsigned rx_padding)))))))))"

subsection \<open>errors.h\<close>

datatype error =
    nil
  | InvalidMessageFormat
  | InvalidCommand
  | InvalidTransactionId
  | InvalidOperation
  | TransactionIdInUse
  | InvalidSequenceNumber
  | RepeatedSequenceNumber
  | ErrorOpeningFile
  | ErrorReadingFile
  | ErrorWritingFile
  | ErrorCreatingTransaction
  | CommitWithInvalidSequenceNumber
  | TransactionAlreadyCommitted
  | TransactionAborted

fun getErrorCode :: "error \<Rightarrow> int" where
  "getErrorCode nil = 0"
| "getErrorCode InvalidMessageFormat = 199"
| "getErrorCode InvalidCommand = 200"
| "getErrorCode InvalidTransactionId = 201"
| "getErrorCode InvalidOperation = 202"
| "getErrorCode TransactionIdInUse = 203"
| "getErrorCode InvalidSequenceNumber = 204"
| "getErrorCode RepeatedSequenceNumber = 205"
| "getErrorCode ErrorOpeningFile = 206"
| "getErrorCode ErrorReadingFile = 207"
| "getErrorCode ErrorWritingFile = 208"
| "getErrorCode ErrorCreatingTransaction = 209"
| "getErrorCode CommitWithInvalidSequenceNumber = 210"
| "getErrorCode TransactionAlreadyCommitted = 211"
| "getErrorCode TransactionAborted = 212"

fun getErrorMessage :: "error \<Rightarrow> string" where
  "getErrorMessage nil = ''''"
| "getErrorMessage InvalidMessageFormat = ''InvalidMessageFormat''"
| "getErrorMessage InvalidCommand = ''InvalidCommand''"
| "getErrorMessage InvalidTransactionId = ''InvalidTransactionId''"
| "getErrorMessage InvalidOperation = ''InvalidOperation''"
| "getErrorMessage TransactionIdInUse = ''TransactionIDInUseByAnotherClient''"
| "getErrorMessage InvalidSequenceNumber = ''New transactions must start with sequence number 0''"
| "getErrorMessage RepeatedSequenceNumber = ''RepeatedSequenceNumber''"
| "getErrorMessage ErrorOpeningFile = ''ErrorOpeningFile''"
| "getErrorMessage ErrorReadingFile = ''Error reading file''"
| "getErrorMessage ErrorWritingFile = ''Error writing file''"
| "getErrorMessage ErrorCreatingTransaction = ''Error creating transaction''"
| "getErrorMessage CommitWithInvalidSequenceNumber = ''Requested commit with sequence number less than maximum sequence number received''"
| "getErrorMessage TransactionAlreadyCommitted = ''TransactionAlreadyCommitted''"
| "getErrorMessage TransactionAborted = ''TransactionAborted''"

subsection \<open>Facts\<close>

lemma digits_conv: "digits = map digit_char [0..<10]"
  by code_simp

lemma set_digits: "set digits = {c. is_digit c}"
proof -
  have "c \<in> digit_char ` {0..<10}" if "is_digit c" for c
    using that by (intro image_eqI [of _ _ "digit_val c"]) auto
  then show ?thesis by (auto simp: digits_conv)
qed

lemma getErrorCode_inj: "getErrorCode e = getErrorCode e' \<Longrightarrow> e = e'"
  by (cases e; cases e'; simp)

lemma getErrorCode_range: "0 \<le> getErrorCode e" "getErrorCode e \<le> 212"
  by (cases e; simp)+

lemma nul_free_getErrorMessage [simp]: "nul_free (getErrorMessage e)"
  by (cases e) (simp_all add: NUL_def)

end
