(* ===== verification/Wire_Protocol.thy ===== *)
theory Wire_Protocol
  imports Constants
begin

text \<open>
  The class \<open>WireProtocol\<close> (wire-protocol.h) and the code on both sides of the wire that
  builds and splits headers: \<open>Client::sendRequest\<close> builds a request header,
  \<open>ServerBackend::generateResponse\<close> a response. The locale \<open>wire_codec\<close> states what
  each direction relies on; it is interpreted for requests and for responses.
\<close>

subsection \<open>wire-protocol.h\<close>

record WireProtocol =
  m_request_regex :: "nat \<times> rexp"
  m_response_regex :: "nat \<times> rexp"

definition wire_protocol :: WireProtocol where
  "wire_protocol = \<lparr>m_request_regex = request_format, m_response_regex = response_format\<rparr>"

definition format_match :: "string \<Rightarrow> nat \<times> rexp \<Rightarrow> bool" where
  "format_match s fmt = (length s = fst fmt \<and> regex_match s (snd fmt))"

definition isValidRequestFormat :: "string \<Rightarrow> bool" where
  "isValidRequestFormat in_header = format_match (c_str in_header) (m_request_regex wire_protocol)"

definition isValidResponseFormat :: "string \<Rightarrow> bool" where
  "isValidResponseFormat in_header = format_match (c_str in_header) (m_response_regex wire_protocol)"

text \<open>
  \<open>extractHeaderFields\<close> is a template over the message tuple; it extracts every field
  but the last, in order, into a value-initialised tuple. These are its two instances.
\<close>

type_synonym RequestTuple = "string \<times> int \<times> int \<times> int \<times> string"
type_synonym ResponseTuple = "string \<times> int \<times> int \<times> int \<times> int \<times> string"

definition extractRequestFields :: "string \<Rightarrow> RequestTuple" where
  "extractRequestFields in_header =
     (let iss = istringstream (c_str in_header);
          (command, iss) = extract_string [] iss;
          (txn_id, iss) = extract_cint 0 iss;
          (seq_num, iss) = extract_cint 0 iss;
          (content_len, iss) = extract_cint 0 iss
      in (command, txn_id, seq_num, content_len, []))"

definition extractResponseFields :: "string \<Rightarrow> ResponseTuple" where
  "extractResponseFields in_header =
     (let iss = istringstream (c_str in_header);
          (command, iss) = extract_string [] iss;
          (txn_id, iss) = extract_cint 0 iss;
          (seq_num, iss) = extract_cint 0 iss;
          (error_code, iss) = extract_cint 0 iss;
          (content_len, iss) = extract_cint 0 iss
      in (command, txn_id, seq_num, error_code, content_len, []))"

subsection \<open>Building headers\<close>

text \<open>
  \<open>push_back\<close> and \<open>append(n - length, '0')\<close>: the subtraction is on \<open>size_t\<close>, so a
  header that is already longer than \<open>n\<close> asks for almost \<open>2^64\<close> characters and
  \<open>append\<close> throws \<open>std::length_error\<close>, which nothing catches: \<open>None\<close>.
\<close>

definition pad_header :: "nat \<Rightarrow> string \<Rightarrow> string option" where
  "pad_header n header =
     (let header = (if length header < n then header @ [delimiting_character] else header)
      in if n < length header then None
         else Some (header @ replicate (n - length header) padding_character))"

definition request_header :: "string \<Rightarrow> int \<Rightarrow> int \<Rightarrow> string \<Rightarrow> string option" where
  "request_header in_command in_txn_id in_seq_num in_data =
     pad_header request_header_len
       (in_command @ [delimiting_character] @ to_string in_txn_id @ [delimiting_character]
        @ to_string in_seq_num @ [delimiting_character] @ to_string (int (length in_data)))"

text \<open>
  The arguments of \<open>generateResponse\<close>, in their order. The command functions of
  the backend assign the generated string to the response as their last action;
  they are modelled as returning these arguments.
\<close>

type_synonym Reply = "string \<times> int \<times> int \<times> error \<times> string"

fun generateResponse :: "Reply \<Rightarrow> string option" where
  "generateResponse (in_command, in_txn_id, in_seq_num, in_error, in_data) =
     (let err_code = (if in_error \<noteq> nil then getErrorCode in_error else 0) in
      map_option (\<lambda>response_header. response_header @ in_data)
        (pad_header response_header_len
          (in_command @ [delimiting_character] @ to_string in_txn_id @ [delimiting_character]
           @ to_string in_seq_num @ [delimiting_character] @ to_string err_code
           @ [delimiting_character] @ to_string (int (length in_data)))))"

subsection \<open>Padding\<close>

definition padding :: "nat \<Rightarrow> nat \<Rightarrow> string" where
  "padding n m = (if m < n then delimiting_character # replicate (n - Suc m) padding_character else [])"

lemma pad_header_Some:
  "length h \<le> n \<Longrightarrow> pad_header n h = Some (h @ padding n (length h))"
  by (auto simp: pad_header_def padding_def Let_def)

lemma pad_header_None: "n < length h \<Longrightarrow> pad_header n h = None"
  by (simp add: pad_header_def)

lemma length_padding [simp]: "m \<le> n \<Longrightarrow> length (padding n m) = n - m"
  by (auto simp: padding_def)

lemma padding_in_rx: "padding n m \<in> lang rx_padding"
  by (auto simp: padding_def rx_padding_def rx_delim_def Concat_Bracket_iff simp del: lang.simps)

lemma padding_stop:
  "padding n m = [] \<or> is_space (hd (padding n m))"
  "padding n m = [] \<or> \<not> is_digit (hd (padding n m))"
  by (auto simp: padding_def consts_simps is_space_def is_digit_def)

lemma nul_free_padding [simp]: "nul_free (padding n m)"
  by (auto simp: padding_def consts_simps NUL_def)

subsection \<open>Field languages\<close>

lemma to_string_in_rx_signed: "to_string i \<in> lang rx_signed"
proof -
  have d: "w \<noteq> [] \<Longrightarrow> (\<And>c. c \<in> set w \<Longrightarrow> is_digit c) \<Longrightarrow> w \<in> lang (Some_of (Bracket digits))" for w
    by (auto simp: set_digits)
  have "(if i < 0 then ''-'' else []) @ to_string_nat (nat \<bar>i\<bar>) \<in> lang rx_signed"
    unfolding rx_signed_def by (intro lang_ConcatI d) (auto dest: to_string_nat_digits)
  moreover have "(if i < 0 then ''-'' else []) @ to_string_nat (nat \<bar>i\<bar>) = to_string i"
    by (auto simp: to_string_def)
  ultimately show ?thesis by simp
qed

lemma to_string_in_rx_unsigned: "0 \<le> i \<Longrightarrow> to_string i \<in> lang rx_unsigned"
  by (auto simp: rx_unsigned_def set_digits to_string_def dest: to_string_nat_digits)

lemma delim_in_rx: "[delimiting_character] \<in> lang rx_delim"
  by (simp add: rx_delim_def)

lemma delim_space [simp]: "is_space delimiting_character" "\<not> is_digit delimiting_character"
  "delimiting_character \<noteq> NUL" "NUL \<noteq> delimiting_character"
  by (simp_all add: delimiting_character_def is_space_def is_digit_def NUL_def)

definition command_token :: "string \<Rightarrow> bool" where
  "command_token cmd = (cmd \<noteq> [] \<and> list_all (List.member upper_or_underscore) cmd)"

lemma command_token_rx: "command_token cmd \<longleftrightarrow> cmd \<in> lang rx_command"
  by (auto simp: command_token_def rx_command_def list_all_iff)

lemma upper_or_underscore_graphic:
  "c \<in> set upper_or_underscore \<Longrightarrow> \<not> is_space c \<and> c \<noteq> NUL"
  by (auto simp: upper_or_underscore_def is_space_def NUL_def)

lemma command_tokenD:
  assumes "command_token cmd"
  shows "cmd \<noteq> []" "\<forall>c \<in> set cmd. \<not> is_space c" "nul_free cmd"
  using assms upper_or_underscore_graphic by (auto simp: command_token_def list_all_iff)

lemma known_commands [simp]:
  "command_token abort_cmd" "command_token commit_cmd" "command_token new_txn_cmd"
  "command_token read_cmd" "command_token write_cmd" "command_token ack_cmd"
  "command_token ask_resend_cmd" "command_token error_cmd"
  by (simp_all add: command_token_def upper_or_underscore_def consts_simps)

lemmas field_rx = command_token_rx [THEN iffD1] delim_in_rx to_string_in_rx_signed
  to_string_in_rx_unsigned padding_in_rx

end
