(* ===== verification/Read_Write_Helper.thy ===== *)
theory Read_Write_Helper
  imports Prelude
begin

text \<open>
  The namespace \<open>ReadWriteHelper\<close> (read-write-helper.h): read or write exactly the
  requested number of bytes, or report an error. The system calls \<open>read\<close>, \<open>write\<close>
  and the wait on the descriptor's condition variable are parameters; the locales
  \<open>fd_reader\<close> and \<open>fd_writer\<close> state what POSIX documents of them and carry the lemmas that
  the file and the socket layers use.

  \<^item> \<open>sys_read k n\<close> is \<open>None\<close> for a return value below 0 and \<open>Some d\<close> for the bytes
    read (\<open>[]\<close> at end of file);
  \<^item> \<open>sys_write k s\<close> is \<open>None\<close> for a return value below 0 and \<open>Some n\<close> for \<open>n\<close>
    bytes written;
  \<^item> \<open>wait_for k\<close> is \<open>True\<close> when the wait times out; it is called only for a
    positive timeout.
\<close>

type_synonym 'k sys_read = "'k \<Rightarrow> nat \<Rightarrow> string option \<times> 'k"
type_synonym 'k sys_write = "'k \<Rightarrow> string \<Rightarrow> nat option \<times> 'k"
type_synonym 'k wait_for = "'k \<Rightarrow> bool \<times> 'k"

subsection \<open>readFileDescriptor\<close>

text \<open>The loop over \<open>total_bytes_read\<close>; \<open>buffer\<close> holds the bytes read so far.\<close>

function read_loop ::
  "'k sys_read \<Rightarrow> 'k wait_for \<Rightarrow> nat \<Rightarrow> int \<Rightarrow> string \<Rightarrow> 'k \<Rightarrow> string \<times> 'k" where
  "read_loop sys_read wait_for in_buffer_len in_timeout_seconds buffer k =
     (if length buffer < in_buffer_len then
        (let (timeout, k) = (if in_timeout_seconds > 0 then wait_for k else (False, k)) in
         if timeout then (buffer, k)
         else (case sys_read k (in_buffer_len - length buffer) of
                 (None, k) \<Rightarrow> (buffer, k)
               | (Some d, k) \<Rightarrow>
                   if d = [] then (buffer, k)
                   else read_loop sys_read wait_for in_buffer_len in_timeout_seconds (buffer @ d) k))
      else (buffer, k))"
  by pat_completeness auto
termination
  by (relation "measure (\<lambda>(r, w, n, t, b, k). n - length b)") (auto simp: neq_Nil_conv)

declare read_loop.simps [simp del]

text \<open>\<open>None\<close> is the return value -1; \<open>Some\<close> carries the filled buffer.\<close>

definition readFileDescriptor ::
  "'k sys_read \<Rightarrow> 'k wait_for \<Rightarrow> nat \<Rightarrow> int \<Rightarrow> 'k \<Rightarrow> string option \<times> 'k" where
  "readFileDescriptor sys_read wait_for in_buffer_len in_timeout_seconds k =
     (case read_loop sys_read wait_for in_buffer_len in_timeout_seconds [] k of (buffer, k) \<Rightarrow>
        (if length buffer = in_buffer_len then Some buffer else None, k))"

subsection \<open>writeFileDescriptor\<close>

text \<open>
  Only a negative return value ends the loop early, so a \<open>write\<close> that keeps returning 0
  keeps it running: the loop is partial.
\<close>

partial_function (option) write_loop ::
  "'k sys_write \<Rightarrow> string \<Rightarrow> nat \<Rightarrow> 'k \<Rightarrow> (nat \<times> 'k) option" where
  "write_loop sys_write in_buffer total_bytes_written k =
     (if total_bytes_written < length in_buffer then
        (case sys_write k (drop total_bytes_written in_buffer) of
           (None, k) \<Rightarrow> Some (total_bytes_written, k)
         | (Some bytes_written, k) \<Rightarrow>
             write_loop sys_write in_buffer (total_bytes_written + bytes_written) k)
      else Some (total_bytes_written, k))"

declare write_loop.simps [code]

text \<open>\<open>Inr True\<close> is success, \<open>Inr False\<close> the return value -1.\<close>

definition writeFileDescriptor :: "'k sys_write \<Rightarrow> string \<Rightarrow> 'k \<Rightarrow> (bool outcome) \<times> 'k" where
  "writeFileDescriptor sys_write in_buffer k =
     (if \<not> nul_free in_buffer then (Inl AssertFailed, k)
      else (case write_loop sys_write in_buffer 0 k of
              None \<Rightarrow> (Inl Diverges, k)
            | Some (total_bytes_written, k) \<Rightarrow> (Inr (total_bytes_written = length in_buffer), k)))"

subsection \<open>What a readable descriptor promises\<close>

text \<open>
  \<open>src\<close> is the sequence of bytes the descriptor has still to deliver, \<open>frame\<close> the rest of
  the system's state, which reading does not change.
\<close>

locale fd_reader =
  fixes sys_read :: "'k sys_read"
    and wait_for :: "'k wait_for"
    and src :: "'k \<Rightarrow> string"
    and frame :: "'k \<Rightarrow> 'v"
  assumes read_bytes: "sys_read k n = (Some d, k') \<Longrightarrow> length d \<le> n \<and> src k = d @ src k'"
    and read_error: "sys_read k n = (None, k') \<Longrightarrow> src k' = src k"
    and read_frame: "sys_read k n = (r, k') \<Longrightarrow> frame k' = frame k"
    and wait_src: "wait_for k = (b, k') \<Longrightarrow> src k' = src k \<and> frame k' = frame k"
begin

lemma read_loop_src:
  assumes "read_loop sys_read wait_for n t buffer k = (b, k')" "length buffer \<le> n"
  shows "length b \<le> n \<and> buffer @ src k = b @ src k' \<and> frame k' = frame k"
  using assms
proof (induction "n - length buffer" arbitrary: buffer k rule: less_induct)
  case less
  obtain timeout k1 where w: "(if t > 0 then wait_for k else (False, k)) = (timeout, k1)"
    by (cases "if t > 0 then wait_for k else (False, k)")
  then have k1: "src k1 = src k \<and> frame k1 = frame k" using wait_src by (auto split: if_splits)
  obtain r k2 where r: "sys_read k1 (n - length buffer) = (r, k2)"
    by (cases "sys_read k1 (n - length buffer)")
  note step = read_loop.simps [of sys_read wait_for n t buffer k, unfolded less.prems(1) w Let_def prod.case r]
  show ?case
  proof (cases "length buffer < n \<and> \<not> timeout \<and> r \<noteq> None \<and> r \<noteq> Some []")
    case True
    then obtain d where d: "r = Some d" "d \<noteq> []" by auto
    with read_bytes r have le: "length d \<le> n - length buffer" "src k1 = d @ src k2" by auto
    moreover have "read_loop sys_read wait_for n t (buffer @ d) k2 = (b, k')"
      using step True d by simp
    moreover have "n - length (buffer @ d) < n - length buffer" "length (buffer @ d) \<le> n"
      using le(1) True d(2) by (auto simp: neq_Nil_conv)
    ultimately show ?thesis
      using less.hyps [of "buffer @ d" k2] k1 read_frame [OF r] by simp
  next
    case False
    then have "b = buffer \<and> src k' = src k \<and> frame k' = frame k"
      using step k1 r read_error [of k1 _ k2] read_bytes [of k1 _ "[]" k2] read_frame [OF r]
      by (auto split: if_splits option.splits)
    then show ?thesis using less.prems(2) by simp
  qed
qed

lemma read_success:
  assumes "readFileDescriptor sys_read wait_for n t k = (Some b, k')"
  shows "length b = n" and "src k = b @ src k'" and "frame k' = frame k"
  using assms read_loop_src [of n t "[]" k]
  by (auto simp: readFileDescriptor_def split: prod.splits if_splits)

lemma read_failure:
  assumes "readFileDescriptor sys_read wait_for n t k = (None, k')"
  shows "\<exists>lost. length lost < n \<and> src k = lost @ src k'" and "frame k' = frame k"
  using assms read_loop_src [of n t "[]" k]
  by (fastforce simp: readFileDescriptor_def split: prod.splits if_splits)+

lemma read_nothing: "readFileDescriptor sys_read wait_for 0 t k = (Some [], k)"
  by (simp add: readFileDescriptor_def read_loop.simps [of _ _ 0])

end

subsection \<open>What a writable descriptor promises\<close>

text \<open>
  \<open>sink\<close> is what has been written so far (\<open>None\<close> where the bytes go nowhere, as for a
  file that was unlinked while open), \<open>frame\<close> the rest of the system's state. \<open>budget\<close> bounds how often a \<open>write\<close> of a
  non-empty buffer may still return 0; the loop returns because it is finite.
\<close>

locale fd_writer =
  fixes sys_write :: "'k sys_write"
    and sink :: "'k \<Rightarrow> string option"
    and frame :: "'k \<Rightarrow> 'v"
    and budget :: "'k \<Rightarrow> nat"
  assumes write_bytes: "sys_write k s = (Some n, k') \<Longrightarrow>
      n \<le> length s \<and> sink k' = map_option (\<lambda>c. c @ take n s) (sink k)"
    and write_error: "sys_write k s = (None, k') \<Longrightarrow> sink k' = sink k"
    and write_frame: "sys_write k s = (r, k') \<Longrightarrow> frame k' = frame k"
    and write_zero: "sys_write k s = (Some 0, k') \<Longrightarrow> s \<noteq> [] \<Longrightarrow> budget k' < budget k"
    and write_budget: "sys_write k s = (r, k') \<Longrightarrow> budget k' \<le> budget k"
begin

lemma write_loop_returns:
  assumes "done_n \<le> length buf"
  shows "\<exists>m k'. write_loop sys_write buf done_n k = Some (m, k') \<and> done_n \<le> m \<and> m \<le> length buf
           \<and> sink k' = map_option (\<lambda>c. c @ take (m - done_n) (drop done_n buf)) (sink k)
           \<and> frame k' = frame k"
  using assms
proof (induction "length buf - done_n + budget k" arbitrary: done_n k rule: less_induct)
  case less
  obtain r k1 where r: "sys_write k (drop done_n buf) = (r, k1)"
    by (cases "sys_write k (drop done_n buf)")
  note step = write_loop.simps [of sys_write buf done_n k, unfolded r prod.case]
  show ?case
  proof (cases "done_n < length buf \<and> r \<noteq> None")
    case True
    then obtain n where n: "r = Some n" by auto
    with write_bytes r have le: "n \<le> length buf - done_n" "sink k1 = map_option (\<lambda>c. c @ take n (drop done_n buf)) (sink k)"
      by fastforce+
    have "length buf - (done_n + n) + budget k1 < length buf - done_n + budget k"
      using write_budget [OF r] write_zero [of k "drop done_n buf" k1] r n True le by (cases "n = 0") auto
    moreover have "done_n + n \<le> length buf" using le(1) less.prems by simp
    ultimately obtain m k' where
      m: "write_loop sys_write buf (done_n + n) k1 = Some (m, k')" "done_n + n \<le> m" "m \<le> length buf"
      "sink k' = map_option (\<lambda>c. c @ take (m - (done_n + n)) (drop (done_n + n) buf)) (sink k1)"
      "frame k' = frame k1" using less.hyps [of "done_n + n" k1] by auto
    have "take (m - done_n) (drop done_n buf) = take n (drop done_n buf) @ take (m - (done_n + n)) (drop (done_n + n) buf)"
      using m(2) take_add [of n "m - (done_n + n)" "drop done_n buf"] by (simp add: add.commute)
    with m le step n True write_frame [OF r] show ?thesis by (simp add: option.map_comp comp_def)
  next
    case False
    then show ?thesis using step write_error r less.prems write_frame [OF r]
      by (auto split: if_splits simp: option.map_ident)
  qed
qed

lemma writeFileDescriptor_returns:
  assumes "nul_free buf"
  shows "\<exists>m k'. writeFileDescriptor sys_write buf k = (Inr (m = length buf), k') \<and> m \<le> length buf
           \<and> sink k' = map_option (\<lambda>c. c @ take m buf) (sink k) \<and> frame k' = frame k"
  using write_loop_returns [of 0 buf k] assms by (auto simp: writeFileDescriptor_def)

lemma writeFileDescriptor_success:
  assumes "writeFileDescriptor sys_write buf k = (Inr True, k')"
  shows "sink k' = map_option (\<lambda>c. c @ buf) (sink k)" and "frame k' = frame k"
proof -
  have "nul_free buf" using assms by (auto simp: writeFileDescriptor_def split: if_splits)
  from writeFileDescriptor_returns [OF this, of k] assms
  show "sink k' = map_option (\<lambda>c. c @ buf) (sink k)" "frame k' = frame k" by auto
qed

lemma writeFileDescriptor_failure:
  assumes "writeFileDescriptor sys_write buf k = (Inr False, k')"
  shows "\<exists>m < length buf. sink k' = map_option (\<lambda>c. c @ take m buf) (sink k)" and "frame k' = frame k"
proof -
  have "nul_free buf" using assms by (auto simp: writeFileDescriptor_def split: if_splits)
  from writeFileDescriptor_returns [OF this, of k] assms
  show "\<exists>m < length buf. sink k' = map_option (\<lambda>c. c @ take m buf) (sink k)" "frame k' = frame k"
    by (auto simp: le_less)
qed

end

subsection \<open>Descriptors that do not fail\<close>

text \<open>
  While \<open>ok\<close> holds, a wait does not time out, a read of a stream that has bytes left delivers
  some, and a write does not fail; the sizes of the pieces are still the system's choice.
  Reading and writing are then exact.
\<close>

locale reliable_reader = fd_reader +
  fixes ok :: "'a \<Rightarrow> bool"
  assumes read_ok: "ok k \<Longrightarrow> src k \<noteq> [] \<Longrightarrow> 0 < n \<Longrightarrow> \<exists>d k'. sys_read k n = (Some d, k') \<and> d \<noteq> [] \<and> ok k'"
    and wait_ok: "ok k \<Longrightarrow> \<exists>k'. wait_for k = (False, k') \<and> ok k'"
begin

lemma read_loop_exact:
  assumes "ok k" "n \<le> length buffer + length (src k)" "length buffer \<le> n"
  shows "\<exists>k'. read_loop sys_read wait_for n t buffer k = (take n (buffer @ src k), k') \<and> ok k'"
  using assms
proof (induction "n - length buffer" arbitrary: buffer k rule: less_induct)
  case less
  show ?case
  proof (cases "length buffer < n")
    case False
    with less.prems have "length buffer = n" by simp
    then show ?thesis using less.prems(1) by (subst read_loop.simps) simp
  next
    case True
    obtain k1 where w: "(if t > 0 then wait_for k else (False, k)) = (False, k1)" "ok k1"
      using wait_ok [OF less.prems(1)] less.prems(1) by (cases "t > 0") auto
    have src1: "src k1 = src k" using w(1) wait_src by (auto split: if_splits)
    with True less.prems(2) have "src k1 \<noteq> []" by auto
    then obtain d k2 where r: "sys_read k1 (n - length buffer) = (Some d, k2)" "d \<noteq> []" "ok k2"
      using read_ok [OF w(2), of "n - length buffer"] True by auto
    from read_bytes [OF r(1)] have d: "length d \<le> n - length buffer" "src k1 = d @ src k2" by auto
    have "n - length (buffer @ d) < n - length buffer" "n \<le> length (buffer @ d) + length (src k2)" "length (buffer @ d) \<le> n"
      using d r(2) True less.prems(2) src1 by (auto simp: neq_Nil_conv)
    from less.hyps [OF this(1) r(3) this(2,3)] obtain k' where
      "read_loop sys_read wait_for n t (buffer @ d) k2 = (take n ((buffer @ d) @ src k2), k')" "ok k'" by blast
    moreover have "read_loop sys_read wait_for n t buffer k = read_loop sys_read wait_for n t (buffer @ d) k2"
      using True w(1) r(1,2) by (subst read_loop.simps) simp
    ultimately show ?thesis using d(2) src1 by simp
  qed
qed

lemma read_exact:
  assumes "ok k" "n \<le> length (src k)"
  shows "\<exists>k'. readFileDescriptor sys_read wait_for n t k = (Some (take n (src k)), k')
     \<and> src k' = drop n (src k) \<and> frame k' = frame k \<and> ok k'"
proof -
  from read_loop_exact [of k n "[]" t] assms obtain k' where
    k': "read_loop sys_read wait_for n t [] k = (take n (src k), k')" "ok k'" by auto
  then have "readFileDescriptor sys_read wait_for n t k = (Some (take n (src k)), k')"
    using assms(2) by (simp add: readFileDescriptor_def)
  with read_success [OF this] k'(2) show ?thesis by (metis append_take_drop_id same_append_eq)
qed

end

locale reliable_writer = fd_writer +
  fixes ok :: "'a \<Rightarrow> bool"
  assumes write_ok: "ok k \<Longrightarrow> \<exists>n k'. sys_write k s = (Some n, k') \<and> ok k'"
begin

lemma write_loop_exact:
  assumes "write_loop sys_write buf n k = Some (m, k')" "ok k" "n \<le> length buf"
  shows "m = length buf \<and> ok k'"
proof -
  have "ok k \<longrightarrow> n \<le> length buf \<longrightarrow> m = length buf \<and> ok k'"
    using assms(1)
  proof (induction "length buf - n + budget k" arbitrary: n k rule: less_induct)
    case less
    show ?case
    proof (intro impI)
      assume ok: "ok k" and n: "n \<le> length buf"
      show "m = length buf \<and> ok k'"
      proof (cases "n < length buf")
        case False
        with less.prems ok n show ?thesis by (simp add: write_loop.simps [of sys_write buf n k])
      next
        case True
        obtain w k1 where w: "sys_write k (drop n buf) = (Some w, k1)" "ok k1" using write_ok [OF ok] by blast
        have "w \<le> length buf - n" using write_bytes [OF w(1)] by simp
        moreover have "length buf - (n + w) + budget k1 < length buf - n + budget k"
          using write_budget [OF w(1)] write_zero [of k "drop n buf" k1] w(1) True by (cases "w = 0") auto
        moreover have "write_loop sys_write buf (n + w) k1 = Some (m, k')"
          using less.prems True w(1) by (simp add: write_loop.simps [of sys_write buf n k])
        ultimately show ?thesis using less.hyps [of "n + w" k1] w(2) n by simp
      qed
    qed
  qed
  with assms(2,3) show ?thesis by blast
qed

lemma write_exact:
  assumes "ok k" "nul_free buf"
  shows "\<exists>k'. writeFileDescriptor sys_write buf k = (Inr True, k')
     \<and> sink k' = map_option (\<lambda>c. c @ buf) (sink k) \<and> frame k' = frame k \<and> ok k'"
proof -
  from write_loop_returns [of 0 buf k] obtain m k' where w: "write_loop sys_write buf 0 k = Some (m, k')" by auto
  from write_loop_exact [OF w assms(1)] have "m = length buf" "ok k'" by auto
  with w assms(2) have "writeFileDescriptor sys_write buf k = (Inr True, k')" by (simp add: writeFileDescriptor_def)
  with writeFileDescriptor_success [OF this] \<open>ok k'\<close> show ?thesis by blast
qed

end

subsection \<open>Without the promise the write loop need not return\<close>

lemma write_loop_zero_aux:
  assumes "write_loop sys_write buf n k = Some r" "sys_write = (\<lambda>k s. (Some 0, k))" "n < length buf"
  shows False
proof -
  have "w = (\<lambda>k s. (Some 0, k)) \<longrightarrow> length b \<le> n"
    if "write_loop w b n k = Some r" for w :: "'k sys_write" and b n k r
  proof (rule write_loop.raw_induct [where P = "\<lambda>w b n k r. w = (\<lambda>k s. (Some 0, k)) \<longrightarrow> length b \<le> n", OF _ that])
    fix f :: "'k sys_write \<Rightarrow> string \<Rightarrow> nat \<Rightarrow> 'k \<Rightarrow> (nat \<times> 'k) option"
      and w :: "'k sys_write" and b n k r
    assume IH: "\<And>w b n k r. f w b n k = Some r \<Longrightarrow> w = (\<lambda>k s. (Some 0, k)) \<longrightarrow> length b \<le> n"
      and eq: "(if n < length b
            then case w k (drop n b) of (None, k) \<Rightarrow> Some (n, k) | (Some m, k) \<Rightarrow> f w b (n + m) k
            else Some (n, k)) = Some r"
    show "w = (\<lambda>k s. (Some 0, k)) \<longrightarrow> length b \<le> n"
    proof
      assume w: "w = (\<lambda>k s. (Some 0, k))"
      show "length b \<le> n"
      proof (rule ccontr)
        assume "\<not> length b \<le> n"
        with eq w have "f w b n k = Some r" by simp
        with IH w \<open>\<not> length b \<le> n\<close> show False by blast
      qed
    qed
  qed
  from this [OF assms(1)] assms(2,3) show False by simp
qed

lemma write_loop_zero: "buf \<noteq> [] \<Longrightarrow> write_loop (\<lambda>k s. (Some 0, k)) buf 0 k = None"
  using write_loop_zero_aux [of "\<lambda>k s. (Some 0, k)" buf 0 k] by (cases "write_loop (\<lambda>k s. (Some 0, k)) buf 0 k") auto

end
