(* ===== verification/Posix_File.thy ===== *)
theory Posix_File
  imports Read_Write_Helper "HOL-Library.Word"
begin

unbundle bit_operations_syntax

text \<open>
  The class \<open>File\<close> (file.h, file.cpp) over a model of the POSIX calls it makes. The
  operating system's own choices are the model's free parameters, fields of \<open>os\<close>:
  how a path string resolves to a file (working directory included), which files cannot
  be opened or changed, and the results of the next \<open>read\<close> and \<open>write\<close> calls
  (\<open>None\<close> a failure, \<open>Some n\<close> a call that moves fewer bytes than asked; once a script is
  used up, calls move everything). Nothing is assumed of them here; a theorem that needs
  more says so in its hypotheses. \<open>os_files\<close> is what running processes see,
  \<open>os_durable\<close> what \<open>fsync\<close> has forced to the disk.
\<close>

record os =
  os_resolve :: "string \<Rightarrow> string"
  os_files :: "string \<rightharpoonup> string"
  os_durable :: "string \<rightharpoonup> string"
  os_denied :: "string \<Rightarrow> bool"
  os_frozen :: "string \<Rightarrow> bool"
  os_reads :: "nat option list"
  os_writes :: "nat option list"

definition contents :: "string \<Rightarrow> os \<Rightarrow> string" where
  "contents key s = (case os_files s key of None \<Rightarrow> [] | Some c \<Rightarrow> c)"

subsection \<open>System calls\<close>

type_synonym flags = "32 word"

definition O_RDONLY :: flags where "O_RDONLY = 0"
definition O_WRONLY :: flags where "O_WRONLY = 1"
definition O_RDWR :: flags where "O_RDWR = 2"
definition O_APPEND :: flags where "O_APPEND = 0x8"
definition O_CREAT :: flags where "O_CREAT = 0x200"

lemmas flag_defs = O_RDONLY_def O_WRONLY_def O_RDWR_def O_APPEND_def O_CREAT_def

text \<open>Every descriptor the program opens for writing is opened with \<open>O_APPEND\<close>.\<close>

definition sys_open :: "string \<Rightarrow> flags \<Rightarrow> os \<Rightarrow> string option \<times> os" where
  "sys_open path fl s =
     (let key = os_resolve s (c_str path) in
      if os_denied s key then (None, s)
      else if os_files s key \<noteq> None then (Some key, s)
      else if O_CREAT AND fl = O_CREAT then (Some key, s\<lparr>os_files := (os_files s)(key \<mapsto> [])\<rparr>)
      else (None, s))"

text \<open>Bytes written to a file that has been unlinked are lost with it.\<close>

definition append_bytes :: "string \<Rightarrow> string \<Rightarrow> os \<Rightarrow> os" where
  "append_bytes key d s = s\<lparr>os_files := (os_files s)(key := map_option (\<lambda>c. c @ d) (os_files s key))\<rparr>"

definition file_sys_write :: "string \<Rightarrow> os sys_write" where
  "file_sys_write key s d =
     (case os_writes s of
        [] \<Rightarrow> (Some (length d), append_bytes key d s)
      | None # sc \<Rightarrow> (None, s\<lparr>os_writes := sc\<rparr>)
      | Some n # sc \<Rightarrow>
          (Some (min n (length d)), append_bytes key (take n d) (s\<lparr>os_writes := sc\<rparr>)))"

text \<open>The state of a descriptor opened for reading is the system's and the file offset.\<close>

fun file_sys_read :: "string \<Rightarrow> (os \<times> nat) sys_read" where
  "file_sys_read key (s, off) n =
     (case os_reads s of
        [] \<Rightarrow> (let d = take n (drop off (contents key s)) in (Some d, (s, off + length d)))
      | None # sc \<Rightarrow> (None, (s\<lparr>os_reads := sc\<rparr>, off))
      | Some m # sc \<Rightarrow>
          (let d = take (min n (Suc m)) (drop off (contents key s))
           in (Some d, (s\<lparr>os_reads := sc\<rparr>, off + length d))))"

definition no_wait :: "'k wait_for" where
  "no_wait k = (False, k)"

definition sys_truncate :: "string \<Rightarrow> int \<Rightarrow> os \<Rightarrow> bool \<times> os" where
  "sys_truncate path len s =
     (let key = os_resolve s (c_str path) in
      if os_files s key = None \<or> os_frozen s key \<or> len < 0 then (False, s)
      else (True, s\<lparr>os_files := (os_files s)(key \<mapsto>
              take (nat len) (contents key s)
              @ replicate (nat len - length (contents key s)) NUL)\<rparr>))"

definition sys_remove :: "string \<Rightarrow> os \<Rightarrow> bool \<times> os" where
  "sys_remove path s =
     (let key = os_resolve s (c_str path) in
      if os_files s key = None \<or> os_frozen s key then (False, s)
      else (True, s\<lparr>os_files := (os_files s)(key := None)\<rparr>))"

definition fsync :: "string \<Rightarrow> os \<Rightarrow> os" where
  "fsync key s = s\<lparr>os_durable := (os_durable s)(key := os_files s key)\<rparr>"

subsection \<open>file.cpp\<close>

record File =
  m_fd :: string
  m_flags :: flags

definition writable :: "flags \<Rightarrow> bool" where
  "writable fl = (O_WRONLY = O_WRONLY AND fl \<or> O_RDWR = O_RDWR AND fl)"

definition readable :: "flags \<Rightarrow> bool" where
  "readable fl = (O_RDONLY = O_RDONLY AND fl \<or> O_RDWR = O_RDWR AND fl)"

text \<open>The constructor; \<open>None\<close> is the exception \<open>ErrorOpeningFile\<close>.\<close>

definition File_open :: "string \<Rightarrow> flags \<Rightarrow> os \<Rightarrow> File option \<times> os" where
  "File_open in_file_path in_flags s =
     (case sys_open in_file_path in_flags s of
        (None, s) \<Rightarrow> (None, s)
      | (Some fd, s) \<Rightarrow> (Some \<lparr>m_fd = fd, m_flags = in_flags\<rparr>, s))"

text \<open>The destructor.\<close>

definition File_close :: "File \<Rightarrow> os \<Rightarrow> os" where
  "File_close f s = (if writable (m_flags f) then fsync (m_fd f) (fsync (m_fd f) s) else s)"

definition fileExists :: "string \<Rightarrow> os \<Rightarrow> bool" where
  "fileExists in_file_path s = (os_files s (os_resolve s (c_str in_file_path)) \<noteq> None)"

definition getFileSize_path :: "string \<Rightarrow> os \<Rightarrow> int" where
  "getFileSize_path in_file_path s =
     (case os_files s (os_resolve s (c_str in_file_path)) of None \<Rightarrow> 0 | Some c \<Rightarrow> int (length c))"

definition getFileSize :: "File \<Rightarrow> os \<Rightarrow> int outcome" where
  "getFileSize f s =
     (case os_files s (m_fd f) of None \<Rightarrow> Inl ExitFailure | Some c \<Rightarrow> Inr (int (length c)))"

text \<open>
  \<open>File::read\<close>. The size is narrowed to \<open>int\<close>; a variable-length array whose size
  expression overflows or is not positive has no meaning. \<open>Inr None\<close> is the exception
  \<open>ErrorReadingFromFile\<close>.
\<close>

definition File_read :: "File \<Rightarrow> os \<Rightarrow> (string option) outcome \<times> os" where
  "File_read f s =
     (if readable (m_flags f) then
        (case getFileSize f s of
           Inl e \<Rightarrow> (Inl e, s)
         | Inr st_size \<Rightarrow>
             (let buffer_len = sint (word_of_int st_size :: 32 word) in
              if buffer_len < 0 \<or> int_max < buffer_len + 1 then (Inl Undefined, s)
              else (case readFileDescriptor (file_sys_read (m_fd f)) no_wait (nat buffer_len) 0 (s, 0) of
                      (None, (s, off)) \<Rightarrow> (Inr None, s)
                    | (Some buffer, (s, off)) \<Rightarrow> (Inr (Some (c_str buffer)), s))))
      else (Inl ExitFailure, s))"

text \<open>\<open>File::write\<close>. \<open>Inr False\<close> is the exception \<open>ErrorWritingToFile\<close>.\<close>

definition File_write :: "File \<Rightarrow> string \<Rightarrow> os \<Rightarrow> (bool outcome) \<times> os" where
  "File_write f in_buffer_str s =
     (if writable (m_flags f) then writeFileDescriptor (file_sys_write (m_fd f)) in_buffer_str s
      else (Inl ExitFailure, s))"

subsection \<open>The descriptors keep the promises of Read\_Write\_Helper\<close>

lemma append_bytes_simps [simp]:
  "os_resolve (append_bytes key d s) = os_resolve s"
  "os_durable (append_bytes key d s) = os_durable s"
  "os_denied (append_bytes key d s) = os_denied s"
  "os_frozen (append_bytes key d s) = os_frozen s"
  "os_reads (append_bytes key d s) = os_reads s"
  "os_writes (append_bytes key d s) = os_writes s"
  "os_files (append_bytes key d s) = (os_files s)(key := map_option (\<lambda>c. c @ d) (os_files s key))"
  by (auto simp: append_bytes_def)

lemma contents_scripts [simp]:
  "contents key (s\<lparr>os_writes := w\<rparr>) = contents key s"
  "contents key (s\<lparr>os_reads := r\<rparr>) = contents key s"
  by (simp_all add: contents_def)

lemma take_then_drop: "xs = take n xs @ drop (length (take n xs)) xs"
  by (cases "n \<le> length xs") (simp_all add: min_def)

lemma file_sys_read_cases:
  assumes "file_sys_read key (s, off) n = (r, k')"
  shows "(\<exists>m sc. r = Some (take (min n m) (drop off (contents key s)))
            \<and> k' = (s\<lparr>os_reads := sc\<rparr>, off + length (take (min n m) (drop off (contents key s)))))
       \<or> (\<exists>sc. r = None \<and> k' = (s\<lparr>os_reads := sc\<rparr>, off))"
proof (cases "os_reads s")
  case Nil
  then have "s\<lparr>os_reads := []\<rparr> = s" by simp
  with Nil assms show ?thesis
    by (intro disjI1 exI [of _ n] exI [of _ "[]"]) (auto simp: Let_def)
next
  case (Cons a sc)
  with assms show ?thesis by (cases a) (auto simp: Let_def)
qed

interpretation file_rd: fd_reader "file_sys_read key" no_wait "\<lambda>(s, off). drop off (contents key s)"
  "\<lambda>(s, off). s\<lparr>os_reads := []\<rparr>" for key
proof
  fix k k' :: "os \<times> nat" and n d r b
  obtain s off where k: "k = (s, off)" by (cases k)
  let ?src = "\<lambda>(s, off). drop off (contents key s)"
  let ?fr = "\<lambda>(s, off). s\<lparr>os_reads := []\<rparr>"
  show "length d \<le> n \<and> ?src k = d @ ?src k'" if "file_sys_read key k n = (Some d, k')"
  proof -
    from file_sys_read_cases [OF that [unfolded k]] obtain m sc where
      m: "d = take (min n m) (drop off (contents key s))" "k' = (s\<lparr>os_reads := sc\<rparr>, off + length d)"
      by auto
    then show ?thesis
      using take_then_drop [of "drop off (contents key s)" "min n m"] by (auto simp: k add.commute)
  qed
  show "?src k' = ?src k" if "file_sys_read key k n = (None, k')"
    using file_sys_read_cases [OF that [unfolded k]] by (auto simp: k)
  show "?fr k' = ?fr k" if "file_sys_read key k n = (r, k')"
    using file_sys_read_cases [OF that [unfolded k]] by (auto simp: k)
  show "?src k' = ?src k \<and> ?fr k' = ?fr k" if "no_wait k = (b, k')"
    using that by (simp add: no_wait_def)
qed

interpretation file_wr: fd_writer "file_sys_write key" "\<lambda>s. os_files s key"
  "\<lambda>s. s\<lparr>os_files := (os_files s)(key := None), os_writes := []\<rparr>" "\<lambda>s. length (os_writes s)" for key
  by unfold_locales
     (auto simp: file_sys_write_def min_def append_bytes_def split: list.splits option.splits)

subsection \<open>Behaviour of the File operations\<close>

definition grow :: "string \<Rightarrow> string \<Rightarrow> nat option list \<Rightarrow> os \<Rightarrow> os" where
  "grow key d ws s = s\<lparr>os_files := (os_files s)(key := map_option (\<lambda>c. c @ d) (os_files s key)), os_writes := ws\<rparr>"

lemma grow_simps [simp]:
  "os_resolve (grow key d ws s) = os_resolve s"
  "os_durable (grow key d ws s) = os_durable s"
  "os_denied (grow key d ws s) = os_denied s"
  "os_frozen (grow key d ws s) = os_frozen s"
  "os_reads (grow key d ws s) = os_reads s"
  "os_writes (grow key d ws s) = ws"
  "os_files (grow key d ws s) = (os_files s)(key := map_option (\<lambda>c. c @ d) (os_files s key))"
  by (simp_all add: grow_def)

lemma grow_grow [simp]: "grow key e ws' (grow key d ws s) = grow key (d @ e) ws' s"
  by (simp add: grow_def option.map_comp comp_def)

lemma grow_self: "grow key [] (os_writes s) s = s"
  by (simp add: grow_def option.map_ident)

text \<open>
  Whatever the system does, writing appends some prefix of the data to the file, all of
  it exactly when it reports success, and touches nothing else.
\<close>

lemma File_write_cases:
  assumes "writable (m_flags f)" "nul_free d"
  obtains m ws where "m \<le> length d" "File_write f d s = (Inr (m = length d), grow (m_fd f) (take m d) ws s)"
proof -
  from file_wr.writeFileDescriptor_returns [OF assms(2), of "m_fd f" s] obtain m s' where
    m: "m \<le> length d" "writeFileDescriptor (file_sys_write (m_fd f)) d s = (Inr (m = length d), s')"
    and sink: "os_files s' (m_fd f) = map_option (\<lambda>c. c @ take m d) (os_files s (m_fd f))"
    and frame: "s'\<lparr>os_files := (os_files s')(m_fd f := None), os_writes := []\<rparr>
              = s\<lparr>os_files := (os_files s)(m_fd f := None), os_writes := []\<rparr>" by blast
  from frame have "(os_files s')(m_fd f := None) = (os_files s)(m_fd f := None)"
    by (metis (no_types, lifting) os.select_convs(2) os.surjective os.update_convs(2,7))
  then have "os_files s' = (os_files s)(m_fd f := os_files s' (m_fd f))"
    by (auto simp: fun_eq_iff split: if_splits)
  with frame sink have "s' = grow (m_fd f) (take m d) (os_writes s') s"
    unfolding grow_def by (cases s; cases s') simp
  with m assms(1) that show ?thesis by (simp add: File_write_def)
qed

text \<open>A system whose write script is used up writes everything.\<close>

lemma write_loop_quiet:
  assumes "os_writes s = []" "n \<le> length d"
  shows "write_loop (file_sys_write key) d n s = Some (length d, append_bytes key (drop n d) s)"
proof (cases "n < length d")
  case True
  have "write_loop (file_sys_write key) d (length d) s' = Some (length d, s')" for s'
    by (subst write_loop.simps) simp
  with True show ?thesis
    using assms by (subst write_loop.simps) (simp add: file_sys_write_def)
next
  case False
  with assms show ?thesis
    by (subst write_loop.simps) (simp add: append_bytes_def option.map_ident)
qed

lemma File_write_quiet [os_simps]:
  assumes "os_writes s = []" "writable (m_flags f)" "nul_free d"
  shows "File_write f d s = (Inr True, append_bytes (m_fd f) d s)"
  using assms write_loop_quiet [of s 0 d "m_fd f"]
  by (simp add: File_write_def writeFileDescriptor_def)

lemma writable_append [simp]: "writable (O_CREAT OR O_WRONLY OR O_APPEND)"
  by (simp add: writable_def flag_defs)

lemma readable_always: "readable fl"
  by (simp add: readable_def flag_defs)

lemma File_open_append_Some [os_simps]:
  "File_open p (O_CREAT OR O_WRONLY OR O_APPEND) s =
     (let key = os_resolve s (c_str p) in
      if os_denied s key then (None, s)
      else (Some \<lparr>m_fd = key, m_flags = O_CREAT OR O_WRONLY OR O_APPEND\<rparr>,
            if os_files s key = None then s\<lparr>os_files := (os_files s)(key \<mapsto> [])\<rparr> else s))"
  by (auto simp: File_open_def sys_open_def Let_def flag_defs)

lemma File_open_read [os_simps]:
  "File_open p O_RDONLY s =
     (let key = os_resolve s (c_str p) in
      if os_denied s key \<or> os_files s key = None then (None, s)
      else (Some \<lparr>m_fd = key, m_flags = O_RDONLY\<rparr>, s))"
  by (auto simp: File_open_def sys_open_def Let_def flag_defs)

lemma sint_word_of_nat_small:
  assumes "int n < int_max"
  shows "sint (word_of_nat n :: 32 word) = int n"
proof -
  have "signed_take_bit 31 (int n) = int n"
    using assms by (intro signed_take_bit_int_eq_self) (simp_all add: int_range_defs)
  then show ?thesis using sint_sbintrunc' [of "int n", where 'a = 32] by simp
qed

text \<open>
  Reading a file of less than \<open>INT_MAX\<close> bytes either fails or returns the whole file up to
  its first NUL; it changes nothing but the read script.
\<close>

lemma File_read_cases:
  assumes "os_files s (m_fd f) = Some c" "int (length c) < int_max"
  obtains (ok) rs where "File_read f s = (Inr (Some (c_str c)), s\<lparr>os_reads := rs\<rparr>)"
    | (err) rs where "File_read f s = (Inr None, s\<lparr>os_reads := rs\<rparr>)"
proof -
  let ?key = "m_fd f"
  note len = sint_word_of_nat_small [OF assms(2)]
  obtain b s' off where b: "readFileDescriptor (file_sys_read ?key) no_wait (length c) 0 (s, 0) = (b, (s', off))"
    by (metis prod_cases3)
  have read: "File_read f s = (Inr (map_option c_str b), s')"
    using assms b by (cases b) (simp_all add: File_read_def readable_always getFileSize_def len Let_def)
  have fr: "s'\<lparr>os_reads := []\<rparr> = s\<lparr>os_reads := []\<rparr>"
    using b file_rd.read_success(3) [of ?key "length c" 0 "(s, 0)"]
      file_rd.read_failure(2) [of ?key "length c" 0 "(s, 0)"] by (cases b) auto
  then have s': "s' = s\<lparr>os_reads := os_reads s'\<rparr>" by (cases s; cases s') simp
  show ?thesis
  proof (cases b)
    case None
    with read s' err show ?thesis by (metis option.simps(8))
  next
    case (Some d)
    with b have "length d = length c" "drop 0 (contents ?key s) = d @ drop off (contents ?key s')"
      using file_rd.read_success [of ?key "length c" 0 "(s, 0)" d "(s', off)"] by auto
    then have "d = c" using assms(1) by (simp add: contents_def)
    with Some read s' ok show ?thesis by (metis option.simps(9))
  qed
qed

lemma read_loop_quiet:
  assumes "os_reads s = []"
  shows "readFileDescriptor (file_sys_read key) no_wait (length (contents key s)) 0 (s, 0)
       = (Some (contents key s), (s, length (contents key s)))"
proof -
  let ?c = "contents key s"
  have "read_loop (file_sys_read key) no_wait (length ?c) 0 ?c k = (?c, k)" for k
    by (subst read_loop.simps) simp
  then have "read_loop (file_sys_read key) no_wait (length ?c) 0 [] (s, 0) = (?c, (s, length ?c))"
    using assms by (subst read_loop.simps) (auto simp: Let_def)
  then show ?thesis by (simp add: readFileDescriptor_def)
qed

lemma File_read_quiet [os_simps]:
  assumes "os_reads s = []" "os_files s (m_fd f) = Some c" "int (length c) < int_max"
  shows "File_read f s = (Inr (Some (c_str c)), s)"
proof -
  have "contents (m_fd f) s = c" using assms(2) by (simp add: contents_def)
  then show ?thesis
    using read_loop_quiet [OF assms(1), of "m_fd f"] assms
    by (simp add: File_read_def readable_always getFileSize_def Let_def
        sint_word_of_nat_small [OF assms(3)])
qed

end
