(* ===== verification/Backend_State.thy ===== *)
theory Backend_State
  imports Wire_Protocol Posix_File
begin

text \<open>
  The state of \<open>ServerBackend\<close> (server-backend.h) and the private operations on it that
  the command functions and recovery share: file attributes and their shared ownership,
  adding and removing transactions, and the transaction log.

  A \<open>SharedPtrFileAttributes\<close> is the file's name, the key of the one attribute object in
  \<open>m_file_name_to_ptr_to_file_attributes\<close>; the object carries the pointer's use count,
  and the custom deleter runs when the count reaches 0. A detached timer thread is a
  record of the arguments of its function. \<open>m_os\<close> is the system the process runs on.
  Time points are nanoseconds.
\<close>

type_synonym FileName = string
type_synonym FileSize = int
type_synonym TxnId = int
type_synonym SeqNum = int
type_synonym Data = string
type_synonym Timestamp = int
type_synonym BufferMap = "SeqNum \<rightharpoonup> Data"

record FileAttributes =
  m_file_name :: FileName
  m_file_size :: FileSize
  m_use_count :: nat

record TransactionAttributes =
  sp_file_attributes :: FileName
  buffers :: BufferMap
  max_seq_num :: SeqNum
  curr_timestamp :: Timestamp

record Timer =
  timer_txn_id :: TxnId
  timer_latest_timestamp :: Timestamp
  timer_file_name :: FileName

record ServerBackend =
  m_txns :: "TxnId \<rightharpoonup> TransactionAttributes"
  m_files :: "FileName \<rightharpoonup> FileAttributes"
  m_commits :: "TxnId set"
  m_directory :: string
  m_initialize :: bool
  m_timers :: "Timer list"
  m_os :: os

definition m_transaction_log :: FileName where [consts_simps]: "m_transaction_log = ''.transactionlog.txt''"
definition m_timeout_log :: FileName where [consts_simps]: "m_timeout_log = ''.timeoutlog.txt''"
definition m_commit_log :: FileName where [consts_simps]: "m_commit_log = ''.commitlog.txt''"
definition m_abort_log :: FileName where [consts_simps]: "m_abort_log = ''.abortlog.txt''"

definition ServerBackend_new :: "string \<Rightarrow> os \<Rightarrow> ServerBackend" where
  "ServerBackend_new in_directory s =
     \<lparr>m_txns = Map.empty, m_files = Map.empty, m_commits = {},
      m_directory = (if in_directory \<noteq> [] \<and> last in_directory \<noteq> CHR ''/''
                     then in_directory @ ''/'' else in_directory),
      m_initialize = True, m_timers = [], m_os = s\<rparr>"

subsection \<open>File attributes\<close>

text \<open>\<open>None\<close> is the exception \<open>ErrorAddingFileAttributes\<close>; the new pointer has one owner.\<close>

definition getNewFileAttributes :: "FileName \<Rightarrow> ServerBackend \<Rightarrow> ServerBackend option" where
  "getNewFileAttributes in_file_name b =
     (if m_files b in_file_name = None
      then Some (b\<lparr>m_files := (m_files b)(in_file_name \<mapsto>
                 \<lparr>m_file_name = in_file_name,
                  m_file_size = getFileSize_path in_file_name (m_os b),
                  m_use_count = 1\<rparr>)\<rparr>)
      else None)"

text \<open>\<open>shared_from_this\<close>: one more owner.\<close>

definition share_file_attributes :: "FileName \<Rightarrow> ServerBackend \<Rightarrow> ServerBackend" where
  "share_file_attributes name b =
     b\<lparr>m_files := (m_files b)(name := map_option (m_use_count_update Suc) (m_files b name))\<rparr>"

text \<open>The end of one owner; the last one runs the deleter, which erases the map entry.\<close>

definition release_file_attributes :: "FileName \<Rightarrow> ServerBackend \<Rightarrow> ServerBackend" where
  "release_file_attributes name b =
     (case m_files b name of
        None \<Rightarrow> b
      | Some fa \<Rightarrow>
          if m_use_count fa \<le> 1 then b\<lparr>m_files := (m_files b)(name := None)\<rparr>
          else b\<lparr>m_files := (m_files b)(name \<mapsto> fa\<lparr>m_use_count := m_use_count fa - 1\<rparr>)\<rparr>)"

subsection \<open>Transactions\<close>

definition getNewTransactionAttributes :: "FileName \<Rightarrow> Timestamp \<Rightarrow> TransactionAttributes" where
  "getNewTransactionAttributes in_sp_file_attributes in_timestamp =
     \<lparr>sp_file_attributes = in_sp_file_attributes, buffers = Map.empty,
      max_seq_num = initial_seq_num + 1, curr_timestamp = in_timestamp\<rparr>"

text \<open>\<open>emplace\<close> does nothing for a key that is present; the tuple it was given is destroyed.\<close>

definition emplace_transaction :: "TxnId \<Rightarrow> TransactionAttributes \<Rightarrow> ServerBackend \<Rightarrow> ServerBackend" where
  "emplace_transaction txn_id attrs b =
     (if m_txns b txn_id = None then b\<lparr>m_txns := (m_txns b)(txn_id \<mapsto> attrs)\<rparr>
      else release_file_attributes (sp_file_attributes attrs) b)"

definition removeTransaction :: "TxnId \<Rightarrow> ServerBackend \<Rightarrow> ServerBackend" where
  "removeTransaction txn_id b =
     (case m_txns b txn_id of
        None \<Rightarrow> b
      | Some t \<Rightarrow> release_file_attributes (sp_file_attributes t) (b\<lparr>m_txns := (m_txns b)(txn_id := None)\<rparr>))"

subsection \<open>The log\<close>

text \<open>Several writes in a row; the first failure ends them, as the exception does.\<close>

fun File_write_list :: "File \<Rightarrow> string list \<Rightarrow> os \<Rightarrow> (bool outcome) \<times> os" where
  "File_write_list f [] s = (Inr True, s)"
| "File_write_list f (d # ds) s =
     (case File_write f d s of
        (Inr True, s) \<Rightarrow> File_write_list f ds s
      | (r, s) \<Rightarrow> (r, s))"

text \<open>
  Both exceptions are caught and dropped, so a failure to log is not reported to the caller.
  The file size is asked for without the server directory, right before it is written.
\<close>

definition logTransaction ::
  "FileName \<Rightarrow> TxnId \<Rightarrow> FileName \<Rightarrow> ServerBackend \<Rightarrow> unit outcome \<times> ServerBackend" where
  "logTransaction in_log_name in_txn_id in_file_name b =
     (case File_open (m_directory b @ in_log_name) (O_CREAT OR O_WRONLY OR O_APPEND) (m_os b) of
        (None, s) \<Rightarrow> (Inr (), b\<lparr>m_os := s\<rparr>)
      | (Some log, s) \<Rightarrow>
          (case File_write_list log [to_string in_txn_id, '' '', in_file_name, '' ''] s of
             (Inl e, s) \<Rightarrow> (Inl e, b\<lparr>m_os := s\<rparr>)
           | (Inr False, s) \<Rightarrow> (Inr (), b\<lparr>m_os := File_close log s\<rparr>)
           | (Inr True, s) \<Rightarrow>
               (case File_write_list log [to_string (getFileSize_path in_file_name s), ''\<newline>''] s of
                  (Inl e, s) \<Rightarrow> (Inl e, b\<lparr>m_os := s\<rparr>)
                | (Inr _, s) \<Rightarrow> (Inr (), b\<lparr>m_os := File_close log s\<rparr>))))"

text \<open>
  \<open>addNewTransaction\<close>: \<open>Inr False\<close> is the exception \<open>ErrorAddingFileAttributes\<close>. The last
  action starts the transaction's timer thread.
\<close>

definition addNewTransaction ::
  "TxnId \<Rightarrow> FileName \<Rightarrow> Timestamp \<Rightarrow> ServerBackend \<Rightarrow> bool outcome \<times> ServerBackend" where
  "addNewTransaction in_txn_id in_file_name now b =
     (case (if m_files b in_file_name = None then getNewFileAttributes in_file_name b
            else Some (share_file_attributes in_file_name b)) of
        None \<Rightarrow> (Inr False, b)
      | Some b \<Rightarrow>
          (case logTransaction m_transaction_log in_txn_id in_file_name
                  (emplace_transaction in_txn_id (getNewTransactionAttributes in_file_name now) b) of
             (Inl e, b) \<Rightarrow> (Inl e, b)
           | (Inr _, b) \<Rightarrow>
               (Inr True, b\<lparr>m_timers := m_timers b @
                  [\<lparr>timer_txn_id = in_txn_id, timer_latest_timestamp = now,
                    timer_file_name = in_file_name\<rparr>]\<rparr>)))"

end
