(* ===== verification/Recovery.thy ===== *)
theory Recovery
  imports Backend_State "HOL-Library.AList"
begin

text \<open>
  Restart after a crash: \<open>loadFilesAndTransactions\<close> reads the four logs,
  \<open>truncateFiles\<close> cuts every logged file back to the largest size a log records, and
  \<open>initializeTransactions\<close> starts the interrupted transactions again. The two unordered
  maps it builds are association lists; their iteration order is the list's.

  The logs are opened for reading by their bare names, without \<open>m_directory\<close>; the paths
  resolve in whatever directory the process runs in.
\<close>

type_synonym entry = "TxnId \<times> FileName \<times> FileSize"
type_synonym FileNameFileSizeMap = "(FileName \<times> FileSize) list"
type_synonym TxnIdFileNameMap = "(TxnId \<times> FileName) list"

subsection \<open>Parsing a log\<close>

text \<open>One evaluation of the loop condition \<open>ss >> txn_id && ss >> file_name && ss >> file_size\<close>.\<close>

definition read_entry :: "istream \<Rightarrow> (entry \<times> istream) option" where
  "read_entry ss =
     (let (txn_id, ss) = extract_cint 0 ss;
          (file_name, ss) = extract_string [] ss;
          (file_size, ss) = extract_cllong 0 ss
      in if failbit ss then None else Some ((txn_id, file_name, file_size), ss))"

lemma split_sign_length: "split_sign s = (neg, body) \<Longrightarrow> length body \<le> length s"
  by (cases s) (auto simp: split_sign_def split: if_splits)

lemma extract_int_unread:
  "length (unread (snd (extract_int lo hi old st))) \<le> length (unread st)"
  "\<not> failbit (snd (extract_int lo hi old st)) \<Longrightarrow>
   length (unread (snd (extract_int lo hi old st))) < length (unread st)"
proof -
  let ?s = "dropWhile is_space (unread st)"
  obtain neg body where sp: "split_sign ?s = (neg, body)" by (cases "split_sign ?s")
  note body = split_sign_length [OF sp]
  have s: "length ?s \<le> length (unread st)" by (simp add: length_dropWhile_le)
  have r: "length (dropWhile is_digit body) \<le> length body" by (simp add: length_dropWhile_le)
  have lt: "takeWhile is_digit body \<noteq> [] \<Longrightarrow> length (dropWhile is_digit body) < length body"
    by (metis add_less_cancel_left append_Nil length_append length_greater_0_conv takeWhile_dropWhile_id
        less_add_same_cancel2)
  show "length (unread (snd (extract_int lo hi old st))) \<le> length (unread st)"
    using body s r by (auto simp: extract_int_def sp Let_def)
  show "\<not> failbit (snd (extract_int lo hi old st)) \<Longrightarrow>
    length (unread (snd (extract_int lo hi old st))) < length (unread st)"
    using body s r lt by (fastforce simp: extract_int_def sp Let_def split: if_splits)
qed

lemma extract_string_unread: "length (unread (snd (extract_string old st))) \<le> length (unread st)"
  by (auto simp: extract_string_def Let_def intro: order_trans [OF length_dropWhile_le])

lemma read_entry_unread:
  assumes "read_entry ss = Some (e, ss')"
  shows "length (unread ss') < length (unread ss)"
proof -
  obtain i s1 where 1: "extract_cint 0 ss = (i, s1)" by (cases "extract_cint 0 ss")
  obtain f s2 where 2: "extract_string [] s1 = (f, s2)" by (cases "extract_string [] s1")
  obtain z s3 where 3: "extract_cllong 0 s2 = (z, s3)" by (cases "extract_cllong 0 s2")
  from assms 1 2 3 have "ss' = s3" "\<not> failbit s3" by (auto simp: read_entry_def split: if_splits)
  moreover have "length (unread s3) < length (unread s2)"
    using extract_int_unread(2) [of llong_min llong_max 0 s2] 3 \<open>\<not> failbit s3\<close> by simp
  moreover have "length (unread s2) \<le> length (unread s1)"
    using extract_string_unread [of "[]" s1] 2 by simp
  moreover have "length (unread s1) \<le> length (unread ss)"
    using extract_int_unread(1) [of int_min int_max 0 ss] 1 by simp
  ultimately show ?thesis by simp
qed

function read_entries :: "istream \<Rightarrow> entry list" where
  "read_entries ss =
     (case read_entry ss of None \<Rightarrow> [] | Some (e, ss') \<Rightarrow> e # read_entries ss')"
  by pat_completeness auto
termination
  by (relation "measure (\<lambda>ss. length (unread ss))") (auto dest: read_entry_unread)

declare read_entries.simps [simp del]

subsection \<open>loadFilesAndTransactions\<close>

definition note_file_size :: "FileName \<Rightarrow> FileSize \<Rightarrow> FileNameFileSizeMap \<Rightarrow> FileNameFileSizeMap" where
  "note_file_size file_name file_size sizes =
     (case map_of sizes file_name of
        None \<Rightarrow> AList.update file_name file_size sizes
      | Some old \<Rightarrow> if file_size > old then AList.update file_name file_size sizes else sizes)"

definition toggle_transaction :: "TxnId \<Rightarrow> FileName \<Rightarrow> TxnIdFileNameMap \<Rightarrow> TxnIdFileNameMap" where
  "toggle_transaction txn_id file_name txns =
     (case map_of txns txn_id of
        None \<Rightarrow> AList.update txn_id file_name txns
      | Some _ \<Rightarrow> AList.delete txn_id txns)"

fun load_entry ::
  "FileNameFileSizeMap \<times> TxnIdFileNameMap \<Rightarrow> entry \<Rightarrow> FileNameFileSizeMap \<times> TxnIdFileNameMap" where
  "load_entry (sizes, txns) (txn_id, file_name, file_size) =
     (note_file_size file_name file_size sizes, toggle_transaction txn_id file_name txns)"

fun load_log ::
  "FileName \<Rightarrow> FileNameFileSizeMap \<times> TxnIdFileNameMap \<Rightarrow> os
   \<Rightarrow> (FileNameFileSizeMap \<times> TxnIdFileNameMap) outcome \<times> os" where
  "load_log log_file maps s =
     (let key = os_resolve s log_file in
      if os_denied s key then (Inr maps, s)
      else (case os_files s key of
              None \<Rightarrow> (Inr maps, s)
            | Some txt \<Rightarrow>
                (let maps = foldl load_entry maps (read_entries (istringstream txt)) in
                 case sys_remove log_file s of
                   (True, s) \<Rightarrow> (Inr maps, s)
                 | (False, s) \<Rightarrow> (Inl ExitFailure, s))))"

fun load_logs ::
  "FileName list \<Rightarrow> FileNameFileSizeMap \<times> TxnIdFileNameMap \<Rightarrow> os
   \<Rightarrow> (FileNameFileSizeMap \<times> TxnIdFileNameMap) outcome \<times> os" where
  "load_logs [] maps s = (Inr maps, s)"
| "load_logs (l # ls) maps s =
     (case load_log l maps s of
        (Inl e, s) \<Rightarrow> (Inl e, s)
      | (Inr maps, s) \<Rightarrow> load_logs ls maps s)"

definition loadFilesAndTransactions ::
  "os \<Rightarrow> (FileNameFileSizeMap \<times> TxnIdFileNameMap) outcome \<times> os" where
  "loadFilesAndTransactions s =
     load_logs [m_transaction_log, m_timeout_log, m_commit_log, m_abort_log] ([], []) s"

subsection \<open>truncateFiles, initializeTransactions\<close>

fun truncateFiles :: "FileNameFileSizeMap \<Rightarrow> os \<Rightarrow> unit outcome \<times> os" where
  "truncateFiles [] s = (Inr (), s)"
| "truncateFiles ((file_name, file_size) # rest) s =
     (if fileExists file_name s then
        (case (if 0 < file_size then sys_truncate file_name file_size s else sys_remove file_name s) of
           (True, s) \<Rightarrow> truncateFiles rest s
         | (False, s) \<Rightarrow> (Inl ExitFailure, s))
      else truncateFiles rest s)"

fun restart_transactions ::
  "TxnIdFileNameMap \<Rightarrow> Timestamp \<Rightarrow> ServerBackend \<Rightarrow> unit outcome \<times> ServerBackend" where
  "restart_transactions [] now b = (Inr (), b)"
| "restart_transactions ((txn_id, file_name) # rest) now b =
     (case addNewTransaction txn_id file_name now b of
        (Inl e, b) \<Rightarrow> (Inl e, b)
      | (Inr False, b) \<Rightarrow> (Inl Terminate, b)
      | (Inr True, b) \<Rightarrow> restart_transactions rest now b)"

definition initializeTransactions :: "Timestamp \<Rightarrow> ServerBackend \<Rightarrow> unit outcome \<times> ServerBackend" where
  "initializeTransactions now b =
     (case loadFilesAndTransactions (m_os b) of
        (Inl e, s) \<Rightarrow> (Inl e, b\<lparr>m_os := s\<rparr>)
      | (Inr (file_names_to_file_sizes, txn_ids_to_file_names), s) \<Rightarrow>
          (case truncateFiles file_names_to_file_sizes s of
             (Inl e, s) \<Rightarrow> (Inl e, b\<lparr>m_os := s\<rparr>)
           | (Inr _, s) \<Rightarrow> restart_transactions txn_ids_to_file_names now (b\<lparr>m_os := s\<rparr>)))"

text \<open>The check of \<open>m_initialize\<close> and its store; the second check under the lock is the same test.\<close>

definition initializeFunctionsAndTransactions ::
  "Timestamp \<Rightarrow> ServerBackend \<Rightarrow> unit outcome \<times> ServerBackend" where
  "initializeFunctionsAndTransactions now b =
     (if m_initialize b then
        (case initializeTransactions now b of
           (Inl e, b) \<Rightarrow> (Inl e, b)
         | (Inr _, b) \<Rightarrow> (Inr (), b\<lparr>m_initialize := False\<rparr>))
      else (Inr (), b))"

end
