(* ===== verification/Message_Codec.thy ===== *)
theory Message_Codec
  imports Wire_Protocol
begin

text \<open>
  Framing: a message is a fixed-length header, which carries the length of the payload,
  and the payload. \<open>wire_codec\<close> is the contract between the two ends of the connection;
  its lemmas (a frame is cut out of a byte stream exactly, no message is a prefix of
  another, a stream of messages has one reading) are proved once and hold for requests
  (built by the client, read by the server) and for responses (the other way round).
\<close>

subsection \<open>The two readers\<close>

definition getClientRequestAsTuple :: "string option \<Rightarrow> string option \<Rightarrow> RequestTuple" where
  "getClientRequestAsTuple in_request_header in_request_payload =
     (case in_request_header of
        None \<Rightarrow> ([], 0, 0, 0, [])
      | Some header \<Rightarrow>
          (case extractRequestFields header of (command, txn_id, seq_num, content_len, data) \<Rightarrow>
            (case in_request_payload of
               None \<Rightarrow> (command, txn_id, seq_num, content_len, data)
             | Some payload \<Rightarrow> (command, txn_id, seq_num, content_len, c_str payload))))"

definition getResponseTuple :: "string \<Rightarrow> string \<Rightarrow> ResponseTuple" where
  "getResponseTuple response_header response_payload =
     (case extractResponseFields response_header of
        (command, txn_id, seq_num, error_code, content_len, data) \<Rightarrow>
          (command, txn_id, seq_num, error_code, content_len, c_str response_payload))"

abbreviation request_content_len :: "string \<Rightarrow> int" where
  "request_content_len h \<equiv> (case extractRequestFields h of (c, t, s, n, d) \<Rightarrow> n)"

abbreviation response_content_len :: "string \<Rightarrow> int" where
  "response_content_len h \<equiv> (case extractResponseFields h of (c, t, s, e, n, d) \<Rightarrow> n)"

subsection \<open>The messages the program exchanges\<close>

text \<open>29 is what 64 characters leave for the command beside three integers of full width.\<close>

fun request_wf :: "string \<times> int \<times> int \<times> string \<Rightarrow> bool" where
  "request_wf (cmd, txn, seq, data) =
     (command_token cmd \<and> length cmd \<le> 29 \<and> is_int txn \<and> is_int seq \<and> nul_free data
      \<and> int (length data) \<le> int_max)"

fun encode_request :: "string \<times> int \<times> int \<times> string \<Rightarrow> string option" where
  "encode_request (cmd, txn, seq, data) = map_option (\<lambda>h. h @ data) (request_header cmd txn seq data)"

fun request_view :: "string \<times> int \<times> int \<times> string \<Rightarrow> RequestTuple" where
  "request_view (cmd, txn, seq, data) = (cmd, txn, seq, int (length data), data)"

fun reply_wf :: "Reply \<Rightarrow> bool" where
  "reply_wf (cmd, txn, seq, err, data) =
     (command_token cmd \<and> length cmd \<le> 10 \<and> is_int txn \<and> is_int seq \<and> nul_free data
      \<and> int (length data) \<le> int_max)"

fun reply_view :: "Reply \<Rightarrow> ResponseTuple" where
  "reply_view (cmd, txn, seq, err, data) =
     (cmd, txn, seq, getErrorCode err, int (length data), data)"

subsection \<open>The contract\<close>

locale wire_codec =
  fixes hlen :: nat
    and wf :: "'m \<Rightarrow> bool"
    and encode :: "'m \<Rightarrow> string option"
    and valid :: "string \<Rightarrow> bool"
    and clen :: "string \<Rightarrow> int"
    and decode :: "string \<Rightarrow> string \<Rightarrow> 't"
    and view :: "'m \<Rightarrow> 't"
  assumes encode_decode: "wf m \<Longrightarrow> \<exists>h p. encode m = Some (h @ p) \<and> length h = hlen
      \<and> nul_free (h @ p) \<and> valid h \<and> clen h = int (length p) \<and> decode h p = view m"
begin

lemma unframe:
  fixes rest :: string
  assumes "wf m" and "encode m = Some s"
  defines "n \<equiv> nat (clen (take hlen (s @ rest)))"
  shows "hlen + n = length s"
    and "valid (take hlen (s @ rest))"
    and "decode (take hlen (s @ rest)) (take n (drop hlen (s @ rest))) = view m"
    and "drop (hlen + n) (s @ rest) = rest"
proof -
  from encode_decode [OF assms(1)] assms(2) obtain h p where
    *: "s = h @ p" "length h = hlen" "valid h" "clen h = int (length p)" "decode h p = view m"
    by auto
  then have n: "n = length p" by (simp add: n_def)
  from * n show "hlen + n = length s" "valid (take hlen (s @ rest))"
    "decode (take hlen (s @ rest)) (take n (drop hlen (s @ rest))) = view m"
    "drop (hlen + n) (s @ rest) = rest"
    by auto
qed

lemma prefix_free:
  assumes "wf m" "wf m'" "encode m = Some s" "encode m' = Some s'" "s @ r = s' @ r'"
  shows "view m = view m' \<and> s = s' \<and> r = r'"
proof -
  have "view m = view m'"
    using unframe(3) [OF assms(1,3), of r] unframe(3) [OF assms(2,4), of r'] assms(5) by metis
  moreover have "length s = length s'"
    using unframe(1) [OF assms(1,3), of r] unframe(1) [OF assms(2,4), of r'] assms(5) by metis
  ultimately show ?thesis using assms(5) by simp
qed

lemma stream_unique:
  assumes "\<forall>m \<in> set ms. wf m" "\<forall>m \<in> set ms'. wf m"
    and "map encode ms = map Some ss" "map encode ms' = map Some ss'" "concat ss = concat ss'"
    and "0 < hlen"
  shows "map view ms = map view ms'"
  using assms
proof (induction ms arbitrary: ms' ss ss')
  case Nil
  then have ss: "concat ss' = []" by simp
  have "ms' = []"
  proof (rule ccontr)
    assume "ms' \<noteq> []"
    then obtain m ms2 where "ms' = m # ms2" by (cases ms') auto
    with Nil.prems obtain s ss2 where "ss' = s # ss2" "wf m" "encode m = Some s" by (cases ss') auto
    with unframe(1) [of m s "[]"] ss Nil.prems(6) show False by simp
  qed
  then show ?case by simp
next
  case (Cons m ms)
  then obtain s ss1 where s: "ss = s # ss1" "encode m = Some s" "map encode ms = map Some ss1"
    by (cases ss) auto
  have "s \<noteq> []" using unframe(1) [of m s "[]"] Cons.prems(1,6) s by auto
  with Cons.prems(5) s have "ss' \<noteq> []" by auto
  then obtain s' ss1' where s'0: "ss' = s' # ss1'" by (cases ss') auto
  with Cons.prems(4) obtain m' ms1' where
    s': "ms' = m' # ms1'" "encode m' = Some s'" "map encode ms1' = map Some ss1'"
    by (cases ms') auto
  have "view m = view m' \<and> s = s' \<and> concat ss1 = concat ss1'"
    using Cons.prems s s'0 s' by (intro prefix_free) auto
  moreover from this have "map view ms = map view ms1'"
    using Cons.prems s s'0 s' by (intro Cons.IH [of ms1' ss1 ss1']) auto
  ultimately show ?case using s' by simp
qed

end

subsection \<open>Both directions meet the contract\<close>

lemma nul_free_simps [simp]: "nul_free (a @ b) \<longleftrightarrow> nul_free a \<and> nul_free b"
  "nul_free (c # b) \<longleftrightarrow> c \<noteq> NUL \<and> nul_free b" "nul_free []"
  by auto

lemma length_to_string_len:
  assumes "int n \<le> int_max" shows "length (to_string (int n)) \<le> 10"
proof -
  have "n < 10 ^ 10" using assms by (simp add: int_range_defs)
  then show ?thesis by (simp add: to_string_def length_to_string_nat)
qed

lemma length_error_code: "length (to_string (getErrorCode e)) \<le> 3"
proof -
  have "nat (getErrorCode e) < 10 ^ 3" using getErrorCode_range [of e] by simp
  then have "length (to_string_nat (nat (getErrorCode e))) \<le> 3" by (rule length_to_string_nat) simp
  then show ?thesis using getErrorCode_range [of e] by (simp add: to_string_def)
qed

lemma is_int_error_code: "is_int (getErrorCode e)"
  using getErrorCode_range [of e] by (simp add: int_range_defs)

text \<open>The unpadded header texts.\<close>

definition request_text :: "string \<Rightarrow> int \<Rightarrow> int \<Rightarrow> int \<Rightarrow> string" where
  "request_text cmd txn seq len =
     cmd @ [delimiting_character] @ to_string txn @ [delimiting_character] @ to_string seq
     @ [delimiting_character] @ to_string len"

definition response_text :: "string \<Rightarrow> int \<Rightarrow> int \<Rightarrow> int \<Rightarrow> int \<Rightarrow> string" where
  "response_text cmd txn seq err len =
     cmd @ [delimiting_character] @ to_string txn @ [delimiting_character] @ to_string seq
     @ [delimiting_character] @ to_string err @ [delimiting_character] @ to_string len"

lemma extract_first_token:
  assumes "command_token cmd" "is_space c"
  shows "extract_string old (istringstream (cmd @ c # s)) = (cmd, \<lparr>failbit = False, unread = c # s\<rparr>)"
  using extract_string_token [of cmd "c # s" "[]" old] command_tokenD [OF assms(1)] assms(2)
  by (simp add: istringstream_def)

lemma extract_next_int:
  assumes "is_int i" "r = [] \<or> \<not> is_digit (hd r)"
  shows "extract_cint old \<lparr>failbit = False, unread = delimiting_character # to_string i @ r\<rparr>
       = (i, \<lparr>failbit = False, unread = r\<rparr>)"
  using extract_int_to_string [of int_min i int_max r "[delimiting_character]" old] assms by simp

lemma request_text_valid:
  assumes "command_token cmd" "0 \<le> len" "length (request_text cmd txn seq len) \<le> request_header_len"
  defines "h \<equiv> request_text cmd txn seq len @ padding request_header_len (length (request_text cmd txn seq len))"
  shows "isValidRequestFormat h"
proof -
  have "regex_match h (snd request_format)"
    unfolding regex_match_lang request_format_def snd_conv h_def request_text_def append.assoc
    using assms(1,2) by (intro lang_ConcatI field_rx)
  moreover have "nul_free h"
    using command_tokenD [OF assms(1)] by (simp add: h_def request_text_def)
  ultimately show ?thesis
    using assms(3) by (simp add: isValidRequestFormat_def format_match_def wire_protocol_def
        request_format_def h_def)
qed

lemma response_text_valid:
  assumes "command_token cmd" "0 \<le> err" "0 \<le> len"
    and "length (response_text cmd txn seq err len) \<le> response_header_len"
  defines "h \<equiv> response_text cmd txn seq err len
                 @ padding response_header_len (length (response_text cmd txn seq err len))"
  shows "isValidResponseFormat h"
proof -
  have "regex_match h (snd response_format)"
    unfolding regex_match_lang response_format_def snd_conv h_def response_text_def append.assoc
    using assms(1-3) by (intro lang_ConcatI field_rx)
  moreover have "nul_free h"
    using command_tokenD [OF assms(1)] by (simp add: h_def response_text_def)
  ultimately show ?thesis
    using assms(4) by (simp add: isValidResponseFormat_def format_match_def wire_protocol_def
        response_format_def h_def)
qed

lemma extractRequestFields_text:
  assumes "command_token cmd" "is_int txn" "is_int seq" "is_int len"
  shows "extractRequestFields (request_text cmd txn seq len @ padding n m) = (cmd, txn, seq, len, [])"
  using assms command_tokenD [OF assms(1)] padding_stop(2) [of n m]
  by (simp add: extractRequestFields_def request_text_def extract_first_token extract_next_int)

lemma extractResponseFields_text:
  assumes "command_token cmd" "is_int txn" "is_int seq" "is_int err" "is_int len"
  shows "extractResponseFields (response_text cmd txn seq err len @ padding n m)
       = (cmd, txn, seq, err, len, [])"
  using assms command_tokenD [OF assms(1)] padding_stop(2) [of n m]
  by (simp add: extractResponseFields_def response_text_def extract_first_token extract_next_int)

lemma request_text_length:
  assumes "length cmd \<le> 29" "is_int txn" "is_int seq" "int n \<le> int_max"
  shows "length (request_text cmd txn seq (int n)) \<le> request_header_len"
  using assms length_to_string [of txn] length_to_string [of seq] length_to_string_len [of n]
  by (simp add: request_text_def request_header_len_def)

lemma response_text_length:
  assumes "length cmd \<le> 10" "is_int txn" "is_int seq" "int n \<le> int_max"
  shows "length (response_text cmd txn seq (getErrorCode e) (int n)) \<le> response_header_len"
  using assms length_to_string [of txn] length_to_string [of seq] length_to_string_len [of n]
    length_error_code [of e]
  by (simp add: response_text_def response_header_len_def)

lemma request_header_text: "request_header cmd txn seq data
    = pad_header request_header_len (request_text cmd txn seq (int (length data)))"
  by (simp add: request_header_def request_text_def)

lemma generateResponse_text: "generateResponse (cmd, txn, seq, err, data)
    = map_option (\<lambda>h. h @ data) (pad_header response_header_len
        (response_text cmd txn seq (getErrorCode err) (int (length data))))"
  by (cases "err = nil") (simp_all add: response_text_def Let_def)

lemma is_int_length: "int n \<le> int_max \<Longrightarrow> is_int (int n)"
  by (simp add: int_range_defs)

interpretation request_codec: wire_codec request_header_len request_wf encode_request
  isValidRequestFormat request_content_len "\<lambda>h p. getClientRequestAsTuple (Some h) (Some p)" request_view
proof
  fix m assume "request_wf m"
  obtain cmd txn seq data where m: "m = (cmd, txn, seq, data)" by (cases m)
  let ?t = "request_text cmd txn seq (int (length data))"
  let ?h = "?t @ padding request_header_len (length ?t)"
  from \<open>request_wf m\<close> have wf: "command_token cmd" "is_int txn" "is_int seq" "nul_free data"
    "int (length data) \<le> int_max" and len: "length ?t \<le> request_header_len"
    by (auto simp: m intro: request_text_length)
  have "encode_request m = Some (?h @ data)"
    using len by (simp add: m request_header_text pad_header_Some)
  moreover have "nul_free (?h @ data)"
    using wf command_tokenD [OF wf(1)] by (simp add: request_text_def)
  moreover have "isValidRequestFormat ?h" using wf len by (intro request_text_valid) simp_all
  moreover have "extractRequestFields ?h = (cmd, txn, seq, int (length data), [])"
    using wf is_int_length by (intro extractRequestFields_text) blast+
  ultimately show "\<exists>h p. encode_request m = Some (h @ p) \<and> length h = request_header_len
      \<and> nul_free (h @ p) \<and> isValidRequestFormat h \<and> request_content_len h = int (length p)
      \<and> getClientRequestAsTuple (Some h) (Some p) = request_view m"
    using len wf by (intro exI [of _ ?h] exI [of _ data]) (simp add: m getClientRequestAsTuple_def)
qed

interpretation response_codec: wire_codec response_header_len reply_wf generateResponse
  isValidResponseFormat response_content_len getResponseTuple reply_view
proof
  fix m assume "reply_wf m"
  obtain cmd txn seq err data where m: "m = (cmd, txn, seq, err, data)" by (cases m)
  let ?t = "response_text cmd txn seq (getErrorCode err) (int (length data))"
  let ?h = "?t @ padding response_header_len (length ?t)"
  from \<open>reply_wf m\<close> have wf: "command_token cmd" "is_int txn" "is_int seq" "nul_free data"
    "int (length data) \<le> int_max" and len: "length ?t \<le> response_header_len"
    by (auto simp: m intro: response_text_length)
  have "generateResponse m = Some (?h @ data)"
    using len by (simp add: m generateResponse_text pad_header_Some del: generateResponse.simps)
  moreover have "nul_free (?h @ data)"
    using wf command_tokenD [OF wf(1)] by (simp add: response_text_def)
  moreover have "isValidResponseFormat ?h"
    using wf len getErrorCode_range by (intro response_text_valid) simp_all
  moreover have "extractResponseFields ?h = (cmd, txn, seq, getErrorCode err, int (length data), [])"
    using wf is_int_length is_int_error_code by (intro extractResponseFields_text) blast+
  ultimately show "\<exists>h p. generateResponse m = Some (h @ p) \<and> length h = response_header_len
      \<and> nul_free (h @ p) \<and> isValidResponseFormat h \<and> response_content_len h = int (length p)
      \<and> getResponseTuple h p = reply_view m"
    using len wf by (intro exI [of _ ?h] exI [of _ data]) (simp add: m getResponseTuple_def)
qed

subsection \<open>The content length of any valid header\<close>

text \<open>
  A header the format check accepts need not come from the client of this repository; its
  numbers may have any number of digits. Extraction saturates, and the length is never
  negative.
\<close>

lemma extract_int_digits:
  assumes ds: "ds \<noteq> []" "\<forall>c \<in> set ds. is_digit c" and r: "r = [] \<or> \<not> is_digit (hd r)"
    and sg: "sg = [] \<or> sg = ''-''" and lo: "lo \<le> 0" "0 \<le> hi"
  obtains v fb where "extract_int lo hi old \<lparr>failbit = False, unread = delimiting_character # sg @ ds @ r\<rparr>
      = (v, \<lparr>failbit = fb, unread = r\<rparr>)" and "sg = [] \<Longrightarrow> 0 \<le> v"
proof -
  obtain d ds' where d: "ds = d # ds'" "is_digit d" using ds by (cases ds) auto
  have nsp: "\<not> is_space d" "d \<noteq> CHR ''-''" "d \<noteq> CHR ''+''" "\<not> is_space (CHR ''-'')"
    using d(2) by (auto simp: is_digit_def is_space_def)
  have drop: "dropWhile is_space (delimiting_character # sg @ ds @ r) = sg @ ds @ r"
    using sg d(1) nsp by auto
  have split: "split_sign (sg @ ds @ r) = (sg \<noteq> [], ds @ r)"
    using sg d(1) nsp by (auto simp: split_sign_def)
  have tw: "takeWhile is_digit (ds @ r) = ds" "dropWhile is_digit (ds @ r) = r"
    using takeWhile_append_stop [of ds is_digit r] ds(2) r by blast+
  let ?v = "if sg \<noteq> [] then - int (digits_value ds) else int (digits_value ds)"
  have "extract_int lo hi old \<lparr>failbit = False, unread = delimiting_character # sg @ ds @ r\<rparr>
      = (if ?v < lo then (lo, \<lparr>failbit = True, unread = r\<rparr>)
         else if hi < ?v then (hi, \<lparr>failbit = True, unread = r\<rparr>) else (?v, \<lparr>failbit = False, unread = r\<rparr>))"
    using ds(1) unfolding extract_int_def istream.simps drop Let_def split prod.case tw by simp
  with lo show ?thesis
    by (cases "?v < lo"; cases "hi < ?v") (auto intro: that)
qed

lemma rx_signed_text:
  assumes "w \<in> lang rx_signed"
  obtains sg ds where "w = sg @ ds" "sg = [] \<or> sg = ''-''" "ds \<noteq> []" "\<forall>c \<in> set ds. is_digit c"
proof -
  from assms obtain u v where "w = u @ v" "u \<in> insert [] (lang (Bracket ''-''))" "v \<in> lang (Some_of (Bracket digits))"
    unfolding rx_signed_def by auto
  then show ?thesis using that [of u v] by (auto simp: set_digits)
qed

lemma rx_unsigned_text: "w \<in> lang rx_unsigned \<longleftrightarrow> w \<noteq> [] \<and> (\<forall>c \<in> set w. is_digit c)"
  by (auto simp: rx_unsigned_def set_digits)

lemma rx_padding_stop: "w \<in> lang rx_padding \<Longrightarrow> w = [] \<or> \<not> is_digit (hd w)"
  by (auto simp: rx_padding_def rx_delim_def Concat_Bracket_iff simp del: lang.simps)

lemma valid_request_parts:
  assumes "isValidRequestFormat h"
  obtains cmd a b n pad where "c_str h = cmd @ delimiting_character # a @ delimiting_character # b
      @ delimiting_character # n @ pad"
    and "command_token cmd" "a \<in> lang rx_signed" "b \<in> lang rx_signed" "n \<in> lang rx_unsigned" "pad \<in> lang rx_padding"
proof -
  have "c_str h \<in> lang (snd request_format)"
    using assms by (simp add: isValidRequestFormat_def format_match_def wire_protocol_def regex_match_lang)
  then have "\<exists>cmd d1 a d2 b d3 n pad. c_str h = cmd @ d1 @ a @ d2 @ b @ d3 @ n @ pad \<and> cmd \<in> lang rx_command
      \<and> d1 \<in> lang rx_delim \<and> d2 \<in> lang rx_delim \<and> d3 \<in> lang rx_delim
      \<and> a \<in> lang rx_signed \<and> b \<in> lang rx_signed \<and> n \<in> lang rx_unsigned \<and> pad \<in> lang rx_padding"
    unfolding request_format_def snd_conv lang.simps(4) by blast
  then show ?thesis by (auto simp: rx_delim_def command_token_rx intro: that)
qed

lemma request_content_len_range:
  assumes "isValidRequestFormat h"
  shows "0 \<le> request_content_len h" "request_content_len h \<le> int_max"
proof -
  from assms obtain cmd a b n pad where
    h: "c_str h = cmd @ delimiting_character # a @ delimiting_character # b @ delimiting_character # n @ pad"
    and w: "command_token cmd" "a \<in> lang rx_signed" "b \<in> lang rx_signed" "n \<in> lang rx_unsigned" "pad \<in> lang rx_padding"
    by (rule valid_request_parts)
  let ?r3 = "delimiting_character # n @ pad" and ?r2 = "delimiting_character # b @ delimiting_character # n @ pad"
  obtain sa da where a: "a = sa @ da" "sa = [] \<or> sa = ''-''" "da \<noteq> []" "\<forall>c \<in> set da. is_digit c" by (rule rx_signed_text [OF w(2)])
  obtain sb db where b: "b = sb @ db" "sb = [] \<or> sb = ''-''" "db \<noteq> []" "\<forall>c \<in> set db. is_digit c" by (rule rx_signed_text [OF w(3)])
  have n: "n \<noteq> []" "\<forall>c \<in> set n. is_digit c" using w(4) by (simp_all add: rx_unsigned_text)
  have lo: "int_min \<le> 0" "0 \<le> int_max" by (simp_all add: int_range_defs)
  obtain v1 f1 where 1: "extract_cint 0 \<lparr>failbit = False, unread = delimiting_character # sa @ da @ ?r2\<rparr> = (v1, \<lparr>failbit = f1, unread = ?r2\<rparr>)"
    by (rule extract_int_digits [OF a(3,4) _ a(2) lo, of ?r2 0]) auto
  obtain v2 f2 where 2: "extract_cint 0 \<lparr>failbit = False, unread = delimiting_character # sb @ db @ ?r3\<rparr> = (v2, \<lparr>failbit = f2, unread = ?r3\<rparr>)"
    by (rule extract_int_digits [OF b(3,4) _ b(2) lo, of ?r3 0]) auto
  obtain v3 f3 where 3: "extract_cint 0 \<lparr>failbit = False, unread = ?r3\<rparr> = (v3, \<lparr>failbit = f3, unread = pad\<rparr>)" "0 \<le> v3"
    by (rule extract_int_digits [OF n rx_padding_stop [OF w(5)] _ lo, of "[]" 0]) auto
  have h': "istringstream (c_str h) = istringstream (cmd @ delimiting_character # sa @ da @ ?r2)" using h a(1) by simp
  have len: "request_content_len h = fst (extract_cint 0 (snd (extract_cint 0 (snd (extract_cint 0
      (snd (extract_string [] (istringstream (c_str h)))))))))"
    by (simp add: extractRequestFields_def Let_def split: prod.split)
  have "request_content_len h = (if f1 \<or> f2 then 0 else v3)"
    unfolding len h' extract_first_token [OF w(1) delim_space(1)]
    using 1 2 3 b(1) by (cases f1; cases f2) simp_all
  with 3(2) show "0 \<le> request_content_len h" by simp
  show "request_content_len h \<le> int_max"
    unfolding len using extract_int_range(2) [of int_min 0 int_max] lo by blast
qed

end
