(* ===== verification/Commands.thy ===== *)
theory Commands
  imports Recovery Message_Codec
begin

text \<open>
  The command functions of \<open>ServerBackend::initializeFunctions\<close>, the timer function,
  and the public interface (\<open>getContentLength\<close>, \<open>getRequestHeaderLength\<close>,
  \<open>processRequest\<close>). A command function takes the request tuple and the
  caller's \<open>transaction_in_progress\<close> flag and returns the arguments of its response
  and the flag. WRITE, COMMIT and ABORT drop the member lock to acquire the
  transaction's own lock and then check again; the parts before and after are separate
  definitions, and the command is their composition without interruption.

  The clock reading and the results of \<open>rand\<close> are arguments (\<open>env\<close>).
\<close>

record env =
  now :: Timestamp
  rands :: "nat \<Rightarrow> nat"

type_synonym command_result = "(Reply \<times> bool) outcome \<times> ServerBackend"

subsection \<open>Macros\<close>

definition INT32_MAX :: nat where [consts_simps]: "INT32_MAX = 2147483647"

definition SET_ERROR :: "error \<Rightarrow> TxnId \<Rightarrow> SeqNum \<Rightarrow> ServerBackend \<Rightarrow> command_result" where
  [reply_simps]: "SET_ERROR err txn_id seq_num b =
     (Inr ((error_cmd, txn_id, seq_num, err, getErrorMessage err), False), b)"

definition SET_ACK :: "TxnId \<Rightarrow> SeqNum \<Rightarrow> bool \<Rightarrow> ServerBackend \<Rightarrow> command_result" where
  [reply_simps]: "SET_ACK txn_id seq_num in_progress b =
     (Inr ((ack_cmd, txn_id, seq_num, nil, []), in_progress), b)"

definition SET_NEW_TXN :: "TxnId \<Rightarrow> bool \<Rightarrow> ServerBackend \<Rightarrow> command_result" where
  [reply_simps]: "SET_NEW_TXN txn_id in_progress b =
     (Inr ((ack_cmd, txn_id, initial_seq_num, nil, []), in_progress), b)"

definition SET_READ :: "TxnId \<Rightarrow> SeqNum \<Rightarrow> string \<Rightarrow> bool \<Rightarrow> ServerBackend \<Rightarrow> command_result" where
  [reply_simps]: "SET_READ txn_id seq_num buffer in_progress b =
     (Inr ((ack_cmd, txn_id, seq_num, nil, buffer), in_progress), b)"

definition SET_ASK_RESEND :: "TxnId \<Rightarrow> SeqNum \<Rightarrow> bool \<Rightarrow> ServerBackend \<Rightarrow> command_result" where
  [reply_simps]: "SET_ASK_RESEND txn_id seq_num in_progress b =
     (Inr ((ask_resend_cmd, txn_id, seq_num, nil, []), in_progress), b)"

definition SET_FORMATTING_ERROR :: Reply where
  "SET_FORMATTING_ERROR = (error_cmd, default_txn_id, error_seq_num, InvalidMessageFormat,
     getErrorMessage InvalidMessageFormat)"

definition committed_or_invalid_id :: "TxnId \<Rightarrow> ServerBackend \<Rightarrow> error option" where
  "committed_or_invalid_id txn_id b =
     (if txn_id \<in> m_commits b then Some InvalidOperation
      else if m_txns b txn_id = None then Some InvalidTransactionId else None)"

definition committed_or_aborted :: "TxnId \<Rightarrow> ServerBackend \<Rightarrow> error option" where
  "committed_or_aborted txn_id b =
     (if txn_id \<in> m_commits b then Some TransactionAlreadyCommitted
      else if m_txns b txn_id = None then Some TransactionAborted else None)"

subsection \<open>READ\<close>

definition READ :: "RequestTuple \<Rightarrow> bool \<Rightarrow> ServerBackend \<Rightarrow> command_result" where
  "READ req in_progress b =
     (case req of (command, txn_id, seq_num, content_len, file_name) \<Rightarrow>
        (case File_open (m_directory b @ file_name) O_RDONLY (m_os b) of
           (None, s) \<Rightarrow> SET_ERROR ErrorOpeningFile txn_id seq_num (b\<lparr>m_os := s\<rparr>)
         | (Some file, s) \<Rightarrow>
             (case File_read file s of
                (Inl e, s) \<Rightarrow> (Inl e, b\<lparr>m_os := s\<rparr>)
              | (Inr None, s) \<Rightarrow>
                  SET_ERROR ErrorReadingFile txn_id seq_num (b\<lparr>m_os := File_close file s\<rparr>)
              | (Inr (Some buffer), s) \<Rightarrow>
                  SET_READ txn_id seq_num buffer in_progress (b\<lparr>m_os := File_close file s\<rparr>))))"

subsection \<open>NEW\_TXN\<close>

text \<open>\<open>while (m_txn_id_to_transaction_attributes.count(candidate_id = rand() % INT32_MAX));\<close>\<close>

partial_function (option) candidate_id :: "(nat \<Rightarrow> nat) \<Rightarrow> nat \<Rightarrow> (TxnId \<rightharpoonup> TransactionAttributes) \<Rightarrow> TxnId option" where
  "candidate_id rand i txns =
     (if txns (int (rand i mod INT32_MAX)) \<noteq> None then candidate_id rand (Suc i) txns
      else Some (int (rand i mod INT32_MAX)))"

declare candidate_id.simps [code]

definition NEW_TXN :: "RequestTuple \<Rightarrow> env \<Rightarrow> bool \<Rightarrow> ServerBackend \<Rightarrow> command_result" where
  "NEW_TXN req e in_progress b =
     (case req of (command, txn_id, seq_num, content_len, file_name) \<Rightarrow>
        if 0 = seq_num then
          (case candidate_id (rands e) 0 (m_txns b) of
             None \<Rightarrow> (Inl Diverges, b)
           | Some candidate \<Rightarrow>
               (case addNewTransaction candidate file_name (now e) b of
                  (Inl x, b) \<Rightarrow> (Inl x, b)
                | (Inr False, b) \<Rightarrow> SET_ERROR ErrorCreatingTransaction txn_id seq_num b
                | (Inr True, b) \<Rightarrow> SET_NEW_TXN candidate in_progress b))
        else SET_ERROR InvalidSequenceNumber txn_id seq_num b)"

subsection \<open>WRITE\<close>

text \<open>
  From \<open>updateTransactionTimestamp\<close> on, with the transaction's lock held. The tuple is
  reached through references into the map; if its entry is gone they dangle.
\<close>

definition WRITE_locked :: "RequestTuple \<Rightarrow> env \<Rightarrow> bool \<Rightarrow> ServerBackend \<Rightarrow> command_result" where
  "WRITE_locked req e in_progress b =
     (case req of (command, txn_id, seq_num, content_len, data) \<Rightarrow>
        (case m_txns b txn_id of
           None \<Rightarrow> (Inl Undefined, b)
         | Some t \<Rightarrow>
             (let t = t\<lparr>curr_timestamp := now e\<rparr> in
              if buffers t seq_num \<noteq> None
              then SET_ERROR RepeatedSequenceNumber txn_id seq_num (b\<lparr>m_txns := (m_txns b)(txn_id \<mapsto> t)\<rparr>)
              else (let t = (if seq_num > max_seq_num t then t\<lparr>max_seq_num := seq_num\<rparr> else t);
                        t = t\<lparr>buffers := (buffers t)(seq_num \<mapsto> data)\<rparr>
                    in SET_ACK txn_id seq_num in_progress (b\<lparr>m_txns := (m_txns b)(txn_id \<mapsto> t)\<rparr>)))))"

definition WRITE :: "RequestTuple \<Rightarrow> env \<Rightarrow> bool \<Rightarrow> ServerBackend \<Rightarrow> command_result" where
  "WRITE req e in_progress b =
     (case req of (command, txn_id, seq_num, content_len, data) \<Rightarrow>
        (case committed_or_invalid_id txn_id b of
           Some err \<Rightarrow> SET_ERROR err txn_id seq_num b
         | None \<Rightarrow>
             (case committed_or_aborted txn_id b of
                Some err \<Rightarrow> SET_ERROR err txn_id seq_num b
              | None \<Rightarrow> WRITE_locked req e in_progress b)))"

subsection \<open>COMMIT\<close>

text \<open>
  The first loop: the first sequence number from \<open>i\<close> to \<open>mx\<close> with no buffer. (The
  loop counter is an \<open>int\<close>; it exceeds neither the number of buffered writes plus one
  nor \<open>mx\<close>, so it does not overflow while fewer than \<open>INT_MAX\<close> writes are buffered.)
\<close>

function first_missing :: "BufferMap \<Rightarrow> SeqNum \<Rightarrow> SeqNum \<Rightarrow> SeqNum option" where
  "first_missing bufs i mx =
     (if i \<le> mx then (if bufs i = None then Some i else first_missing bufs (i + 1) mx) else None)"
  by pat_completeness auto
termination
  by (relation "measure (\<lambda>(bufs, i, mx). nat (mx + 1 - i))") auto

declare first_missing.simps [simp del]

text \<open>The second loop; \<open>buffers.at\<close> throws for a missing key and nothing catches that.\<close>

function write_buffers :: "File \<Rightarrow> BufferMap \<Rightarrow> SeqNum \<Rightarrow> SeqNum \<Rightarrow> os \<Rightarrow> (bool outcome) \<times> os" where
  "write_buffers file bufs i mx s =
     (if i \<le> mx then
        (case bufs i of
           None \<Rightarrow> (Inl Terminate, s)
         | Some d \<Rightarrow>
             (case File_write file d s of
                (Inr True, s) \<Rightarrow> write_buffers file bufs (i + 1) mx s
              | (r, s) \<Rightarrow> (r, s)))
      else (Inr True, s))"
  by pat_completeness auto
termination
  by (relation "measure (\<lambda>(f, bufs, i, mx, s). nat (mx + 1 - i))") auto

declare write_buffers.simps [simp del]

text \<open>
  The \<open>try\<close> block and what follows it, for a transaction all of whose writes are there:
  \<open>file_size\<close> is the attribute object's size before the commit. On a failed write the
  file is closed by unwinding before the handler truncates.
\<close>

definition COMMIT_flush ::
  "TxnId \<Rightarrow> SeqNum \<Rightarrow> TransactionAttributes \<Rightarrow> FileAttributes \<Rightarrow> bool \<Rightarrow> ServerBackend \<Rightarrow> command_result" where
  "COMMIT_flush txn_id seq_num t fa in_progress b =
     (let file_name = m_file_name fa; file_size = m_file_size fa in
      case File_open (m_directory b @ file_name) (O_CREAT OR O_WRONLY OR O_APPEND) (m_os b) of
        (None, s) \<Rightarrow> SET_ERROR ErrorOpeningFile txn_id seq_num (b\<lparr>m_os := s\<rparr>)
      | (Some file, s) \<Rightarrow>
          (case write_buffers file (buffers t) (initial_seq_num + 1) (max_seq_num t) s of
             (Inl x, s) \<Rightarrow> (Inl x, b\<lparr>m_os := s\<rparr>)
           | (Inr False, s) \<Rightarrow>
               SET_ERROR ErrorWritingFile txn_id seq_num
                 (b\<lparr>m_os := snd (sys_truncate file_name file_size (File_close file s))\<rparr>)
           | (Inr True, s) \<Rightarrow>
               (case logTransaction m_commit_log txn_id file_name
                       (b\<lparr>m_os := s, m_commits := insert txn_id (m_commits b)\<rparr>) of
                  (Inl x, b) \<Rightarrow> (Inl x, b)
                | (Inr _, b) \<Rightarrow>
                    (case getFileSize file (m_os b) of
                       Inl x \<Rightarrow> (Inl x, b)
                     | Inr new_size \<Rightarrow>
                         SET_ACK txn_id seq_num in_progress
                           (removeTransaction txn_id
                             (b\<lparr>m_files := (m_files b)(sp_file_attributes t :=
                                  map_option (m_file_size_update (\<lambda>_. new_size)) (m_files b (sp_file_attributes t))),
                                m_os := File_close file (m_os b)\<rparr>))))))"

definition COMMIT_locked :: "RequestTuple \<Rightarrow> env \<Rightarrow> bool \<Rightarrow> ServerBackend \<Rightarrow> command_result" where
  "COMMIT_locked req e in_progress b =
     (case req of (command, txn_id, seq_num, content_len, data) \<Rightarrow>
        (case m_txns b txn_id of
           None \<Rightarrow> (Inl Undefined, b)
         | Some t \<Rightarrow>
             (let t = t\<lparr>curr_timestamp := now e\<rparr> in
              if seq_num < max_seq_num t
              then SET_ERROR CommitWithInvalidSequenceNumber txn_id seq_num
                     (b\<lparr>m_txns := (m_txns b)(txn_id \<mapsto> t)\<rparr>)
              else
                (let t = t\<lparr>max_seq_num := seq_num\<rparr>;
                     b = b\<lparr>m_txns := (m_txns b)(txn_id \<mapsto> t)\<rparr> in
                 case m_files b (sp_file_attributes t) of
                   None \<Rightarrow> (Inl Undefined, b)
                 | Some fa \<Rightarrow>
                     (case first_missing (buffers t) (initial_seq_num + 1) (max_seq_num t) of
                        Some missing \<Rightarrow> SET_ASK_RESEND txn_id missing in_progress b
                      | None \<Rightarrow> COMMIT_flush txn_id seq_num t fa in_progress b)))))"

definition COMMIT :: "RequestTuple \<Rightarrow> env \<Rightarrow> bool \<Rightarrow> ServerBackend \<Rightarrow> command_result" where
  "COMMIT req e in_progress b =
     (case req of (command, txn_id, seq_num, content_len, data) \<Rightarrow>
        if txn_id \<in> m_commits b then SET_ACK txn_id seq_num in_progress b
        else if m_txns b txn_id = None then SET_ERROR InvalidTransactionId txn_id seq_num b
        else
          (case committed_or_aborted txn_id b of
             Some err \<Rightarrow> SET_ERROR err txn_id seq_num b
           | None \<Rightarrow> COMMIT_locked req e in_progress b))"

subsection \<open>ABORT\<close>

definition ABORT_locked :: "RequestTuple \<Rightarrow> bool \<Rightarrow> ServerBackend \<Rightarrow> command_result" where
  "ABORT_locked req in_progress b =
     (case req of (command, txn_id, seq_num, content_len, data) \<Rightarrow>
        (case m_txns b txn_id of
           None \<Rightarrow> (Inl Undefined, b)
         | Some t \<Rightarrow>
             (case m_files b (sp_file_attributes t) of
                None \<Rightarrow> (Inl Undefined, b)
              | Some fa \<Rightarrow>
                  (case logTransaction m_abort_log txn_id (m_file_name fa) b of
                     (Inl x, b) \<Rightarrow> (Inl x, b)
                   | (Inr _, b) \<Rightarrow> SET_ACK txn_id seq_num False (removeTransaction txn_id b)))))"

definition ABORT :: "RequestTuple \<Rightarrow> bool \<Rightarrow> ServerBackend \<Rightarrow> command_result" where
  "ABORT req in_progress b =
     (case req of (command, txn_id, seq_num, content_len, data) \<Rightarrow>
        (case committed_or_invalid_id txn_id b of
           Some err \<Rightarrow> SET_ERROR err txn_id seq_num b
         | None \<Rightarrow>
             (case committed_or_aborted txn_id b of
                Some err \<Rightarrow> SET_ERROR err txn_id seq_num b
              | None \<Rightarrow> ABORT_locked req in_progress b)))"

subsection \<open>The timer function\<close>

definition txn_timeout :: Timestamp where
  "txn_timeout = transaction_timeout_seconds * 1000000000"

text \<open>
  One turn of the loop, for a thread that has woken up: \<open>None\<close> means that the thread
  returns, \<open>Some\<close> that it sleeps again until the new latest time stamp plus the timeout.
\<close>

definition txn_timer_turn ::
  "Timer \<Rightarrow> Timestamp \<Rightarrow> ServerBackend \<Rightarrow> (Timer option) outcome \<times> ServerBackend" where
  "txn_timer_turn tm woken_at b =
     (case m_txns b (timer_txn_id tm) of
        None \<Rightarrow> (Inr None, b)
      | Some t \<Rightarrow>
          if woken_at \<ge> curr_timestamp t + txn_timeout then
            (case logTransaction m_timeout_log (timer_txn_id tm) (timer_file_name tm)
                    (removeTransaction (timer_txn_id tm) b) of
               (Inl x, b) \<Rightarrow> (Inl x, b)
             | (Inr _, b) \<Rightarrow> (Inr None, b))
          else (Inr (Some (tm\<lparr>timer_latest_timestamp := curr_timestamp t\<rparr>)), b))"

subsection \<open>processCommand and the public interface\<close>

definition processCommand :: "RequestTuple \<Rightarrow> env \<Rightarrow> bool \<Rightarrow> ServerBackend \<Rightarrow> command_result" where
  "processCommand req e in_progress b =
     (case req of (command, txn_id, seq_num, content_len, data) \<Rightarrow>
        if command = read_cmd then READ req in_progress b
        else if command = new_txn_cmd then NEW_TXN req e in_progress b
        else if command = write_cmd then WRITE req e in_progress b
        else if command = commit_cmd then COMMIT req e in_progress b
        else if command = abort_cmd then ABORT req in_progress b
        else SET_ERROR InvalidCommand txn_id seq_num b)"

definition processRequest ::
  "env \<Rightarrow> string \<Rightarrow> string \<Rightarrow> bool \<Rightarrow> ServerBackend \<Rightarrow> (string \<times> bool) outcome \<times> ServerBackend" where
  "processRequest e in_request_header in_request_payload in_progress b =
     (case initializeFunctionsAndTransactions (now e) b of
        (Inl x, b) \<Rightarrow> (Inl x, b)
      | (Inr _, b) \<Rightarrow>
          (case processCommand (getClientRequestAsTuple (Some in_request_header) (Some in_request_payload))
                  e in_progress b of
             (Inl x, b) \<Rightarrow> (Inl x, b)
           | (Inr (reply, in_progress), b) \<Rightarrow>
               (case generateResponse reply of
                  None \<Rightarrow> (Inl Terminate, b)
                | Some response \<Rightarrow> (Inr (response, in_progress), b))))"

text \<open>\<open>Inr n\<close>: the content length; \<open>Inl\<close>: -1, with the formatting error as the response.\<close>

definition getContentLength :: "string \<Rightarrow> Reply + int" where
  "getContentLength in_request_header =
     (if isValidRequestFormat in_request_header then
        (case getClientRequestAsTuple (Some in_request_header) None of
           (command, txn_id, seq_num, content_len, data) \<Rightarrow> Inr content_len)
      else Inl SET_FORMATTING_ERROR)"

definition getRequestHeaderLength :: nat where
  "getRequestHeaderLength = request_header_len"

end
