(* ===== verification/Backend_Facts.thy ===== *)
theory Backend_Facts
  imports Commands "HOL-Library.Sublist"
begin

text \<open>
  Facts about single steps of the backend that its invariant and its functional
  properties share: what writing a list of strings, logging, and the loops of COMMIT do to
  the system, whatever the system calls return.
\<close>

subsection \<open>Writing several strings\<close>

lemma NUL_literals [simp]: "NUL \<noteq> CHR '' ''" "NUL \<noteq> CHR 0x0A"
  by (simp_all add: NUL_def)

lemma File_write_list_cases:
  assumes "writable (m_flags f)" "\<forall>d \<in> set ds. nul_free d"
  obtains d ws ok where "File_write_list f ds s = (Inr ok, grow (m_fd f) d ws s)"
    and "prefix d (concat ds)" and "ok \<longrightarrow> d = concat ds"
  using assms(2)
proof (induction ds arbitrary: s thesis)
  case Nil
  show ?case by (rule Nil.prems(1) [of True "[]" "os_writes s"]) (simp_all add: grow_self)
next
  case (Cons a ds)
  from Cons.prems(2) have a: "nul_free a" and ds: "\<forall>d \<in> set ds. nul_free d" by simp_all
  obtain m ws where m: "m \<le> length a"
    "File_write f a s = (Inr (m = length a), grow (m_fd f) (take m a) ws s)"
    by (rule File_write_cases [OF assms(1) a])
  show ?case
  proof (cases "m = length a")
    case True
    obtain d ws' ok where
      d: "File_write_list f ds (grow (m_fd f) a ws s) = (Inr ok, grow (m_fd f) d ws' (grow (m_fd f) a ws s))"
      "prefix d (concat ds)" "ok \<longrightarrow> d = concat ds"
      by (rule Cons.IH [of "grow (m_fd f) a ws s", OF _ ds])
    show ?thesis
      by (rule Cons.prems(1) [of ok "a @ d" ws']) (use True m d in \<open>auto\<close>)
  next
    case False
    show ?thesis
      by (rule Cons.prems(1) [of False "take m a" ws])
         (use False m in \<open>auto simp: take_is_prefix prefix_prefix\<close>)
  qed
qed

lemma File_write_list_quiet:
  assumes "\<forall>d \<in> set ds. nul_free d" "os_writes s = []" "writable (m_flags f)"
  shows "File_write_list f ds s = (Inr True, append_bytes (m_fd f) (concat ds) s)"
  using assms(1,2)
proof (induction ds arbitrary: s)
  case Nil
  show ?case by (simp add: append_bytes_def option.map_ident)
next
  case (Cons d ds)
  have "append_bytes (m_fd f) (concat ds) (append_bytes (m_fd f) d s) = append_bytes (m_fd f) (d @ concat ds) s"
    by (simp add: append_bytes_def option.map_comp comp_def)
  with Cons assms(3) show ?case by (simp add: File_write_quiet)
qed

subsection \<open>Logging\<close>

text \<open>
  What an operation that writes only to the files \<open>keys\<close> leaves alone. Files are never
  shortened or removed by it.
\<close>

definition touches :: "string set \<Rightarrow> os \<Rightarrow> os \<Rightarrow> bool" where
  "touches keys s s' \<longleftrightarrow>
     os_resolve s' = os_resolve s \<and> os_denied s' = os_denied s \<and> os_frozen s' = os_frozen s
     \<and> os_reads s' = os_reads s
     \<and> (\<forall>k. k \<notin> keys \<longrightarrow> os_files s' k = os_files s k \<and> os_durable s' k = os_durable s k)
     \<and> (\<forall>k c. os_files s k = Some c \<longrightarrow> (\<exists>d. os_files s' k = Some (c @ d)))"

lemma touches_refl [simp]: "touches keys s s"
  by (auto simp: touches_def)

lemma touches_trans: "touches keys s s' \<Longrightarrow> touches keys s' s'' \<Longrightarrow> touches keys s s''"
  unfolding touches_def by (metis append_assoc)

lemma touches_mono: "touches keys s s' \<Longrightarrow> keys \<subseteq> keys' \<Longrightarrow> touches keys' s s'"
  unfolding touches_def by blast

lemma touches_grow: "touches {key} s (grow key d ws s)"
  by (auto simp: touches_def)

lemma touches_create: "os_files s key = None \<Longrightarrow> touches {key} s (s\<lparr>os_files := (os_files s)(key \<mapsto> c)\<rparr>)"
  by (auto simp: touches_def)

lemma touches_close: "touches {m_fd f} s (File_close f s)"
  by (auto simp: touches_def File_close_def fsync_def)

lemma File_close_simps [simp]:
  "os_files (File_close f s) = os_files s" "os_resolve (File_close f s) = os_resolve s"
  "os_writes (File_close f s) = os_writes s" "os_denied (File_close f s) = os_denied s"
  "os_frozen (File_close f s) = os_frozen s" "os_reads (File_close f s) = os_reads s"
  by (simp_all add: File_close_def fsync_def)

abbreviation append_flags :: flags where
  "append_flags \<equiv> O_CREAT OR O_WRONLY OR O_APPEND"

lemma File_open_append_cases:
  obtains (denied) "File_open p append_flags s = (None, s)" "os_denied s (os_resolve s (c_str p))"
  | (opened) s' where "File_open p append_flags s = (Some \<lparr>m_fd = os_resolve s (c_str p), m_flags = append_flags\<rparr>, s')"
      and "touches {os_resolve s (c_str p)} s s'" and "os_writes s' = os_writes s"
      and "os_files s' (os_resolve s (c_str p)) = Some (contents (os_resolve s (c_str p)) s)"
proof (cases "os_denied s (os_resolve s (c_str p))")
  case True
  then show ?thesis using denied by (simp add: File_open_append_Some)
next
  case False
  show ?thesis
    by (rule opened, simp add: File_open_append_Some False Let_def)
       (auto simp: contents_def touches_create split: option.splits)
qed

abbreviation log_key :: "FileName \<Rightarrow> ServerBackend \<Rightarrow> string" where
  "log_key l b \<equiv> os_resolve (m_os b) (c_str (m_directory b @ l))"

lemma logTransaction_cases:
  assumes "nul_free fn"
  obtains s' where "logTransaction l i fn b = (Inr (), b\<lparr>m_os := s'\<rparr>)" "touches {log_key l b} (m_os b) s'"
proof (cases rule: File_open_append_cases [of "m_directory b @ l" "m_os b"])
  case denied
  then show ?thesis by (intro that [of "m_os b"]) (simp_all add: logTransaction_def)
next
  case (opened s1)
  let ?f = "\<lparr>m_fd = log_key l b, m_flags = append_flags\<rparr>"
  have nul1: "\<forall>d \<in> set [to_string i, '' '', fn, '' '']. nul_free d"
    using assms by simp
  obtain d1 ws1 ok1 where
    1: "File_write_list ?f [to_string i, '' '', fn, '' ''] s1 = (Inr ok1, grow (log_key l b) d1 ws1 s1)"
    by (rule File_write_list_cases [OF _ nul1, of ?f s1]) simp_all
  let ?s2 = "grow (log_key l b) d1 ws1 s1"
  have nul2: "\<forall>d \<in> set [to_string (getFileSize_path fn ?s2), ''\<newline>'']. nul_free d"
    by simp
  obtain d2 ws2 ok2 where
    2: "File_write_list ?f [to_string (getFileSize_path fn ?s2), ''\<newline>''] ?s2
        = (Inr ok2, grow (log_key l b) d2 ws2 ?s2)"
    by (rule File_write_list_cases [OF _ nul2, of ?f ?s2]) simp_all
  define s' where "s' = File_close ?f (if ok1 then grow (log_key l b) d2 ws2 ?s2 else ?s2)"
  have "logTransaction l i fn b = (Inr (), b\<lparr>m_os := s'\<rparr>)"
    unfolding logTransaction_def opened(1) s'_def
    using 1 2 by (cases ok1) (simp_all del: File_write_list.simps grow_grow)
  moreover have "touches {log_key l b} (m_os b) s'"
    unfolding s'_def
  proof (rule touches_trans [OF opened(2) touches_trans])
    show "touches {log_key l b} s1 (if ok1 then grow (log_key l b) d2 ws2 ?s2 else ?s2)"
      by (simp add: touches_grow)
    show "touches {log_key l b} (if ok1 then grow (log_key l b) d2 ws2 ?s2 else ?s2)
      (File_close ?f (if ok1 then grow (log_key l b) d2 ws2 ?s2 else ?s2))"
      using touches_close [of ?f] by simp
  qed
  ultimately show ?thesis by (rule that)
qed

text \<open>On a system whose calls succeed, one complete line is appended and forced to disk.\<close>

definition entry_text :: "TxnId \<Rightarrow> FileName \<Rightarrow> FileSize \<Rightarrow> string" where
  "entry_text i fn sz = to_string i @ '' '' @ fn @ '' '' @ to_string sz @ ''\<newline>''"

definition quiet :: "os \<Rightarrow> bool" where
  "quiet s \<longleftrightarrow> os_writes s = [] \<and> os_reads s = []"

lemma logTransaction_quiet:
  assumes "nul_free fn" "os_writes (m_os b) = []" "\<not> os_denied (m_os b) (log_key l b)"
    and "os_resolve (m_os b) (c_str fn) \<noteq> log_key l b"
  shows "logTransaction l i fn b = (Inr (), b\<lparr>m_os := (m_os b)\<lparr>
           os_files := (os_files (m_os b))(log_key l b \<mapsto>
             contents (log_key l b) (m_os b) @ entry_text i fn (getFileSize_path fn (m_os b))),
           os_durable := (os_durable (m_os b))(log_key l b \<mapsto>
             contents (log_key l b) (m_os b) @ entry_text i fn (getFileSize_path fn (m_os b)))\<rparr>\<rparr>)"
proof -
  let ?k = "log_key l b"
  let ?f = "\<lparr>m_fd = ?k, m_flags = append_flags\<rparr>"
  define s1 where "s1 = (if os_files (m_os b) ?k = None then (m_os b)\<lparr>os_files := (os_files (m_os b))(?k \<mapsto> [])\<rparr> else m_os b)"
  have o: "File_open (m_directory b @ l) append_flags (m_os b) = (Some ?f, s1)"
    using assms(3) by (simp add: File_open_append_Some s1_def Let_def)
  have s1: "os_writes s1 = []" "os_files s1 ?k = Some (contents ?k (m_os b))" "os_resolve s1 = os_resolve (m_os b)"
    "os_files s1 (os_resolve (m_os b) (c_str fn)) = os_files (m_os b) (os_resolve (m_os b) (c_str fn))"
    using assms by (auto simp: s1_def contents_def)
  have w: "\<forall>d \<in> set ds. nul_free d \<Longrightarrow> os_writes s = [] \<Longrightarrow>
      File_write_list ?f ds s = (Inr True, append_bytes ?k (concat ds) s)" for ds s
    by (simp add: File_write_list_quiet)
  let ?d1 = "concat [to_string i, '' '', fn, '' '']"
  let ?s2 = "append_bytes ?k ?d1 s1"
  have sz: "getFileSize_path fn ?s2 = getFileSize_path fn (m_os b)"
    using assms(4) s1 by (simp add: getFileSize_path_def)
  have l1: "File_write_list ?f [to_string i, '' '', fn, '' ''] s1 = (Inr True, ?s2)"
    using assms(1) s1 by (intro w) simp_all
  have l2: "File_write_list ?f [to_string (getFileSize_path fn ?s2), ''\<newline>''] ?s2 =
      (Inr True, append_bytes ?k (concat [to_string (getFileSize_path fn ?s2), ''\<newline>'']) ?s2)"
    using s1 by (intro w) simp_all
  have "logTransaction l i fn b = (Inr (), b\<lparr>m_os := File_close ?f
      (append_bytes ?k (concat [to_string (getFileSize_path fn ?s2), ''\<newline>'']) ?s2)\<rparr>)"
    unfolding logTransaction_def o using l1 l2 by (simp del: File_write_list.simps concat.simps)
  also have "File_close ?f (append_bytes ?k (concat [to_string (getFileSize_path fn ?s2), ''\<newline>'']) ?s2)
      = (m_os b)\<lparr>os_files := (os_files (m_os b))(?k \<mapsto> contents ?k (m_os b) @ entry_text i fn (getFileSize_path fn (m_os b))),
           os_durable := (os_durable (m_os b))(?k \<mapsto> contents ?k (m_os b) @ entry_text i fn (getFileSize_path fn (m_os b)))\<rparr>"
    unfolding sz using s1 by (simp add: File_close_def fsync_def append_bytes_def entry_text_def s1_def)
  finally show ?thesis .
qed

subsection \<open>The loops of COMMIT\<close>

lemma first_missing_None:
  "first_missing bufs i mx = None \<longleftrightarrow> (\<forall>j. i \<le> j \<longrightarrow> j \<le> mx \<longrightarrow> bufs j \<noteq> None)"
proof (induction bufs i mx rule: first_missing.induct)
  case (1 bufs i mx)
  show ?case
  proof (cases "i \<le> mx \<and> bufs i \<noteq> None")
    case True
    have "(\<forall>j. i \<le> j \<longrightarrow> j \<le> mx \<longrightarrow> bufs j \<noteq> None) \<longleftrightarrow> (\<forall>j. i + 1 \<le> j \<longrightarrow> j \<le> mx \<longrightarrow> bufs j \<noteq> None)"
    proof (intro iffI allI impI)
      fix j
      assume *: "\<forall>j. i + 1 \<le> j \<longrightarrow> j \<le> mx \<longrightarrow> bufs j \<noteq> None" and j: "i \<le> j" "j \<le> mx"
      show "bufs j \<noteq> None"
      proof (cases "j = i")
        case False
        with j have "i + 1 \<le> j" by simp
        with * j(2) show ?thesis by blast
      qed (use True in simp)
    qed simp
    moreover have "first_missing bufs i mx = first_missing bufs (i + 1) mx"
      using True by (subst first_missing.simps) auto
    ultimately show ?thesis using 1 True by simp
  next
    case False
    then show ?thesis by (subst first_missing.simps) (auto split: if_splits)
  qed
qed

lemma first_missing_Some:
  assumes "first_missing bufs i mx = Some k"
  shows "i \<le> k" and "k \<le> mx" and "bufs k = None" and "i \<le> j \<Longrightarrow> j < k \<Longrightarrow> bufs j \<noteq> None"
proof -
  have "i \<le> k \<and> k \<le> mx \<and> bufs k = None \<and> (\<forall>j. i \<le> j \<longrightarrow> j < k \<longrightarrow> bufs j \<noteq> None)"
    using assms
  proof (induction bufs i mx rule: first_missing.induct)
    case (1 bufs i mx)
    show ?case
    proof (cases "i \<le> mx \<and> bufs i \<noteq> None")
      case True
      with 1 have "i + 1 \<le> k \<and> k \<le> mx \<and> bufs k = None \<and> (\<forall>j. i + 1 \<le> j \<longrightarrow> j < k \<longrightarrow> bufs j \<noteq> None)"
        by (simp add: first_missing.simps [of bufs i mx])
      moreover have "bufs j \<noteq> None" if "i \<le> j" "j < k" for j
        using that True calculation by (cases "j = i") auto
      ultimately show ?thesis by simp
    next
      case False
      with 1 show ?thesis by (auto simp: first_missing.simps [of bufs i mx] split: if_splits)
    qed
  qed
  then show "i \<le> k" "k \<le> mx" "bufs k = None" "i \<le> j \<Longrightarrow> j < k \<Longrightarrow> bufs j \<noteq> None" by auto
qed

text \<open>The loop counter never passes the number of buffered writes by more than one.\<close>

lemma first_missing_bound:
  assumes "first_missing bufs i mx = Some k" "finite (dom bufs)"
  shows "k \<le> i + int (card (dom bufs))"
proof -
  have "{i..<k} \<subseteq> dom bufs" using first_missing_Some(4) [OF assms(1)] by auto
  with assms(2) have "card {i..<k} \<le> card (dom bufs)" by (rule card_mono)
  then show ?thesis by simp
qed

definition commit_data :: "BufferMap \<Rightarrow> SeqNum \<Rightarrow> string" where
  "commit_data bufs mx = concat (map (\<lambda>j. the (bufs j)) [initial_seq_num + 1..mx])"

lemma write_buffers_list:
  assumes "\<forall>j. i \<le> j \<longrightarrow> j \<le> mx \<longrightarrow> bufs j \<noteq> None"
  shows "write_buffers f bufs i mx s = File_write_list f (map (\<lambda>j. the (bufs j)) [i..mx]) s"
  using assms
proof (induction f bufs i mx s rule: write_buffers.induct)
  case (1 f bufs i mx s)
  show ?case
  proof (cases "i \<le> mx")
    case True
    with "1.prems" obtain d where d: "bufs i = Some d" by fastforce
    have rest: "\<forall>j. i + 1 \<le> j \<longrightarrow> j \<le> mx \<longrightarrow> bufs j \<noteq> None" using "1.prems" by simp
    show ?thesis
      unfolding write_buffers.simps [of f bufs i mx s] upto.simps [of i mx]
      using True d "1.IH" [OF True d] rest
      by (auto split: prod.splits sum.splits bool.splits)
  next
    case False
    then show ?thesis by (subst write_buffers.simps) simp
  qed
qed

lemma write_buffers_cases:
  assumes "first_missing bufs (initial_seq_num + 1) mx = None" "writable (m_flags f)"
    and "\<forall>j d. bufs j = Some d \<longrightarrow> nul_free d"
  obtains d ws ok where "write_buffers f bufs (initial_seq_num + 1) mx s = (Inr ok, grow (m_fd f) d ws s)"
    and "prefix d (commit_data bufs mx)" and "ok \<longrightarrow> d = commit_data bufs mx"
proof -
  let ?ds = "map (\<lambda>j. the (bufs j)) [initial_seq_num + 1..mx]"
  have all: "\<forall>j. initial_seq_num + 1 \<le> j \<longrightarrow> j \<le> mx \<longrightarrow> bufs j \<noteq> None"
    using assms(1) by (simp only: first_missing_None)
  have nul: "\<forall>d \<in> set ?ds. nul_free d"
  proof
    fix d assume "d \<in> set ?ds"
    then obtain j where j: "initial_seq_num + 1 \<le> j" "j \<le> mx" "d = the (bufs j)" by auto
    with all obtain d' where "bufs j = Some d'" by blast
    with j assms(3) show "nul_free d" by simp
  qed
  show ?thesis
    using File_write_list_cases [OF assms(2) nul, of s]
    by (metis that write_buffers_list [OF all] commit_data_def)
qed

end
