(* ===== verification/Backend_Invariant.thy ===== *)
theory Backend_Invariant
  imports Backend_Facts
begin

text \<open>
  The invariant of the backend's data structures and its preservation by every
  operation: the attribute object of a file exists exactly while a transaction uses it,
  its use count is the number of those transactions, and each transaction's buffers
  agree with its maximum sequence number. Under the invariant no command function
  reaches undefined behaviour, an uncaught exception or a failed assertion.
\<close>

definition users :: "FileName \<Rightarrow> (TxnId \<rightharpoonup> TransactionAttributes) \<Rightarrow> TxnId set" where
  "users f txns = {i. \<exists>t. txns i = Some t \<and> sp_file_attributes t = f}"

definition txn_inv :: "TransactionAttributes \<Rightarrow> bool" where
  "txn_inv t \<longleftrightarrow> finite (dom (buffers t)) \<and> 1 \<le> max_seq_num t \<and> max_seq_num t \<le> int_max
     \<and> (\<forall>k d. buffers t k = Some d \<longrightarrow> k \<le> max_seq_num t \<and> nul_free d)
     \<and> nul_free (sp_file_attributes t)"

definition file_inv :: "(TxnId \<rightharpoonup> TransactionAttributes) \<Rightarrow> FileName \<Rightarrow> FileAttributes option \<Rightarrow> bool" where
  "file_inv txns f x \<longleftrightarrow>
     (case x of
        None \<Rightarrow> users f txns = {}
      | Some fa \<Rightarrow> m_file_name fa = f \<and> m_use_count fa = card (users f txns) \<and> users f txns \<noteq> {})"

definition backend_inv :: "ServerBackend \<Rightarrow> bool" where
  "backend_inv b \<longleftrightarrow> finite (dom (m_txns b)) \<and> (\<forall>i \<in> dom (m_txns b). is_int i)
     \<and> (\<forall>f. file_inv (m_txns b) f (m_files b f))
     \<and> (\<forall>i t. m_txns b i = Some t \<longrightarrow> txn_inv t)"

text \<open>What \<open>getClientRequestAsTuple\<close> establishes of every request.\<close>

fun request_ok :: "RequestTuple \<Rightarrow> bool" where
  "request_ok (command, txn_id, seq_num, content_len, data) =
     (is_int txn_id \<and> is_int seq_num \<and> is_int content_len \<and> nul_free data)"

subsection \<open>Users of a file\<close>

lemma users_empty [simp]: "users f Map.empty = {}"
  by (simp add: users_def)

lemma users_subset_dom: "users f txns \<subseteq> dom txns"
  by (auto simp: users_def)

lemma finite_users [simp]: "finite (dom txns) \<Longrightarrow> finite (users f txns)"
  by (rule finite_subset [OF users_subset_dom])

lemma users_insert:
  "txns i = None \<Longrightarrow>
   users f (txns(i \<mapsto> t)) = (if sp_file_attributes t = f then insert i (users f txns) else users f txns)"
  by (auto simp: users_def)

lemma users_remove: "users f (txns(i := None)) = users f txns - {i}"
  by (auto simp: users_def)

lemma users_same_file:
  "txns i = Some t \<Longrightarrow> sp_file_attributes t' = sp_file_attributes t \<Longrightarrow>
   users f (txns(i \<mapsto> t')) = users f txns"
  by (auto simp: users_def)

lemma not_in_users: "txns i = None \<Longrightarrow> i \<notin> users f txns"
  by (simp add: users_def)

subsection \<open>Preservation, one lemma per state change\<close>

lemma backend_inv_cong:
  "m_txns b' = m_txns b \<Longrightarrow> m_files b' = m_files b \<Longrightarrow> backend_inv b' = backend_inv b"
  by (simp add: backend_inv_def)

lemma backend_inv_os [simp]: "backend_inv (b\<lparr>m_os := s\<rparr>) = backend_inv b"
  by (rule backend_inv_cong) simp_all

lemma backend_inv_txn: "backend_inv b \<Longrightarrow> m_txns b i = Some t \<Longrightarrow> txn_inv t"
  by (simp add: backend_inv_def)

lemma backend_inv_file:
  assumes "backend_inv b" "m_txns b i = Some t"
  obtains fa where "m_files b (sp_file_attributes t) = Some fa" "m_file_name fa = sp_file_attributes t"
    "m_use_count fa = card (users (sp_file_attributes t) (m_txns b))"
proof -
  have "i \<in> users (sp_file_attributes t) (m_txns b)" using assms(2) by (simp add: users_def)
  moreover have "file_inv (m_txns b) (sp_file_attributes t) (m_files b (sp_file_attributes t))"
    using assms(1) by (simp add: backend_inv_def)
  ultimately show ?thesis
    using that by (auto simp: file_inv_def split: option.splits)
qed

lemma backend_inv_update_txn:
  assumes "backend_inv b" "m_txns b i = Some t" "sp_file_attributes t' = sp_file_attributes t" "txn_inv t'"
  shows "backend_inv (b\<lparr>m_txns := (m_txns b)(i \<mapsto> t')\<rparr>)"
proof -
  have "users f ((m_txns b)(i \<mapsto> t')) = users f (m_txns b)" for f
    by (rule users_same_file) (use assms in auto)
  then have "file_inv ((m_txns b)(i \<mapsto> t')) f x = file_inv (m_txns b) f x" for f x
    unfolding file_inv_def by (simp only:)
  with assms show ?thesis by (auto simp: backend_inv_def)
qed

lemma backend_inv_file_size:
  assumes "backend_inv b"
  shows "backend_inv (b\<lparr>m_files := (m_files b)(f := map_option (m_file_size_update g) (m_files b f))\<rparr>)"
proof -
  have "file_inv (m_txns b) f (m_files b f)" using assms by (simp add: backend_inv_def)
  then have "file_inv (m_txns b) f (map_option (m_file_size_update g) (m_files b f))"
    by (cases "m_files b f") (simp_all add: file_inv_def)
  with assms show ?thesis by (simp add: backend_inv_def)
qed

lemma file_inv_add:
  assumes "finite (dom txns)" "txns i = None" "sp_file_attributes t \<noteq> f"
  shows "file_inv (txns(i \<mapsto> t)) f x = file_inv txns f x"
  using assms by (simp add: file_inv_def users_insert split: option.split)

lemma file_inv_remove:
  assumes "txns i = Some t" "sp_file_attributes t \<noteq> f"
  shows "file_inv (txns(i := None)) f x = file_inv txns f x"
proof -
  have "i \<notin> users f txns" using assms by (simp add: users_def)
  then have "users f (txns(i := None)) = users f txns" by (simp add: users_remove)
  then show ?thesis unfolding file_inv_def by (simp only:)
qed

lemma backend_inv_add:
  assumes inv: "backend_inv b" and new: "m_txns b i = None" and "is_int i" "txn_inv t"
    and fa: "file_inv ((m_txns b)(i \<mapsto> t)) (sp_file_attributes t) (m_files b' (sp_file_attributes t))"
    and other: "\<And>f. f \<noteq> sp_file_attributes t \<Longrightarrow> m_files b' f = m_files b f"
    and txns: "m_txns b' = (m_txns b)(i \<mapsto> t)"
  shows "backend_inv b'"
proof -
  have fin: "finite (dom (m_txns b))" using inv by (simp add: backend_inv_def)
  have "file_inv (m_txns b') f (m_files b' f)" for f
    using inv fa other [of f] file_inv_add [of "m_txns b" i t f, OF fin new]
    by (cases "f = sp_file_attributes t") (auto simp: backend_inv_def txns)
  then show ?thesis
    using inv assms(3,4) by (auto simp: backend_inv_def txns)
qed

lemma removeTransaction_inv:
  assumes inv: "backend_inv b"
  shows "backend_inv (removeTransaction i b)"
proof (cases "m_txns b i")
  case None
  with inv show ?thesis by (simp add: removeTransaction_def)
next
  case (Some t)
  let ?f = "sp_file_attributes t" and ?b = "removeTransaction i b"
  obtain fa where fa: "m_files b ?f = Some fa" "m_file_name fa = ?f" "m_use_count fa = card (users ?f (m_txns b))"
    by (rule backend_inv_file [OF inv Some])
  have fin: "finite (dom (m_txns b))" using inv by (simp add: backend_inv_def)
  have i: "i \<in> users ?f (m_txns b)" using Some by (simp add: users_def)
  have card: "card (users ?f ((m_txns b)(i := None))) = card (users ?f (m_txns b)) - 1"
    using i fin by (simp add: users_remove)
  have txns: "m_txns ?b = (m_txns b)(i := None)"
    using Some fa by (simp add: removeTransaction_def release_file_attributes_def)
  have "file_inv (m_txns ?b) ?f (m_files ?b ?f)"
  proof (cases "m_use_count fa \<le> 1")
    case True
    then have "users ?f ((m_txns b)(i := None)) = {}"
      using card fin fa(3) by (simp add: users_remove)
    then show ?thesis
      using True Some fa by (simp add: removeTransaction_def release_file_attributes_def file_inv_def)
  next
    case False
    then have "card (users ?f ((m_txns b)(i := None))) \<noteq> 0" using card fa(3) by simp
    then have "users ?f ((m_txns b)(i := None)) \<noteq> {}" by auto
    then show ?thesis
      using False Some fa card by (simp add: removeTransaction_def release_file_attributes_def file_inv_def)
  qed
  moreover have "file_inv (m_txns ?b) f (m_files ?b f)" if "f \<noteq> ?f" for f
  proof -
    have "m_files ?b f = m_files b f"
      using that Some by (simp add: removeTransaction_def release_file_attributes_def split: option.split)
    then show ?thesis
      using inv file_inv_remove [of "m_txns b" i t f] Some that by (simp add: backend_inv_def txns)
  qed
  ultimately have "file_inv (m_txns ?b) f (m_files ?b f)" for f by (cases "f = ?f") auto
  then show ?thesis using inv by (auto simp: backend_inv_def txns)
qed

lemma removeTransaction_simps [simp]:
  "m_txns (removeTransaction i b) = (m_txns b)(i := None)"
  "m_commits (removeTransaction i b) = m_commits b"
  "m_os (removeTransaction i b) = m_os b"
  "m_directory (removeTransaction i b) = m_directory b"
  "m_timers (removeTransaction i b) = m_timers b"
  "m_initialize (removeTransaction i b) = m_initialize b"
  by (auto simp: removeTransaction_def release_file_attributes_def fun_upd_idem split: option.splits)

subsection \<open>Adding a transaction\<close>

lemma txn_inv_new: "nul_free fn \<Longrightarrow> txn_inv (getNewTransactionAttributes fn ts)"
  by (simp add: txn_inv_def getNewTransactionAttributes_def initial_seq_num_def int_range_defs)

text \<open>The state in which \<open>addNewTransaction\<close> logs, for an identifier not in use.\<close>

definition with_new_transaction :: "TxnId \<Rightarrow> FileName \<Rightarrow> Timestamp \<Rightarrow> ServerBackend \<Rightarrow> ServerBackend" where
  "with_new_transaction i fn ts b =
     b\<lparr>m_files := (m_files b)(fn \<mapsto>
         (case m_files b fn of
            None \<Rightarrow> \<lparr>m_file_name = fn, m_file_size = getFileSize_path fn (m_os b), m_use_count = 1\<rparr>
          | Some fa \<Rightarrow> m_use_count_update Suc fa)),
       m_txns := (m_txns b)(i \<mapsto> getNewTransactionAttributes fn ts)\<rparr>"

lemma with_new_transaction_simps [simp]:
  "m_txns (with_new_transaction i fn ts b) = (m_txns b)(i \<mapsto> getNewTransactionAttributes fn ts)"
  "m_os (with_new_transaction i fn ts b) = m_os b"
  "m_commits (with_new_transaction i fn ts b) = m_commits b"
  "m_directory (with_new_transaction i fn ts b) = m_directory b"
  "m_timers (with_new_transaction i fn ts b) = m_timers b"
  "m_initialize (with_new_transaction i fn ts b) = m_initialize b"
  by (simp_all add: with_new_transaction_def)

lemma addNewTransaction_fresh:
  assumes "m_txns b i = None"
  shows "addNewTransaction i fn ts b =
    (case logTransaction m_transaction_log i fn (with_new_transaction i fn ts b) of
       (Inl e, b) \<Rightarrow> (Inl e, b)
     | (Inr _, b) \<Rightarrow> (Inr True, b\<lparr>m_timers := m_timers b @
          [\<lparr>timer_txn_id = i, timer_latest_timestamp = ts, timer_file_name = fn\<rparr>]\<rparr>))"
  using assms
  by (cases "m_files b fn")
     (simp_all add: addNewTransaction_def getNewFileAttributes_def share_file_attributes_def
       emplace_transaction_def with_new_transaction_def)

lemma with_new_transaction_inv:
  assumes inv: "backend_inv b" and new: "m_txns b i = None" and "is_int i" "nul_free fn"
  shows "backend_inv (with_new_transaction i fn ts b)"
proof (rule backend_inv_add [OF inv new \<open>is_int i\<close> txn_inv_new [OF \<open>nul_free fn\<close>, of ts]])
  let ?t = "getNewTransactionAttributes fn ts"
  have t: "sp_file_attributes ?t = fn" by (simp add: getNewTransactionAttributes_def)
  have fin: "finite (users fn (m_txns b))" using inv by (simp add: backend_inv_def)
  have u: "users fn ((m_txns b)(i \<mapsto> ?t)) = insert i (users fn (m_txns b))"
    using new t by (simp add: users_insert)
  have fi: "file_inv (m_txns b) fn (m_files b fn)" using inv by (simp add: backend_inv_def)
  then show "file_inv ((m_txns b)(i \<mapsto> ?t)) (sp_file_attributes ?t)
      (m_files (with_new_transaction i fn ts b) (sp_file_attributes ?t))"
    using fin not_in_users [of "m_txns b" i fn] new
    by (cases "m_files b fn") (simp_all add: t file_inv_def u with_new_transaction_def)
qed (simp_all add: with_new_transaction_def getNewTransactionAttributes_def)

lemma addNewTransaction_cases:
  assumes "m_txns b i = None" "nul_free fn"
  obtains s' where "addNewTransaction i fn ts b = (Inr True, (with_new_transaction i fn ts b)
        \<lparr>m_os := s',
         m_timers := m_timers b @ [\<lparr>timer_txn_id = i, timer_latest_timestamp = ts, timer_file_name = fn\<rparr>]\<rparr>)"
    and "touches {log_key m_transaction_log b} (m_os b) s'"
proof -
  obtain s' where "logTransaction m_transaction_log i fn (with_new_transaction i fn ts b)
      = (Inr (), (with_new_transaction i fn ts b)\<lparr>m_os := s'\<rparr>)"
    "touches {log_key m_transaction_log b} (m_os b) s'"
    by (rule logTransaction_cases [OF assms(2), of m_transaction_log i "with_new_transaction i fn ts b"]) simp
  then show ?thesis
    by (intro that [of s']) (simp_all add: addNewTransaction_fresh [OF assms(1)])
qed

lemma backend_inv_timers [simp]: "backend_inv (b\<lparr>m_timers := ts\<rparr>) = backend_inv b"
  by (rule backend_inv_cong) simp_all

lemma backend_inv_commits [simp]: "backend_inv (b\<lparr>m_commits := cs\<rparr>) = backend_inv b"
  by (rule backend_inv_cong) simp_all

lemma backend_inv_initialize [simp]: "backend_inv (b\<lparr>m_initialize := x\<rparr>) = backend_inv b"
  by (rule backend_inv_cong) simp_all

lemma addNewTransaction_inv:
  assumes "backend_inv b" "m_txns b i = None" "is_int i" "nul_free fn"
    and "addNewTransaction i fn ts b = (r, b')"
  shows "backend_inv b' \<and> r = Inr True"
proof -
  from assms(2,4) obtain s' where "addNewTransaction i fn ts b = (Inr True, (with_new_transaction i fn ts b)
        \<lparr>m_os := s',
         m_timers := m_timers b @ [\<lparr>timer_txn_id = i, timer_latest_timestamp = ts, timer_file_name = fn\<rparr>]\<rparr>)"
    by (rule addNewTransaction_cases)
  with assms(5) have "r = Inr True" "b' = (with_new_transaction i fn ts b)\<lparr>m_os := s',
      m_timers := m_timers b @ [\<lparr>timer_txn_id = i, timer_latest_timestamp = ts, timer_file_name = fn\<rparr>]\<rparr>"
    by simp_all
  with with_new_transaction_inv [OF assms(1-4), of ts] show ?thesis by simp
qed

end
