(* ===== verification/Command_Cases.thy ===== *)
theory Command_Cases
  imports Backend_Invariant
begin

text \<open>
  The complete case analysis of every command function, for a backend that satisfies its
  invariant and whatever the system calls return: the reply and the new state of each
  branch. The safety, functional and refinement theorems are read off these lemmas.
\<close>

abbreviation data_key :: "FileName \<Rightarrow> ServerBackend \<Rightarrow> string" where
  "data_key f b \<equiv> os_resolve (m_os b) (c_str (m_directory b @ f))"

lemmas command_defs = WRITE_def COMMIT_def ABORT_def committed_or_invalid_id_def committed_or_aborted_def

subsection \<open>WRITE\<close>

definition buffered :: "SeqNum \<Rightarrow> Data \<Rightarrow> Timestamp \<Rightarrow> TransactionAttributes \<Rightarrow> TransactionAttributes" where
  "buffered k d ts t = t\<lparr>curr_timestamp := ts, max_seq_num := max k (max_seq_num t),
     buffers := (buffers t)(k \<mapsto> d)\<rparr>"

abbreviation with_txn :: "TxnId \<Rightarrow> TransactionAttributes \<Rightarrow> ServerBackend \<Rightarrow> ServerBackend" where
  "with_txn i t b \<equiv> b\<lparr>m_txns := (m_txns b)(i \<mapsto> t)\<rparr>"

lemma WRITE_cases:
  obtains (committed) "i \<in> m_commits b" "WRITE (c, i, k, n, d) e p b = SET_ERROR InvalidOperation i k b"
  | (unknown) "i \<notin> m_commits b" "m_txns b i = None"
      "WRITE (c, i, k, n, d) e p b = SET_ERROR InvalidTransactionId i k b"
  | (repeated) t where "i \<notin> m_commits b" "m_txns b i = Some t" "buffers t k \<noteq> None"
      "WRITE (c, i, k, n, d) e p b =
         SET_ERROR RepeatedSequenceNumber i k (with_txn i (t\<lparr>curr_timestamp := now e\<rparr>) b)"
  | (stored) t where "i \<notin> m_commits b" "m_txns b i = Some t" "buffers t k = None"
      "WRITE (c, i, k, n, d) e p b = SET_ACK i k p (with_txn i (buffered k d (now e) t) b)"
proof -
  consider "i \<in> m_commits b" | "i \<notin> m_commits b" "m_txns b i = None"
    | t where "i \<notin> m_commits b" "m_txns b i = Some t" "buffers t k \<noteq> None"
    | t where "i \<notin> m_commits b" "m_txns b i = Some t" "buffers t k = None" by blast
  then show ?thesis
  proof cases
    case 1
    then show ?thesis by (intro committed) (simp_all add: command_defs)
  next
    case 2
    then show ?thesis by (intro unknown) (simp_all add: command_defs)
  next
    case 3
    then show ?thesis by (intro repeated) (simp_all add: command_defs WRITE_locked_def)
  next
    case (4 t)
    have "(if k > max_seq_num t then t\<lparr>curr_timestamp := now e, max_seq_num := k\<rparr> else t\<lparr>curr_timestamp := now e\<rparr>)
        \<lparr>buffers := (buffers t)(k \<mapsto> d)\<rparr> = buffered k d (now e) t"
      by (cases t) (simp add: buffered_def max_def)
    with 4 show ?thesis
      by (intro stored [of t]) (auto simp: command_defs WRITE_locked_def Let_def)
  qed
qed

lemma txn_inv_timestamp [simp]: "txn_inv (t\<lparr>curr_timestamp := ts\<rparr>) = txn_inv t"
  by (simp add: txn_inv_def)

lemma txn_inv_buffered:
  assumes "txn_inv t" "is_int k" "nul_free d"
  shows "txn_inv (buffered k d ts t)"
  using assms by (fastforce simp: txn_inv_def buffered_def max_def)

lemma buffered_simps [simp]:
  "sp_file_attributes (buffered k d ts t) = sp_file_attributes t"
  "max_seq_num (buffered k d ts t) = max k (max_seq_num t)"
  "buffers (buffered k d ts t) = (buffers t)(k \<mapsto> d)"
  "curr_timestamp (buffered k d ts t) = ts"
  by (simp_all add: buffered_def)

subsection \<open>COMMIT\<close>

text \<open>The transaction as COMMIT leaves it when it neither fails early nor finishes.\<close>

definition closed_at :: "SeqNum \<Rightarrow> Timestamp \<Rightarrow> TransactionAttributes \<Rightarrow> TransactionAttributes" where
  "closed_at k ts t = t\<lparr>curr_timestamp := ts, max_seq_num := k\<rparr>"

lemma closed_at_simps [simp]:
  "sp_file_attributes (closed_at k ts t) = sp_file_attributes t"
  "max_seq_num (closed_at k ts t) = k"
  "buffers (closed_at k ts t) = buffers t"
  "curr_timestamp (closed_at k ts t) = ts"
  by (simp_all add: closed_at_def)

lemma txn_inv_closed_at:
  assumes "txn_inv t" "max_seq_num t \<le> k" "is_int k"
  shows "txn_inv (closed_at k ts t)"
  using assms by (fastforce simp: txn_inv_def)

lemma COMMIT_cases:
  assumes "backend_inv b"
  obtains (committed) "i \<in> m_commits b" "COMMIT (c, i, k, n, d) e p b = SET_ACK i k p b"
  | (unknown) "i \<notin> m_commits b" "m_txns b i = None"
      "COMMIT (c, i, k, n, d) e p b = SET_ERROR InvalidTransactionId i k b"
  | (too_low) t where "i \<notin> m_commits b" "m_txns b i = Some t" "k < max_seq_num t"
      "COMMIT (c, i, k, n, d) e p b =
         SET_ERROR CommitWithInvalidSequenceNumber i k (with_txn i (t\<lparr>curr_timestamp := now e\<rparr>) b)"
  | (missing) t m where "i \<notin> m_commits b" "m_txns b i = Some t" "max_seq_num t \<le> k"
      "first_missing (buffers t) (initial_seq_num + 1) k = Some m"
      "COMMIT (c, i, k, n, d) e p b = SET_ASK_RESEND i m p (with_txn i (closed_at k (now e) t) b)"
  | (full) t fa where "i \<notin> m_commits b" "m_txns b i = Some t" "max_seq_num t \<le> k"
      "first_missing (buffers t) (initial_seq_num + 1) k = None"
      "m_files b (sp_file_attributes t) = Some fa" "m_file_name fa = sp_file_attributes t"
      "COMMIT (c, i, k, n, d) e p b =
         COMMIT_flush i k (closed_at k (now e) t) fa p (with_txn i (closed_at k (now e) t) b)"
proof -
  consider "i \<in> m_commits b" | "i \<notin> m_commits b" "m_txns b i = None"
    | t where "i \<notin> m_commits b" "m_txns b i = Some t" "k < max_seq_num t"
    | t where "i \<notin> m_commits b" "m_txns b i = Some t" "max_seq_num t \<le> k" by force
  then show ?thesis
  proof cases
    case 1
    then show ?thesis by (intro committed) (simp_all add: COMMIT_def)
  next
    case 2
    then show ?thesis by (intro unknown) (simp_all add: COMMIT_def)
  next
    case 3
    then show ?thesis by (intro too_low) (simp_all add: command_defs COMMIT_locked_def)
  next
    case (4 t)
    obtain fa where fa: "m_files b (sp_file_attributes t) = Some fa" "m_file_name fa = sp_file_attributes t"
      by (rule backend_inv_file [OF assms 4(2)])
    show ?thesis
    proof (cases "first_missing (buffers t) (initial_seq_num + 1) k")
      case None
      with 4 fa show ?thesis
        by (intro full [of t fa]) (simp_all add: command_defs COMMIT_locked_def closed_at_def Let_def)
    next
      case (Some m)
      with 4 fa show ?thesis
        by (intro missing [of t m]) (simp_all add: command_defs COMMIT_locked_def closed_at_def Let_def)
    qed
  qed
qed

subsection \<open>Flushing the buffers\<close>

definition committed_state ::
  "TxnId \<Rightarrow> TransactionAttributes \<Rightarrow> FileSize \<Rightarrow> os \<Rightarrow> ServerBackend \<Rightarrow> ServerBackend" where
  "committed_state i t new_size s b =
     removeTransaction i
       (b\<lparr>m_files := (m_files b)(sp_file_attributes t :=
            map_option (m_file_size_update (\<lambda>_. new_size)) (m_files b (sp_file_attributes t))),
          m_commits := insert i (m_commits b), m_os := s\<rparr>)"

lemma committed_state_simps [simp]:
  "m_txns (committed_state i t z s b) = (m_txns b)(i := None)"
  "m_commits (committed_state i t z s b) = insert i (m_commits b)"
  "m_os (committed_state i t z s b) = s"
  "m_directory (committed_state i t z s b) = m_directory b"
  "m_timers (committed_state i t z s b) = m_timers b"
  "m_initialize (committed_state i t z s b) = m_initialize b"
  by (simp_all add: committed_state_def)

lemma committed_state_inv: "backend_inv b \<Longrightarrow> backend_inv (committed_state i t z s b)"
  unfolding committed_state_def
  by (intro removeTransaction_inv) (simp add: backend_inv_file_size)

text \<open>
  A commit whose writes are all there: the file cannot be opened, or a write fails and the
  file is truncated, or the data of sequence numbers 1 to the last is appended in order.
\<close>

lemma COMMIT_flush_cases:
  fixes b :: ServerBackend
  assumes fm: "first_missing (buffers t) (initial_seq_num + 1) (max_seq_num t) = None"
    and fa: "m_file_name fa = sp_file_attributes t" and inv: "txn_inv t"
  defines "K \<equiv> data_key (sp_file_attributes t) b" and "L \<equiv> log_key m_commit_log b"
  obtains (denied) "os_denied (m_os b) K"
      "COMMIT_flush i k t fa p b = SET_ERROR ErrorOpeningFile i k b"
  | (failed) s d where "\<not> os_denied (m_os b) K" "touches {K} (m_os b) s"
      "os_files s K = Some (contents K (m_os b) @ d)" "prefix d (commit_data (buffers t) (max_seq_num t))"
      "COMMIT_flush i k t fa p b = SET_ERROR ErrorWritingFile i k
         (b\<lparr>m_os := snd (sys_truncate (sp_file_attributes t) (m_file_size fa) s)\<rparr>)"
  | (flushed) s c where "\<not> os_denied (m_os b) K" "touches {K, L} (m_os b) s"
      "os_files s K = Some c" "os_durable s K = Some c"
      "K \<noteq> L \<Longrightarrow> c = contents K (m_os b) @ commit_data (buffers t) (max_seq_num t)"
      "COMMIT_flush i k t fa p b = SET_ACK i k p (committed_state i t (int (length c)) s b)"
proof (cases rule: File_open_append_cases [of "m_directory b @ sp_file_attributes t" "m_os b"])
  case denied
  then show ?thesis by (intro that(1)) (simp_all add: K_def COMMIT_flush_def fa)
next
  case (opened s1)
  note opened = opened [folded K_def]
  let ?f = "\<lparr>m_fd = K, m_flags = append_flags\<rparr>"
  have nd: "\<not> os_denied (m_os b) K"
    using opened(1) by (auto simp: File_open_append_Some K_def Let_def split: if_splits)
  have nul: "\<forall>j d. buffers t j = Some d \<longrightarrow> nul_free d" using inv by (simp add: txn_inv_def)
  obtain d ws ok where w:
    "write_buffers ?f (buffers t) (initial_seq_num + 1) (max_seq_num t) s1 = (Inr ok, grow K d ws s1)"
    "prefix d (commit_data (buffers t) (max_seq_num t))" "ok \<longrightarrow> d = commit_data (buffers t) (max_seq_num t)"
    by (rule write_buffers_cases [OF fm _ nul, of ?f s1]) simp_all
  define s2 where "s2 = grow K d ws s1"
  have t2: "touches {K} (m_os b) s2"
    unfolding s2_def by (rule touches_trans [OF opened(2) touches_grow])
  have f2: "os_files s2 K = Some (contents K (m_os b) @ d)" using opened(4) by (simp add: s2_def)
  show ?thesis
  proof (cases ok)
    case False
    have "touches {K} (m_os b) (File_close ?f s2)"
      using touches_trans [OF t2] touches_close [of ?f s2] by simp
    moreover have "COMMIT_flush i k t fa p b = SET_ERROR ErrorWritingFile i k
         (b\<lparr>m_os := snd (sys_truncate (sp_file_attributes t) (m_file_size fa) (File_close ?f s2))\<rparr>)"
      using opened(1) w(1) False by (simp add: COMMIT_flush_def fa s2_def)
    ultimately show ?thesis using nd f2 w(2) by (intro that(2)) simp_all
  next
    case True
    let ?b2 = "b\<lparr>m_os := s2, m_commits := insert i (m_commits b)\<rparr>"
    have r2: "os_resolve s2 = os_resolve (m_os b)" using t2 by (simp add: touches_def)
    obtain s3 where l: "logTransaction m_commit_log i (sp_file_attributes t) ?b2 = (Inr (), ?b2\<lparr>m_os := s3\<rparr>)"
      "touches {L} s2 s3"
      by (rule logTransaction_cases [of "sp_file_attributes t" m_commit_log i ?b2])
         (use inv r2 in \<open>simp_all add: txn_inv_def L_def\<close>)
    from l(2) f2 obtain x where f3: "os_files s3 K = Some ((contents K (m_os b) @ d) @ x)"
      unfolding touches_def by blast
    let ?c = "contents K (m_os b) @ d @ x"
    have "COMMIT_flush i k t fa p b = SET_ACK i k p
        (committed_state i t (int (length ?c)) (File_close ?f s3) b)"
      using opened(1) w(1) True l(1) f3
      by (cases b) (simp add: COMMIT_flush_def fa s2_def [symmetric] getFileSize_def committed_state_def Let_def)
    moreover have "touches {K, L} (m_os b) (File_close ?f s3)"
    proof (rule touches_trans [OF touches_mono [OF t2] touches_trans [OF touches_mono [OF l(2)]]])
      show "touches {K, L} s3 (File_close ?f s3)"
        using touches_mono [OF touches_close [of ?f s3]] by simp
    qed auto
    moreover have "os_durable (File_close ?f s3) K = Some ?c"
      using f3 by (simp add: File_close_def fsync_def)
    moreover have "?c = contents K (m_os b) @ commit_data (buffers t) (max_seq_num t)" if "K \<noteq> L"
      using l(2) that f2 f3 w(3) True unfolding touches_def by auto
    ultimately show ?thesis
      using nd f3 by (intro that(3) [of "File_close ?f s3" ?c]) simp_all
  qed
qed

subsection \<open>ABORT\<close>

lemma ABORT_cases:
  assumes "backend_inv b"
  obtains (committed) "i \<in> m_commits b" "ABORT (c, i, k, n, d) p b = SET_ERROR InvalidOperation i k b"
  | (unknown) "i \<notin> m_commits b" "m_txns b i = None"
      "ABORT (c, i, k, n, d) p b = SET_ERROR InvalidTransactionId i k b"
  | (aborted) t s where "i \<notin> m_commits b" "m_txns b i = Some t" "touches {log_key m_abort_log b} (m_os b) s"
      "ABORT (c, i, k, n, d) p b = SET_ACK i k False (removeTransaction i (b\<lparr>m_os := s\<rparr>))"
proof -
  consider "i \<in> m_commits b" | "i \<notin> m_commits b" "m_txns b i = None"
    | t where "i \<notin> m_commits b" "m_txns b i = Some t" by blast
  then show ?thesis
  proof cases
    case 1
    then show ?thesis by (intro committed) (simp_all add: command_defs)
  next
    case 2
    then show ?thesis by (intro unknown) (simp_all add: command_defs)
  next
    case (3 t)
    obtain fa where fa: "m_files b (sp_file_attributes t) = Some fa" "m_file_name fa = sp_file_attributes t"
      by (rule backend_inv_file [OF assms 3(2)])
    have nul: "nul_free (sp_file_attributes t)"
      using backend_inv_txn [OF assms 3(2)] by (simp add: txn_inv_def)
    obtain s where "logTransaction m_abort_log i (sp_file_attributes t) b = (Inr (), b\<lparr>m_os := s\<rparr>)"
      "touches {log_key m_abort_log b} (m_os b) s"
      by (rule logTransaction_cases [OF nul, of m_abort_log i b])
    with 3 fa show ?thesis by (intro aborted [of t s]) (simp_all add: command_defs ABORT_locked_def)
  qed
qed

subsection \<open>READ\<close>

lemma READ_cases:
  obtains (unopened) "os_denied (m_os b) (data_key f b) \<or> os_files (m_os b) (data_key f b) = None"
      "READ (c, i, k, n, f) p b = SET_ERROR ErrorOpeningFile i k b"
  | (huge) x where "os_files (m_os b) (data_key f b) = Some x" "int_max \<le> int (length x)"
  | (failed) rs where "READ (c, i, k, n, f) p b = SET_ERROR ErrorReadingFile i k (b\<lparr>m_os := (m_os b)\<lparr>os_reads := rs\<rparr>\<rparr>)"
      "\<not> os_denied (m_os b) (data_key f b)"
  | (read) x rs where "os_files (m_os b) (data_key f b) = Some x" "int (length x) < int_max"
      "\<not> os_denied (m_os b) (data_key f b)"
      "READ (c, i, k, n, f) p b = SET_READ i k (c_str x) p (b\<lparr>m_os := (m_os b)\<lparr>os_reads := rs\<rparr>\<rparr>)"
proof (cases "os_denied (m_os b) (data_key f b) \<or> os_files (m_os b) (data_key f b) = None")
  case True
  then show ?thesis by (intro unopened) (simp_all add: READ_def File_open_read)
next
  case False
  then obtain x where nd: "\<not> os_denied (m_os b) (data_key f b)" and x: "os_files (m_os b) (data_key f b) = Some x"
    by auto
  let ?f = "\<lparr>m_fd = data_key f b, m_flags = O_RDONLY\<rparr>"
  have o: "File_open (m_directory b @ f) O_RDONLY (m_os b) = (Some ?f, m_os b)"
    using nd x by (simp add: File_open_read)
  have cl: "File_close ?f s = s" for s
    by (simp add: File_close_def writable_def flag_defs)
  show ?thesis
  proof (cases "int (length x) < int_max")
    case False
    with x huge show ?thesis by auto
  next
    case True
    have fx: "os_files (m_os b) (m_fd ?f) = Some x" using x by simp
    show ?thesis
    proof (cases rule: File_read_cases [OF fx True])
      case (1 rs)
      with o cl show ?thesis by (intro read [OF x True nd]) (simp add: READ_def)
    next
      case (2 rs)
      with o cl nd show ?thesis by (intro failed) (simp_all add: READ_def)
    qed
  qed
qed

subsection \<open>On a system whose calls succeed\<close>

lemma write_buffers_quiet:
  assumes "first_missing bufs (initial_seq_num + 1) mx = None" "writable (m_flags f)"
    and "\<forall>j d. bufs j = Some d \<longrightarrow> nul_free d" "os_writes s = []"
  shows "write_buffers f bufs (initial_seq_num + 1) mx s = (Inr True, append_bytes (m_fd f) (commit_data bufs mx) s)"
proof -
  have all: "\<forall>j. initial_seq_num + 1 \<le> j \<longrightarrow> j \<le> mx \<longrightarrow> bufs j \<noteq> None"
    using assms(1) by (simp only: first_missing_None)
  have "\<forall>d \<in> set (map (\<lambda>j. the (bufs j)) [initial_seq_num + 1..mx]). nul_free d"
    using all assms(3) by fastforce
  from File_write_list_quiet [OF this assms(4,2)] show ?thesis
    by (simp add: write_buffers_list [OF all] commit_data_def)
qed

text \<open>
  The commit then succeeds, and the state of the system is known exactly: the data, one
  line in the commit log, both forced to disk.
\<close>

lemma COMMIT_flush_quiet:
  fixes b :: ServerBackend and i :: TxnId
  assumes fm: "first_missing (buffers t) (initial_seq_num + 1) (max_seq_num t) = None"
    and fa: "m_file_name fa = sp_file_attributes t" and inv: "txn_inv t"
  defines "f \<equiv> sp_file_attributes t"
  defines "K \<equiv> data_key f b" and "L \<equiv> log_key m_commit_log b"
  assumes quiet: "os_writes (m_os b) = []" and nd: "\<not> os_denied (m_os b) K" "\<not> os_denied (m_os b) L"
    and KL: "K \<noteq> L" and cwd: "os_resolve (m_os b) (c_str f) \<noteq> L"
  defines "c \<equiv> contents K (m_os b) @ commit_data (buffers t) (max_seq_num t)"
  defines "z \<equiv> (if os_resolve (m_os b) (c_str f) = K then int (length c) else getFileSize_path f (m_os b))"
  defines "lg \<equiv> contents L (m_os b) @ entry_text i f z"
  shows "COMMIT_flush i k t fa p b = SET_ACK i k p (committed_state i t (int (length c))
    ((m_os b)\<lparr>os_files := (os_files (m_os b))(K \<mapsto> c, L \<mapsto> lg),
              os_durable := (os_durable (m_os b))(L \<mapsto> lg, K \<mapsto> c)\<rparr>) b)"
proof -
  let ?f = "\<lparr>m_fd = K, m_flags = append_flags\<rparr>"
  define s1 where "s1 = (if os_files (m_os b) K = None then (m_os b)\<lparr>os_files := (os_files (m_os b))(K \<mapsto> [])\<rparr> else m_os b)"
  have o: "File_open (m_directory b @ f) append_flags (m_os b) = (Some ?f, s1)"
    using nd by (simp add: File_open_append_Some s1_def K_def Let_def)
  have nul: "\<forall>j d. buffers t j = Some d \<longrightarrow> nul_free d" "nul_free f" using inv by (simp_all add: txn_inv_def f_def)
  define s2 where "s2 = append_bytes K (commit_data (buffers t) (max_seq_num t)) s1"
  have w: "write_buffers ?f (buffers t) (initial_seq_num + 1) (max_seq_num t) s1 = (Inr True, s2)"
    using write_buffers_quiet [OF fm _ nul(1), of ?f s1] quiet by (simp add: s1_def s2_def)
  have s2: "s2 = (m_os b)\<lparr>os_files := (os_files (m_os b))(K \<mapsto> c)\<rparr>"
    by (auto simp: s2_def s1_def append_bytes_def c_def contents_def split: option.splits)
  let ?b2 = "b\<lparr>m_os := s2, m_commits := insert i (m_commits b)\<rparr>"
  have L2: "log_key m_commit_log ?b2 = L" "contents L s2 = contents L (m_os b)"
    using KL by (simp_all add: s2 L_def contents_def)
  have z2: "getFileSize_path f s2 = z" by (simp add: s2 z_def getFileSize_path_def)
  have l: "logTransaction m_commit_log i f ?b2 = (Inr (), ?b2\<lparr>m_os := s2\<lparr>
      os_files := (os_files s2)(L \<mapsto> lg), os_durable := (os_durable s2)(L \<mapsto> lg)\<rparr>\<rparr>)"
    using logTransaction_quiet [OF nul(2), of ?b2 m_commit_log i] L2 z2 quiet nd cwd by (simp add: s2 lg_def)
  show ?thesis
    using o w l KL
    by (cases b) (simp add: COMMIT_flush_def fa f_def [symmetric] getFileSize_def committed_state_def Let_def s2
        File_close_def fsync_def fun_upd_twist [of L K])
qed

lemma COMMIT_flush_quiet_ack:
  fixes b :: ServerBackend
  assumes fm: "first_missing (buffers t) (initial_seq_num + 1) (max_seq_num t) = None"
    and fa: "m_file_name fa = sp_file_attributes t" and inv: "txn_inv t" and f: "sp_file_attributes t = f"
    and quiet: "os_writes (m_os b) = []" and nd: "\<not> os_denied (m_os b) (data_key f b)" "\<not> os_denied (m_os b) (log_key m_commit_log b)"
    and KL: "data_key f b \<noteq> log_key m_commit_log b" and cwd: "os_resolve (m_os b) (c_str f) \<noteq> log_key m_commit_log b"
    and c: "c = contents (data_key f b) (m_os b) @ commit_data (buffers t) (max_seq_num t)"
  obtains s where "COMMIT_flush i k t fa p b = SET_ACK i k p (committed_state i t (int (length c)) s b)"
    and "os_files s (data_key f b) = Some c" and "os_resolve s = os_resolve (m_os b)"
    and "os_denied s = os_denied (m_os b)" and "os_reads s = os_reads (m_os b)"
proof -
  define s where "s = (m_os b)\<lparr>os_files := (os_files (m_os b))(data_key f b \<mapsto> c,
      log_key m_commit_log b \<mapsto> contents (log_key m_commit_log b) (m_os b) @ entry_text i f
        (if os_resolve (m_os b) (c_str f) = data_key f b then int (length c) else getFileSize_path f (m_os b))),
    os_durable := (os_durable (m_os b))(
      log_key m_commit_log b \<mapsto> contents (log_key m_commit_log b) (m_os b) @ entry_text i f
        (if os_resolve (m_os b) (c_str f) = data_key f b then int (length c) else getFileSize_path f (m_os b)),
      data_key f b \<mapsto> c)\<rparr>"
  have "COMMIT_flush i k t fa p b = SET_ACK i k p (committed_state i t (int (length c)) s b)"
    unfolding s_def c f [symmetric]
    by (rule COMMIT_flush_quiet [OF fm fa inv]) (use quiet nd KL cwd f in simp_all)
  then show ?thesis by (rule that) (use KL in \<open>simp_all add: s_def\<close>)
qed

end
