(* ===== verification/Backend_Safety.thy ===== *)
theory Backend_Safety
  imports Command_Cases
begin

text \<open>
  No command function, timer turn or restart leaves the invariant, and under it none
  reaches undefined behaviour, a failed assertion or an uncaught exception, whatever the
  system calls return. The two exceptions are stated with the theorem: a file of
  \<open>INT_MAX\<close> bytes or more cannot be read, and the search for a free identifier needs
  \<open>rand\<close> to hit one.
\<close>

subsection \<open>The search for an identifier\<close>

lemma candidate_id_Some:
  assumes "candidate_id rand i txns = Some x"
  shows "\<exists>j \<ge> i. x = int (rand j mod INT32_MAX) \<and> txns x = None
           \<and> (\<forall>l. i \<le> l \<longrightarrow> l < j \<longrightarrow> txns (int (rand l mod INT32_MAX)) \<noteq> None)"
proof (rule candidate_id.raw_induct
    [where P = "\<lambda>rand i txns x. \<exists>j \<ge> i. x = int (rand j mod INT32_MAX) \<and> txns x = None
           \<and> (\<forall>l. i \<le> l \<longrightarrow> l < j \<longrightarrow> txns (int (rand l mod INT32_MAX)) \<noteq> None)", OF _ assms])
  fix cand :: "(nat \<Rightarrow> nat) \<Rightarrow> nat \<Rightarrow> (TxnId \<rightharpoonup> TransactionAttributes) \<Rightarrow> TxnId option"
    and rand i txns x
  assume IH: "\<And>rand i txns x. cand rand i txns = Some x \<Longrightarrow>
      \<exists>j \<ge> i. x = int (rand j mod INT32_MAX) \<and> txns x = None
        \<and> (\<forall>l. i \<le> l \<longrightarrow> l < j \<longrightarrow> txns (int (rand l mod INT32_MAX)) \<noteq> None)"
    and eq: "(if txns (int (rand i mod INT32_MAX)) \<noteq> None then cand rand (Suc i) txns
              else Some (int (rand i mod INT32_MAX))) = Some x"
  show "\<exists>j \<ge> i. x = int (rand j mod INT32_MAX) \<and> txns x = None
        \<and> (\<forall>l. i \<le> l \<longrightarrow> l < j \<longrightarrow> txns (int (rand l mod INT32_MAX)) \<noteq> None)"
  proof (cases "txns (int (rand i mod INT32_MAX)) = None")
    case True
    with eq show ?thesis by (intro exI [of _ i]) auto
  next
    case False
    with eq IH obtain j where "j \<ge> Suc i" "x = int (rand j mod INT32_MAX)" "txns x = None"
      "\<forall>l. Suc i \<le> l \<longrightarrow> l < j \<longrightarrow> txns (int (rand l mod INT32_MAX)) \<noteq> None" by metis
    with False show ?thesis by (metis Suc_leD Suc_leI le_neq_implies_less)
  qed
qed

lemma candidate_id_range:
  assumes "candidate_id rand i txns = Some x"
  shows "txns x = None" "0 \<le> x" "x < int_max" "is_int x"
proof -
  from candidate_id_Some [OF assms] obtain j where "x = int (rand j mod INT32_MAX)" "txns x = None" by blast
  moreover have "rand j mod INT32_MAX < INT32_MAX" by (rule mod_less_divisor) (simp add: INT32_MAX_def)
  ultimately show "txns x = None" "0 \<le> x" "x < int_max" "is_int x"
    by (auto simp: INT32_MAX_def int_range_defs)
qed

lemma candidate_id_returns:
  assumes "txns (int (rand (i + n) mod INT32_MAX)) = None"
  shows "\<exists>x. candidate_id rand i txns = Some x"
  using assms
proof (induction n arbitrary: i)
  case 0
  then show ?case by (subst candidate_id.simps) simp
next
  case (Suc n)
  then show ?case by (subst candidate_id.simps) simp
qed

subsection \<open>NEW\_TXN\<close>

definition new_timer :: "TxnId \<Rightarrow> FileName \<Rightarrow> Timestamp \<Rightarrow> Timer" where
  "new_timer i f ts = \<lparr>timer_txn_id = i, timer_latest_timestamp = ts, timer_file_name = f\<rparr>"

definition started_state :: "TxnId \<Rightarrow> FileName \<Rightarrow> Timestamp \<Rightarrow> os \<Rightarrow> ServerBackend \<Rightarrow> ServerBackend" where
  "started_state i f ts s b =
     (with_new_transaction i f ts b)\<lparr>m_os := s, m_timers := m_timers b @ [new_timer i f ts]\<rparr>"

lemma started_state_simps [simp]:
  "m_txns (started_state i f ts s b) = (m_txns b)(i \<mapsto> getNewTransactionAttributes f ts)"
  "m_commits (started_state i f ts s b) = m_commits b"
  "m_os (started_state i f ts s b) = s"
  "m_directory (started_state i f ts s b) = m_directory b"
  "m_timers (started_state i f ts s b) = m_timers b @ [new_timer i f ts]"
  "m_initialize (started_state i f ts s b) = m_initialize b"
  by (simp_all add: started_state_def)

lemma started_state_inv:
  "backend_inv b \<Longrightarrow> m_txns b i = None \<Longrightarrow> is_int i \<Longrightarrow> nul_free f \<Longrightarrow> backend_inv (started_state i f ts s b)"
  by (simp add: started_state_def with_new_transaction_inv)

lemma addNewTransaction_started:
  assumes "m_txns b i = None" "nul_free f"
  obtains s where "addNewTransaction i f ts b = (Inr True, started_state i f ts s b)"
    and "touches {log_key m_transaction_log b} (m_os b) s"
  using addNewTransaction_cases [OF assms, of ts] by (auto simp: started_state_def new_timer_def)

lemma NEW_TXN_cases:
  assumes "nul_free f"
  obtains (bad_seq) "k \<noteq> 0" "NEW_TXN (c, i, k, n, f) e p b = SET_ERROR InvalidSequenceNumber i k b"
  | (stuck) "k = 0" "candidate_id (rands e) 0 (m_txns b) = None" "NEW_TXN (c, i, k, n, f) e p b = (Inl Diverges, b)"
  | (started) j s where "k = 0" "candidate_id (rands e) 0 (m_txns b) = Some j"
      "touches {log_key m_transaction_log b} (m_os b) s"
      "NEW_TXN (c, i, k, n, f) e p b = SET_NEW_TXN j p (started_state j f (now e) s b)"
proof (cases "k = 0")
  case False
  then show ?thesis by (intro bad_seq) (simp_all add: NEW_TXN_def)
next
  case True
  show ?thesis
  proof (cases "candidate_id (rands e) 0 (m_txns b)")
    case None
    with True show ?thesis by (intro stuck) (simp_all add: NEW_TXN_def)
  next
    case (Some j)
    obtain s where "addNewTransaction j f (now e) b = (Inr True, started_state j f (now e) s b)"
      "touches {log_key m_transaction_log b} (m_os b) s"
      by (rule addNewTransaction_started [OF candidate_id_range(1) [OF Some] assms])
    with True Some show ?thesis by (intro started [of j s]) (simp_all add: NEW_TXN_def)
  qed
qed

subsection \<open>One command\<close>

text \<open>The two ways out that the invariant does not exclude.\<close>

definition unreadable :: "FileName \<Rightarrow> ServerBackend \<Rightarrow> bool" where
  "unreadable f b = (int_max \<le> int (length (contents (data_key f b) (m_os b))))"

lemma WRITE_safe:
  assumes "backend_inv b" "request_ok req" "WRITE req e p b = (r, b')"
  shows "backend_inv b' \<and> (\<exists>x. r = Inr x)"
proof -
  obtain c i k n d where req: "req = (c, i, k, n, d)" by (cases req)
  with assms(2) have ok: "is_int k" "nul_free d" by simp_all
  show ?thesis
  proof (cases rule: WRITE_cases [of i b c k n d e p])
    case (repeated t)
    have "txn_inv (t\<lparr>curr_timestamp := now e\<rparr>)" using backend_inv_txn [OF assms(1) repeated(2)] by simp
    then have "backend_inv (with_txn i (t\<lparr>curr_timestamp := now e\<rparr>) b)"
      by (intro backend_inv_update_txn [OF assms(1) repeated(2)]) simp_all
    with repeated assms(3) show ?thesis by (auto simp: req reply_simps)
  next
    case (stored t)
    have "backend_inv (with_txn i (buffered k d (now e) t) b)"
      using backend_inv_txn [OF assms(1) stored(2)] ok
      by (intro backend_inv_update_txn [OF assms(1) stored(2)] txn_inv_buffered) simp_all
    with stored assms(3) show ?thesis by (auto simp: req reply_simps)
  qed (use assms in \<open>auto simp: req reply_simps\<close>)
qed

lemma COMMIT_safe:
  assumes "backend_inv b" "request_ok req" "COMMIT req e p b = (r, b')"
  shows "backend_inv b' \<and> (\<exists>x. r = Inr x)"
proof -
  obtain c i k n d where req: "req = (c, i, k, n, d)" by (cases req)
  with assms(2) have ok: "is_int k" by simp
  have closed: "backend_inv (with_txn i (closed_at k (now e) t) b)" "txn_inv (closed_at k (now e) t)"
    if "m_txns b i = Some t" "max_seq_num t \<le> k" for t
    using txn_inv_closed_at [OF backend_inv_txn [OF assms(1) that(1)] that(2) ok]
      backend_inv_update_txn [OF assms(1) that(1)] by simp_all
  from assms(1) show ?thesis
  proof (cases rule: COMMIT_cases [of b i c k n d e p])
    case (too_low t)
    have "backend_inv (with_txn i (t\<lparr>curr_timestamp := now e\<rparr>) b)"
      using backend_inv_txn [OF assms(1) too_low(2)]
      by (intro backend_inv_update_txn [OF assms(1) too_low(2)]) simp_all
    with too_low assms(3) show ?thesis by (auto simp: req reply_simps)
  next
    case (missing t m)
    with closed [of t] assms(3) show ?thesis by (auto simp: req reply_simps)
  next
    case (full t fa)
    let ?t = "closed_at k (now e) t" and ?b = "with_txn i (closed_at k (now e) t) b"
    have fl: "COMMIT_flush i k ?t fa p ?b = (r, b')" using full(7) assms(3) req by simp
    note inv = closed [OF full(2,3)]
    have fm: "first_missing (buffers ?t) (initial_seq_num + 1) (max_seq_num ?t) = None"
      "m_file_name fa = sp_file_attributes ?t" using full by simp_all
    show ?thesis
      by (cases rule: COMMIT_flush_cases [OF fm inv(2), of ?b i k p])
         (use fl inv committed_state_inv [OF inv(1)] in \<open>auto simp: reply_simps\<close>)
  qed (use assms in \<open>auto simp: req reply_simps\<close>)
qed

lemma ABORT_safe:
  assumes "backend_inv b" "ABORT req p b = (r, b')"
  shows "backend_inv b' \<and> (\<exists>x. r = Inr x)"
proof -
  obtain c i k n d where req: "req = (c, i, k, n, d)" by (cases req)
  from assms(1) show ?thesis
    by (cases rule: ABORT_cases [of b i c k n d p])
       (use assms in \<open>auto simp: req reply_simps intro!: removeTransaction_inv\<close>)
qed

lemma READ_safe:
  assumes "backend_inv b" "READ (c, i, k, n, f) p b = (r, b')"
  shows "backend_inv b' \<and> ((\<exists>x. r = Inr x) \<or> unreadable f b)"
proof (cases "unreadable f b")
  case True
  have "backend_inv (snd (READ (c, i, k, n, f) p b))"
    using assms(1) by (auto simp: READ_def reply_simps split: prod.splits sum.splits option.splits)
  with True assms(2) show ?thesis by simp
next
  case False
  then show ?thesis
    by (cases rule: READ_cases [of b f c i k n p])
       (use assms in \<open>auto simp: unreadable_def contents_def reply_simps\<close>)
qed

lemma NEW_TXN_safe:
  assumes "backend_inv b" "nul_free f" "NEW_TXN (c, i, k, n, f) e p b = (r, b')"
  shows "backend_inv b' \<and> ((\<exists>x. r = Inr x) \<or> candidate_id (rands e) 0 (m_txns b) = None)"
  using assms(2)
proof (cases rule: NEW_TXN_cases [of f k c i n e p b])
  case (started j s)
  have "backend_inv (started_state j f (now e) s b)"
    by (intro started_state_inv assms candidate_id_range [OF started(2)])
  with started assms(3) show ?thesis by (auto simp: reply_simps)
qed (use assms in \<open>auto simp: reply_simps\<close>)

lemma processCommand_inv:
  assumes "backend_inv b" "request_ok req" "processCommand req e p b = (r, b')"
  shows "backend_inv b'"
    and "(\<exists>x. r = Inr x) \<or> (case req of (c, i, k, n, f) \<Rightarrow>
           c = read_cmd \<and> unreadable f b
         \<or> c = new_txn_cmd \<and> candidate_id (rands e) 0 (m_txns b) = None)"
proof -
  obtain c i k n f where req: "req = (c, i, k, n, f)" by (cases req)
  with assms(2) have "nul_free f" by simp
  then have "backend_inv b' \<and> ((\<exists>x. r = Inr x) \<or> c = read_cmd \<and> unreadable f b
         \<or> c = new_txn_cmd \<and> candidate_id (rands e) 0 (m_txns b) = None)"
    using assms(3) READ_safe [OF assms(1), of c i k n f p r b'] WRITE_safe [OF assms(1,2), of e p r b']
      COMMIT_safe [OF assms(1,2), of e p r b'] ABORT_safe [OF assms(1), of req p r b']
      NEW_TXN_safe [OF assms(1), of f c i k n e p r b'] assms(1)
    by (auto simp: req processCommand_def reply_simps split: if_splits)
  then show "backend_inv b'" "(\<exists>x. r = Inr x) \<or> (case req of (c, i, k, n, f) \<Rightarrow>
           c = read_cmd \<and> unreadable f b
         \<or> c = new_txn_cmd \<and> candidate_id (rands e) 0 (m_txns b) = None)"
    by (auto simp: req)
qed

subsection \<open>Requests as the connection delivers them\<close>

lemma extract_string_chars:
  "nul_free (unread st) \<Longrightarrow> nul_free old \<Longrightarrow> nul_free (fst (extract_string old st))"
  by (auto simp: extract_string_def Let_def dest!: set_takeWhileD set_dropWhileD)

lemma is_int_zero [simp]: "is_int 0"
  by (simp add: int_range_defs)

lemma extract_cint_range: "is_int old \<Longrightarrow> is_int (fst (extract_cint old st))"
  using extract_int_range [of int_min old int_max st] is_int_zero by simp

lemma request_ok_parsed: "request_ok (getClientRequestAsTuple h p)"
proof (cases h)
  case None
  then show ?thesis by (simp add: getClientRequestAsTuple_def int_range_defs)
next
  case (Some header)
  obtain c i k n d where f: "extractRequestFields header = (c, i, k, n, d)"
    by (cases "extractRequestFields header")
  from f have "is_int i" "is_int k" "is_int n" "d = []"
    using extract_cint_range [OF is_int_zero]
    by (auto simp: extractRequestFields_def Let_def split: prod.splits) (metis fst_conv)+
  with Some f show ?thesis
    by (cases p) (simp_all add: getClientRequestAsTuple_def)
qed

subsection \<open>Replies\<close>

text \<open>Every reply of a command function fits the response header and decodes on the other side.\<close>

lemma reply_wf_error:
  "is_int i \<Longrightarrow> is_int k \<Longrightarrow> reply_wf (error_cmd, i, k, err, getErrorMessage err)"
  by (cases err) (simp_all add: consts_simps int_range_defs NUL_def command_token_def upper_or_underscore_def)

lemma reply_wf_short:
  "is_int i \<Longrightarrow> is_int k \<Longrightarrow> reply_wf (ack_cmd, i, k, nil, [])"
  "is_int i \<Longrightarrow> is_int k \<Longrightarrow> reply_wf (ask_resend_cmd, i, k, nil, [])"
  using known_commands by (simp_all add: consts_simps int_range_defs)

lemma length_c_str: "length (c_str x) \<le> length x"
  by (simp add: c_str_def length_takeWhile_le)

lemma reply_wf_data:
  "is_int i \<Longrightarrow> is_int k \<Longrightarrow> int (length x) < int_max \<Longrightarrow> reply_wf (ack_cmd, i, k, nil, c_str x)"
  using known_commands length_c_str [of x] by (simp add: consts_simps)

lemmas reply_wf_intros = reply_wf_error reply_wf_short reply_wf_data

lemma is_int_initial [simp]: "is_int initial_seq_num"
  by (simp add: consts_simps int_range_defs)

lemma processCommand_reply_wf:
  assumes "backend_inv b" "request_ok req" "processCommand req e p b = (Inr (reply, p'), b')"
    and "fst req = read_cmd \<Longrightarrow> \<not> unreadable (snd (snd (snd (snd req)))) b"
  shows "reply_wf reply"
proof -
  obtain c i k n f where req: "req = (c, i, k, n, f)" by (cases req)
  with assms(2) have ok: "is_int i" "is_int k" "nul_free f" by simp_all
  note intros = reply_wf_intros [OF ok(1,2)]
  note ps = assms(3) [unfolded req processCommand_def prod.case]
  have "reply_wf reply" if r: "READ req p b = (Inr (reply, p'), b')" "c = read_cmd"
    by (cases rule: READ_cases [of b f c i k n p])
       (use r assms(4) intros in \<open>auto simp: req reply_simps unreadable_def contents_def simp del: reply_wf.simps getErrorMessage.simps\<close>)
  moreover have "reply_wf reply" if r: "WRITE req e p b = (Inr (reply, p'), b')"
    by (cases rule: WRITE_cases [of i b c k n f e p])
       (use r intros in \<open>auto simp: req reply_simps simp del: reply_wf.simps getErrorMessage.simps\<close>)
  moreover have "reply_wf reply" if r: "ABORT req p b = (Inr (reply, p'), b')"
    by (cases rule: ABORT_cases [OF assms(1), of i c k n f p])
       (use r intros in \<open>auto simp: req reply_simps simp del: reply_wf.simps getErrorMessage.simps\<close>)
  moreover have "reply_wf reply" if r: "NEW_TXN req e p b = (Inr (reply, p'), b')"
    by (cases rule: NEW_TXN_cases [OF ok(3), of k c i n e p b])
       (use r ok in \<open>auto simp: req reply_simps simp del: reply_wf.simps getErrorMessage.simps
          intro!: reply_wf_intros dest: candidate_id_range\<close>)
  moreover have "reply_wf reply" if r: "COMMIT req e p b = (Inr (reply, p'), b')"
    using assms(1)
  proof (cases rule: COMMIT_cases [of b i c k n f e p])
    case (missing t m)
    have "is_int m"
      using first_missing_Some(1,2) [OF missing(4)] ok(2) by (simp add: consts_simps int_range_defs)
    with missing r ok show ?thesis
      by (auto simp: req reply_simps simp del: reply_wf.simps getErrorMessage.simps intro!: reply_wf_intros)
  next
    case (full t fa)
    let ?t = "closed_at k (now e) t"
    have fm: "first_missing (buffers ?t) (initial_seq_num + 1) (max_seq_num ?t) = None"
      "m_file_name fa = sp_file_attributes ?t" and ti: "txn_inv ?t"
      using full ok(2) backend_inv_txn [OF assms(1) full(2)] by (auto intro: txn_inv_closed_at)
    show ?thesis
      by (cases rule: COMMIT_flush_cases [OF fm ti, of "with_txn i ?t b" i k p])
         (use r full(7) intros in \<open>auto simp: req reply_simps simp del: reply_wf.simps getErrorMessage.simps\<close>)
  qed (use r intros in \<open>auto simp: req reply_simps simp del: reply_wf.simps getErrorMessage.simps\<close>)
  ultimately show ?thesis
    using ps intros by (auto simp: req reply_simps simp del: reply_wf.simps getErrorMessage.simps split: if_splits)
qed

subsection \<open>The timer\<close>

lemma txn_timer_turn_cases:
  assumes "nul_free (timer_file_name tm)"
  obtains (gone) "m_txns b (timer_txn_id tm) = None" "txn_timer_turn tm w b = (Inr None, b)"
  | (expired) t s where "m_txns b (timer_txn_id tm) = Some t" "w \<ge> curr_timestamp t + txn_timeout"
      "touches {log_key m_timeout_log b} (m_os b) s"
      "txn_timer_turn tm w b = (Inr None, (removeTransaction (timer_txn_id tm) b)\<lparr>m_os := s\<rparr>)"
  | (again) t where "m_txns b (timer_txn_id tm) = Some t" "w < curr_timestamp t + txn_timeout"
      "txn_timer_turn tm w b = (Inr (Some (tm\<lparr>timer_latest_timestamp := curr_timestamp t\<rparr>)), b)"
proof (cases "m_txns b (timer_txn_id tm)")
  case None
  then show ?thesis by (intro gone) (simp_all add: txn_timer_turn_def)
next
  case (Some t)
  let ?b = "removeTransaction (timer_txn_id tm) b"
  obtain s where s: "logTransaction m_timeout_log (timer_txn_id tm) (timer_file_name tm) ?b = (Inr (), ?b\<lparr>m_os := s\<rparr>)"
    "touches {log_key m_timeout_log ?b} (m_os ?b) s"
    by (rule logTransaction_cases [OF assms, of m_timeout_log "timer_txn_id tm" ?b])
  show ?thesis
  proof (cases "w \<ge> curr_timestamp t + txn_timeout")
    case True
    with Some s show ?thesis by (intro expired [of t s]) (simp_all add: txn_timer_turn_def)
  next
    case False
    with Some show ?thesis by (intro again [of t]) (simp_all add: txn_timer_turn_def)
  qed
qed

lemma txn_timer_turn_safe:
  assumes "backend_inv b" "nul_free (timer_file_name tm)" "txn_timer_turn tm w b = (r, b')"
  shows "backend_inv b' \<and> (\<exists>x. r = Inr x)"
  by (cases rule: txn_timer_turn_cases [OF assms(2), of b w])
     (use assms removeTransaction_inv in auto)

end
