(* ===== verification/Recovery_Facts.thy ===== *)
theory Recovery_Facts
  imports Backend_Safety
begin

text \<open>
  What restarting does, in terms of the log entries: printing and parsing an entry are
  inverse, a transaction is restarted exactly when its identifier occurs an odd number
  of times, and the size a file is cut back to is the largest one recorded.
\<close>

subsection \<open>Printing and parsing\<close>

fun entry_line :: "entry \<Rightarrow> string" where
  "entry_line (i, f, z) = entry_text i f z"

definition log_text :: "entry list \<Rightarrow> string" where
  "log_text es = concat (map entry_line es)"

definition plain_name :: "FileName \<Rightarrow> bool" where
  "plain_name f \<longleftrightarrow> f \<noteq> [] \<and> nul_free f \<and> (\<forall>c \<in> set f. \<not> is_space c)"

fun entry_ok :: "entry \<Rightarrow> bool" where
  "entry_ok (i, f, z) = (is_int i \<and> plain_name f \<and> is_llong z)"

lemma space_literals [simp]: "is_space (CHR '' '')" "is_space (CHR 0x0A)"
  "\<not> is_digit (CHR '' '')" "\<not> is_digit (CHR 0x0A)"
  by (simp_all add: is_space_def is_digit_def)

lemma read_entry_line:
  assumes "entry_ok (i, f, z)" "\<forall>c \<in> set sp. is_space c"
  shows "read_entry \<lparr>failbit = False, unread = sp @ entry_text i f z @ r\<rparr>
       = Some ((i, f, z), \<lparr>failbit = False, unread = ''\<newline>'' @ r\<rparr>)"
proof -
  have "extract_cint 0 \<lparr>failbit = False, unread = sp @ entry_text i f z @ r\<rparr>
      = (i, \<lparr>failbit = False, unread = '' '' @ f @ '' '' @ to_string z @ ''\<newline>'' @ r\<rparr>)"
    using extract_int_to_string [of int_min i int_max "'' '' @ f @ '' '' @ to_string z @ ''\<newline>'' @ r" sp 0] assms
    by (simp add: entry_text_def)
  moreover have "extract_string [] \<lparr>failbit = False, unread = '' '' @ f @ '' '' @ to_string z @ ''\<newline>'' @ r\<rparr>
      = (f, \<lparr>failbit = False, unread = '' '' @ to_string z @ ''\<newline>'' @ r\<rparr>)"
    using extract_string_token [of f "'' '' @ to_string z @ ''\<newline>'' @ r" "'' ''" "[]"] assms
    by (simp add: plain_name_def)
  moreover have "extract_cllong 0 \<lparr>failbit = False, unread = '' '' @ to_string z @ ''\<newline>'' @ r\<rparr>
      = (z, \<lparr>failbit = False, unread = ''\<newline>'' @ r\<rparr>)"
    using extract_int_to_string [of llong_min z llong_max "''\<newline>'' @ r" "'' ''" 0] assms by simp
  ultimately show ?thesis by (simp add: read_entry_def)
qed

lemma read_entries_lines:
  assumes "\<forall>e \<in> set es. entry_ok e" "\<forall>c \<in> set sp. is_space c"
  shows "read_entries \<lparr>failbit = False, unread = sp @ log_text es\<rparr> = es"
  using assms
proof (induction es arbitrary: sp)
  case Nil
  then have "read_entry \<lparr>failbit = False, unread = sp @ log_text []\<rparr> = None"
    by (simp add: read_entry_def log_text_def extract_int_def)
  then show ?case by (simp add: read_entries.simps)
next
  case (Cons e es)
  obtain i f z where e: "e = (i, f, z)" by (cases e)
  have "read_entry \<lparr>failbit = False, unread = sp @ log_text (e # es)\<rparr>
      = Some (e, \<lparr>failbit = False, unread = ''\<newline>'' @ log_text es\<rparr>)"
    using read_entry_line [of i f z sp "log_text es"] Cons.prems by (simp add: e log_text_def)
  then show ?case using Cons.IH [of "''\<newline>''"] Cons.prems by (simp add: read_entries.simps)
qed

lemma read_entries_log_text:
  "\<forall>e \<in> set es. entry_ok e \<Longrightarrow> read_entries (istringstream (log_text es)) = es"
  using read_entries_lines [of es "[]"] by (simp add: istringstream_def)

subsection \<open>The two maps\<close>

definition entries_of :: "TxnId \<Rightarrow> entry list \<Rightarrow> entry list" where
  "entries_of i es = filter (\<lambda>e. fst e = i) es"

definition sizes_of :: "FileName \<Rightarrow> entry list \<Rightarrow> FileSize list" where
  "sizes_of f es = map (\<lambda>e. snd (snd e)) (filter (\<lambda>e. fst (snd e) = f) es)"

lemma entries_of_simps [simp]:
  "entries_of i [] = []" "entries_of i (es @ es') = entries_of i es @ entries_of i es'"
  "entries_of i ((j, f, z) # es) = (if j = i then (j, f, z) # entries_of i es else entries_of i es)"
  by (simp_all add: entries_of_def)

lemma sizes_of_simps [simp]:
  "sizes_of f [] = []" "sizes_of f (es @ es') = sizes_of f es @ sizes_of f es'"
  "sizes_of f ((j, g, z) # es) = (if g = f then z # sizes_of f es else sizes_of f es)"
  by (simp_all add: sizes_of_def)

definition load_entries :: "entry list \<Rightarrow> FileNameFileSizeMap \<times> TxnIdFileNameMap" where
  "load_entries es = foldl load_entry ([], []) es"

lemma load_entries_snoc:
  "load_entries (es @ [(i, f, z)]) =
     (note_file_size f z (fst (load_entries es)), toggle_transaction i f (snd (load_entries es)))"
  by (cases "load_entries es") (simp add: load_entries_def)

text \<open>Parity: an odd number of entries leaves the transaction open, on the file last named.\<close>

lemma load_entries_txns:
  "map_of (snd (load_entries es)) i =
     (if odd (length (entries_of i es)) then Some (fst (snd (last (entries_of i es)))) else None)"
proof (induction es rule: rev_induct)
  case Nil
  show ?case by (simp add: load_entries_def)
next
  case (snoc e es)
  obtain j f z where e: "e = (j, f, z)" by (cases e)
  show ?case
    using snoc
    by (auto simp: e load_entries_snoc toggle_transaction_def update_conv' delete_conv' split: option.splits if_splits)
qed

lemma load_entries_sizes:
  "map_of (fst (load_entries es)) f =
     (if sizes_of f es = [] then None else Some (Max (set (sizes_of f es))))"
proof (induction es rule: rev_induct)
  case Nil
  show ?case by (simp add: load_entries_def)
next
  case (snoc e es)
  obtain j g z where e: "e = (j, g, z)" by (cases e)
  have "Max (insert z (set zs)) = max z (Max (set zs))" if "zs \<noteq> []" for z :: int and zs
    using that by simp
  with snoc show ?case
    by (auto simp: e load_entries_snoc note_file_size_def update_conv' max_def simp del: Max_less_iff
        split: option.splits if_splits)
qed

lemma load_entries_distinct:
  "distinct (map fst (fst (load_entries es)))" "distinct (map fst (snd (load_entries es)))"
proof -
  have "distinct (map fst (fst (load_entries es))) \<and> distinct (map fst (snd (load_entries es)))"
  proof (induction es rule: rev_induct)
    case Nil
    show ?case by (simp add: load_entries_def)
  next
    case (snoc e es)
    then show ?case
      by (cases e) (auto simp: load_entries_snoc note_file_size_def toggle_transaction_def
          intro: distinct_update distinct_delete split: option.splits)
  qed
  then show "distinct (map fst (fst (load_entries es)))" "distinct (map fst (snd (load_entries es)))" by auto
qed

subsection \<open>Reading and removing the logs\<close>

lemma log_text_simps [simp]:
  "log_text [] = []" "log_text (es @ es') = log_text es @ log_text es'"
  "log_text [(i, f, z)] = entry_text i f z"
  by (simp_all add: log_text_def)

lemma log_text_Nil_iff: "log_text es = [] \<longleftrightarrow> es = []"
  by (cases es) (auto simp: log_text_def entry_text_def)

definition without_files :: "string set \<Rightarrow> os \<Rightarrow> os" where
  "without_files ks s = s\<lparr>os_files := (\<lambda>k. if k \<in> ks then None else os_files s k)\<rparr>"

lemma without_files_simps [simp]:
  "os_resolve (without_files ks s) = os_resolve s" "os_denied (without_files ks s) = os_denied s"
  "os_frozen (without_files ks s) = os_frozen s" "os_reads (without_files ks s) = os_reads s"
  "os_writes (without_files ks s) = os_writes s" "os_durable (without_files ks s) = os_durable s"
  "os_files (without_files ks s) k = (if k \<in> ks then None else os_files s k)"
  by (simp_all add: without_files_def)

lemma load_log_text:
  assumes "\<not> os_denied s (os_resolve s l)" "\<not> os_frozen s (os_resolve s l)" "nul_free l"
    and "contents (os_resolve s l) s = log_text es" "\<forall>e \<in> set es. entry_ok e"
  shows "load_log l maps s = (Inr (foldl load_entry maps es), without_files {os_resolve s l} s)"
proof (cases "os_files s (os_resolve s l)")
  case None
  with assms(4) have "es = []" by (metis contents_def log_text_Nil_iff option.simps(4))
  moreover have "without_files {os_resolve s l} s = s"
  proof -
    have "(\<lambda>k. if k \<in> {os_resolve s l} then None else os_files s k) = os_files s" using None by auto
    then show ?thesis unfolding without_files_def by simp
  qed
  ultimately show ?thesis using None assms(1) by simp
next
  case (Some x)
  then have "read_entries (istringstream x) = es"
    using assms(4) read_entries_log_text [OF assms(5)] by (simp add: contents_def)
  moreover have "sys_remove l s = (True, without_files {os_resolve s l} s)"
    using Some assms(2,3) by (auto simp: sys_remove_def without_files_def fun_upd_def)
  ultimately show ?thesis using Some assms(1) by simp
qed

lemma load_logs_text:
  assumes "\<forall>l \<in> set ls. \<not> os_denied s (os_resolve s l) \<and> \<not> os_frozen s (os_resolve s l) \<and> nul_free l
             \<and> contents (os_resolve s l) s = log_text (es l) \<and> (\<forall>e \<in> set (es l). entry_ok e)"
    and "distinct (map (os_resolve s) ls)"
  shows "load_logs ls maps s =
     (Inr (foldl load_entry maps (concat (map es ls))), without_files (os_resolve s ` set ls) s)"
  using assms
proof (induction ls arbitrary: maps s)
  case Nil
  show ?case by (simp add: without_files_def)
next
  case (Cons l ls)
  let ?s = "without_files {os_resolve s l} s"
  have "load_log l maps s = (Inr (foldl load_entry maps (es l)), ?s)"
    using Cons.prems by (intro load_log_text) auto
  moreover have "load_logs ls (foldl load_entry maps (es l)) ?s =
      (Inr (foldl load_entry (foldl load_entry maps (es l)) (concat (map es ls))),
       without_files (os_resolve ?s ` set ls) ?s)"
  proof (rule Cons.IH)
    show "distinct (map (os_resolve ?s) ls)" using Cons.prems by simp
    from Cons.prems(2) have l: "os_resolve s l \<notin> os_resolve s ` set ls" by simp
    have "contents (os_resolve s l') ?s = contents (os_resolve s l') s" if "l' \<in> set ls" for l'
    proof -
      from l that have "os_resolve s l' \<noteq> os_resolve s l" by (metis imageI)
      then show ?thesis by (simp add: contents_def)
    qed
    then show "\<forall>l' \<in> set ls. \<not> os_denied ?s (os_resolve ?s l') \<and> \<not> os_frozen ?s (os_resolve ?s l') \<and> nul_free l'
             \<and> contents (os_resolve ?s l') ?s = log_text (es l') \<and> (\<forall>e \<in> set (es l'). entry_ok e)"
      using Cons.prems(1) by simp
  qed
  moreover have "without_files (os_resolve s ` set ls) ?s = without_files (os_resolve s ` set (l # ls)) s"
    unfolding without_files_def by (rule os.equality) (auto simp: fun_eq_iff)
  ultimately show ?case by simp
qed

subsection \<open>Cutting the files back\<close>

lemma truncateFiles_contents:
  assumes "distinct (map (\<lambda>(f, z). os_resolve s (c_str f)) szs)"
    and "\<forall>(f, z) \<in> set szs. \<not> os_frozen s (os_resolve s (c_str f)) \<and> 0 \<le> z
           \<and> z \<le> int (length (contents (os_resolve s (c_str f)) s))"
  shows "\<exists>fs. truncateFiles szs s = (Inr (), s\<lparr>os_files := fs\<rparr>)
     \<and> (\<forall>(f, z) \<in> set szs. contents (os_resolve s (c_str f)) (s\<lparr>os_files := fs\<rparr>)
           = take (nat z) (contents (os_resolve s (c_str f)) s))
     \<and> (\<forall>k. k \<notin> (\<lambda>(f, z). os_resolve s (c_str f)) ` set szs \<longrightarrow> fs k = os_files s k)"
  using assms
proof (induction szs arbitrary: s)
  case Nil
  show ?case by (intro exI [of _ "os_files s"]) simp
next
  case (Cons fz szs)
  obtain f z where fz: "fz = (f, z)" by (cases fz)
  let ?k = "os_resolve s (c_str f)"
  define x where "x = (if os_files s ?k = None then None
      else if 0 < z then Some (take (nat z) (contents ?k s)) else None)"
  let ?s = "s\<lparr>os_files := (os_files s)(?k := x)\<rparr>"
  have z: "0 \<le> z" "nat z \<le> length (contents ?k s)" "\<not> os_frozen s ?k" using Cons.prems(2) by (auto simp: fz)
  have same: "s\<lparr>os_files := (os_files s)(?k := os_files s ?k)\<rparr> = s" by simp
  have step: "truncateFiles (fz # szs) s = truncateFiles szs ?s"
    using z same by (auto simp: fz fileExists_def sys_truncate_def sys_remove_def x_def Let_def fun_upd_idem)
  have cx: "(case x of None \<Rightarrow> [] | Some c \<Rightarrow> c) = take (nat z) (contents ?k s)"
    using z(1) by (auto simp: x_def contents_def)
  have other: "os_resolve s (c_str g) \<noteq> ?k" if "(g, y) \<in> set szs" for g y
    using that Cons.prems(1) by (force simp: fz)
  have eqc: "contents k ?s = contents k s" if "k \<noteq> ?k" for k using that by (simp add: contents_def)
  have "distinct (map (\<lambda>(f, z). os_resolve ?s (c_str f)) szs)" using Cons.prems(1) by (simp add: fz)
  moreover have "\<forall>(f, z) \<in> set szs. \<not> os_frozen ?s (os_resolve ?s (c_str f)) \<and> 0 \<le> z
           \<and> z \<le> int (length (contents (os_resolve ?s (c_str f)) ?s))"
    using Cons.prems(2) other eqc by fastforce
  ultimately obtain fs where fs: "truncateFiles szs ?s = (Inr (), ?s\<lparr>os_files := fs\<rparr>)"
    "\<forall>(f, z) \<in> set szs. contents (os_resolve ?s (c_str f)) (?s\<lparr>os_files := fs\<rparr>)
           = take (nat z) (contents (os_resolve ?s (c_str f)) ?s)"
    "\<forall>k. k \<notin> (\<lambda>(f, z). os_resolve ?s (c_str f)) ` set szs \<longrightarrow> fs k = os_files ?s k"
    using Cons.IH [of ?s] by blast
  have "?k \<notin> (\<lambda>(f, z). os_resolve ?s (c_str f)) ` set szs"
  proof
    assume "?k \<in> (\<lambda>(f, z). os_resolve ?s (c_str f)) ` set szs"
    then obtain g y where "(g, y) \<in> set szs" "?k = os_resolve s (c_str g)" by auto
    with other show False by metis
  qed
  with fs(3) have "fs ?k = x" by simp
  then have "contents ?k (s\<lparr>os_files := fs\<rparr>) = take (nat z) (contents ?k s)"
    using cx by (simp add: contents_def)
  moreover have "\<forall>(f, z) \<in> set szs. contents (os_resolve s (c_str f)) (s\<lparr>os_files := fs\<rparr>)
           = take (nat z) (contents (os_resolve s (c_str f)) s)"
    using fs(2) other eqc by fastforce
  moreover have "\<forall>k. k \<notin> (\<lambda>(f, z). os_resolve s (c_str f)) ` set (fz # szs) \<longrightarrow> fs k = os_files s k"
    using fs(3) by (simp add: fz)
  ultimately show ?case
    using fs(1) step by (intro exI [of _ fs]) (simp add: fz)
qed

subsection \<open>Restarting the transactions\<close>

lemma restart_transactions_cases:
  assumes "backend_inv b" "distinct (map fst txns)"
    and "\<forall>(i, f) \<in> set txns. is_int i \<and> nul_free f \<and> m_txns b i = None"
  shows "\<exists>b'. restart_transactions txns ts b = (Inr (), b') \<and> backend_inv b'
     \<and> m_txns b' = m_txns b ++ (\<lambda>i. map_option (\<lambda>f. getNewTransactionAttributes f ts) (map_of txns i))
     \<and> touches {log_key m_transaction_log b} (m_os b) (m_os b')
     \<and> m_commits b' = m_commits b \<and> m_directory b' = m_directory b"
  using assms
proof (induction txns arbitrary: b)
  case Nil
  then show ?case by (simp add: map_add_def)
next
  case (Cons x txns)
  obtain i f where x: "x = (i, f)" by (cases x)
  with Cons.prems have i: "is_int i" "nul_free f" "m_txns b i = None" "i \<notin> fst ` set txns" by auto
  obtain s where s: "addNewTransaction i f ts b = (Inr True, started_state i f ts s b)"
    "touches {log_key m_transaction_log b} (m_os b) s"
    by (rule addNewTransaction_started [OF i(3,2)])
  let ?b = "started_state i f ts s b"
  have r: "os_resolve s = os_resolve (m_os b)" using s(2) by (simp add: touches_def)
  have inv: "backend_inv ?b" by (intro started_state_inv Cons.prems i)
  have d: "distinct (map fst txns)" using Cons.prems(2) by simp
  have new: "\<forall>(j, g) \<in> set txns. is_int j \<and> nul_free g \<and> m_txns ?b j = None"
    using Cons.prems(3) i(4) by (force simp: x)
  from Cons.IH [OF inv d new] obtain b' where b': "restart_transactions txns ts ?b = (Inr (), b')" "backend_inv b'"
    "m_txns b' = m_txns ?b ++ (\<lambda>i. map_option (\<lambda>f. getNewTransactionAttributes f ts) (map_of txns i))"
    "touches {log_key m_transaction_log ?b} (m_os ?b) (m_os b')"
    "m_commits b' = m_commits ?b" "m_directory b' = m_directory ?b" by blast
  have "m_txns b' = m_txns b ++ (\<lambda>j. map_option (\<lambda>f. getNewTransactionAttributes f ts) (map_of (x # txns) j))"
    using b'(3) i(4) by (auto simp: x map_add_def fun_eq_iff weak_map_of_SomeI split: option.splits dest!: map_of_SomeD)
       (force simp: map_of_eq_None_iff)+
  moreover have "touches {log_key m_transaction_log b} (m_os b) (m_os b')"
    using touches_trans [OF s(2)] b'(4) r by simp
  ultimately show ?case using b' s(1) by (simp add: x)
qed

end
