(* ===== verification/Site.thy ===== *)
theory Site
  imports Recovery_Facts
begin

text \<open>
  A well-behaved site: the server runs in its own directory, the names \<open>N\<close> its clients use
  are plain and name different files, none of them a log, and the system's calls succeed.
  These are the conditions under which the backend implements a transactional store and its
  logs describe its state; both are proved from the exact results of this theory.
\<close>

definition log_order :: "FileName list" where
  "log_order = [m_transaction_log, m_timeout_log, m_commit_log, m_abort_log]"

definition site :: "FileName set \<Rightarrow> ServerBackend \<Rightarrow> bool" where
  "site N b \<longleftrightarrow> quiet (m_os b) \<and> (\<forall>f \<in> N. plain_name f) \<and> N \<inter> set log_order = {}
     \<and> inj_on (\<lambda>f. data_key f b) (N \<union> set log_order)
     \<and> (\<forall>f \<in> N \<union> set log_order. os_resolve (m_os b) f = data_key f b
          \<and> \<not> os_denied (m_os b) (data_key f b) \<and> \<not> os_frozen (m_os b) (data_key f b))"

text \<open>The system after one entry has been logged.\<close>

definition logged :: "FileName \<Rightarrow> TxnId \<Rightarrow> FileName \<Rightarrow> ServerBackend \<Rightarrow> os" where
  "logged l i f b =
     (let lg = contents (log_key l b) (m_os b) @ entry_text i f (int (length (contents (data_key f b) (m_os b))))
      in (m_os b)\<lparr>os_files := (os_files (m_os b))(log_key l b \<mapsto> lg),
                 os_durable := (os_durable (m_os b))(log_key l b \<mapsto> lg)\<rparr>)"

lemma log_order_names [simp]: "m_transaction_log \<in> set log_order" "m_timeout_log \<in> set log_order"
  "m_commit_log \<in> set log_order" "m_abort_log \<in> set log_order"
  by (simp_all add: log_order_def)

lemma distinct_log_order: "distinct log_order"
  by (simp add: log_order_def consts_simps)

lemma nul_free_log: "l \<in> set log_order \<Longrightarrow> nul_free l"
  by (auto simp: log_order_def consts_simps NUL_def)

lemma siteD:
  assumes "site N b"
  shows "quiet (m_os b)" "os_writes (m_os b) = []" "os_reads (m_os b) = []"
    and "f \<in> N \<Longrightarrow> plain_name f" "f \<in> N \<Longrightarrow> nul_free f"
    and "f \<in> N \<Longrightarrow> f \<notin> set log_order"
    and "f \<in> N \<union> set log_order \<Longrightarrow> \<not> os_denied (m_os b) (data_key f b)"
    and "f \<in> N \<union> set log_order \<Longrightarrow> \<not> os_frozen (m_os b) (data_key f b)"
    and "f \<in> N \<union> set log_order \<Longrightarrow> os_resolve (m_os b) f = data_key f b"
    and "f \<in> N \<union> set log_order \<Longrightarrow> g \<in> N \<union> set log_order \<Longrightarrow> data_key f b = data_key g b \<longleftrightarrow> f = g"
  using assms by (auto simp: site_def quiet_def plain_name_def dest: inj_onD)

lemma site_key_log: "site N b \<Longrightarrow> f \<in> N \<Longrightarrow> l \<in> set log_order \<Longrightarrow> data_key f b \<noteq> log_key l b"
  using siteD(10) [of N b f l] siteD(6) [of N b f] by auto

lemma site_cong:
  assumes "m_directory b' = m_directory b" "os_resolve (m_os b') = os_resolve (m_os b)"
    "os_denied (m_os b') = os_denied (m_os b)" "os_frozen (m_os b') = os_frozen (m_os b)"
    "os_reads (m_os b') = os_reads (m_os b)" "os_writes (m_os b') = os_writes (m_os b)"
  shows "site N b' = site N b"
  by (simp add: site_def quiet_def assms)

lemma logged_simps [simp]:
  "os_resolve (logged l i f b) = os_resolve (m_os b)" "os_denied (logged l i f b) = os_denied (m_os b)"
  "os_frozen (logged l i f b) = os_frozen (m_os b)" "os_reads (logged l i f b) = os_reads (m_os b)"
  "os_writes (logged l i f b) = os_writes (m_os b)"
  "x \<noteq> log_key l b \<Longrightarrow> os_files (logged l i f b) x = os_files (m_os b) x"
  by (simp_all add: logged_def Let_def)

lemma contents_logged:
  "contents x (logged l i f b) = (if x = log_key l b
     then contents x (m_os b) @ entry_text i f (int (length (contents (data_key f b) (m_os b)))) else contents x (m_os b))"
  by (simp add: logged_def contents_def Let_def)

lemma getFileSize_path_contents: "getFileSize_path f s = int (length (contents (os_resolve s (c_str f)) s))"
  by (simp add: getFileSize_path_def contents_def split: option.split)

lemma site_resolve: "site N b \<Longrightarrow> f \<in> N \<Longrightarrow> os_resolve (m_os b) (c_str f) = data_key f b"
  using siteD(5,9) by simp

lemma logTransaction_site:
  assumes s: "site N b" and f: "f \<in> N" and l: "l \<in> set log_order"
  shows "logTransaction l i f b = (Inr (), b\<lparr>m_os := logged l i f b\<rparr>)"
proof -
  have "os_resolve (m_os b) (c_str f) \<noteq> log_key l b"
    using site_key_log [OF s f l] site_resolve [OF s f] by simp
  then have "logTransaction l i f b = (Inr (), b\<lparr>m_os := (m_os b)\<lparr>
           os_files := (os_files (m_os b))(log_key l b \<mapsto>
             contents (log_key l b) (m_os b) @ entry_text i f (getFileSize_path f (m_os b))),
           os_durable := (os_durable (m_os b))(log_key l b \<mapsto>
             contents (log_key l b) (m_os b) @ entry_text i f (getFileSize_path f (m_os b)))\<rparr>\<rparr>)"
    using siteD(5) [OF s f] siteD(2) [OF s] siteD(7) [OF s, of l] l by (intro logTransaction_quiet) auto
  then show ?thesis
    unfolding getFileSize_path_contents site_resolve [OF s f] by (simp add: logged_def Let_def)
qed

lemma NEW_TXN_site:
  assumes s: "site N b" and f: "f \<in> N" and j: "candidate_id (rands e) 0 (m_txns b) = Some j"
  shows "NEW_TXN (c, i, 0, n, f) e p b
       = SET_NEW_TXN j p (started_state j f (now e) (logged m_transaction_log j f b) b)"
proof -
  let ?b = "with_new_transaction j f (now e) b"
  have "site N ?b" using s by (simp add: site_def quiet_def)
  from logTransaction_site [OF this f, of m_transaction_log j]
  have "logTransaction m_transaction_log j f ?b = (Inr (), ?b\<lparr>m_os := logged m_transaction_log j f b\<rparr>)"
    by (simp add: logged_def)
  with j candidate_id_range(1) [OF j] show ?thesis
    by (simp add: NEW_TXN_def addNewTransaction_fresh started_state_def new_timer_def)
qed

lemma ABORT_site:
  assumes inv: "backend_inv b" and s: "site N b" and t: "m_txns b i = Some t" "sp_file_attributes t \<in> N" "i \<notin> m_commits b"
  shows "ABORT (c, i, k, n, d) p b
       = SET_ACK i k False (removeTransaction i (b\<lparr>m_os := logged m_abort_log i (sp_file_attributes t) b\<rparr>))"
proof -
  obtain fa where fa: "m_files b (sp_file_attributes t) = Some fa" "m_file_name fa = sp_file_attributes t"
    by (rule backend_inv_file [OF inv t(1)])
  have "logTransaction m_abort_log i (sp_file_attributes t) b
      = (Inr (), b\<lparr>m_os := logged m_abort_log i (sp_file_attributes t) b\<rparr>)"
    by (rule logTransaction_site [OF s t(2)]) simp
  with t fa show ?thesis by (simp add: command_defs ABORT_locked_def)
qed

lemma txn_timer_turn_site:
  assumes s: "site N b" and t: "m_txns b (timer_txn_id tm) = Some t" "timer_file_name tm \<in> N"
    and w: "w \<ge> curr_timestamp t + txn_timeout"
  shows "txn_timer_turn tm w b = (Inr None, (removeTransaction (timer_txn_id tm) b)
           \<lparr>m_os := logged m_timeout_log (timer_txn_id tm) (timer_file_name tm) b\<rparr>)"
proof -
  let ?b = "removeTransaction (timer_txn_id tm) b"
  have "site N ?b" using s by (simp add: site_def quiet_def)
  from logTransaction_site [OF this t(2), of m_timeout_log "timer_txn_id tm"]
  have "logTransaction m_timeout_log (timer_txn_id tm) (timer_file_name tm) ?b
      = (Inr (), ?b\<lparr>m_os := logged m_timeout_log (timer_txn_id tm) (timer_file_name tm) b\<rparr>)"
    by (simp add: logged_def)
  with t w show ?thesis by (simp add: txn_timer_turn_def)
qed

text \<open>The system after a commit of \<open>d\<close> to the file \<open>f\<close>.\<close>

definition committed_os :: "TxnId \<Rightarrow> FileName \<Rightarrow> string \<Rightarrow> ServerBackend \<Rightarrow> os" where
  "committed_os i f d b =
     (let K = data_key f b; L = log_key m_commit_log b; c = contents K (m_os b) @ d;
          lg = contents L (m_os b) @ entry_text i f (int (length c))
      in (m_os b)\<lparr>os_files := (os_files (m_os b))(K \<mapsto> c, L \<mapsto> lg),
                 os_durable := (os_durable (m_os b))(L \<mapsto> lg, K \<mapsto> c)\<rparr>)"

lemma committed_os_simps [simp]:
  "os_resolve (committed_os i f d b) = os_resolve (m_os b)" "os_denied (committed_os i f d b) = os_denied (m_os b)"
  "os_frozen (committed_os i f d b) = os_frozen (m_os b)" "os_reads (committed_os i f d b) = os_reads (m_os b)"
  "os_writes (committed_os i f d b) = os_writes (m_os b)"
  "x \<noteq> log_key m_commit_log b \<Longrightarrow> os_files (committed_os i f d b) x
     = (if x = data_key f b then Some (contents x (m_os b) @ d) else os_files (m_os b) x)"
  by (simp_all add: committed_os_def Let_def)

lemma contents_committed_os:
  "data_key f b \<noteq> log_key m_commit_log b \<Longrightarrow> contents x (committed_os i f d b) =
     (if x = log_key m_commit_log b
      then contents x (m_os b) @ entry_text i f (int (length (contents (data_key f b) (m_os b) @ d)))
      else if x = data_key f b then contents x (m_os b) @ d else contents x (m_os b))"
  by (auto simp: committed_os_def contents_def Let_def)

lemma COMMIT_flush_site:
  assumes s: "site N b" and fm: "first_missing (buffers t) (initial_seq_num + 1) (max_seq_num t) = None"
    and fa: "m_file_name fa = sp_file_attributes t" and inv: "txn_inv t" and f: "sp_file_attributes t \<in> N"
  shows "COMMIT_flush i k t fa p b = SET_ACK i k p (committed_state i t
     (int (length (contents (data_key (sp_file_attributes t) b) (m_os b) @ commit_data (buffers t) (max_seq_num t))))
     (committed_os i (sp_file_attributes t) (commit_data (buffers t) (max_seq_num t)) b) b)"
proof -
  let ?f = "sp_file_attributes t"
  have r: "os_resolve (m_os b) (c_str ?f) = data_key ?f b" by (rule site_resolve [OF s f])
  note d = siteD(7) [OF s, of ?f] siteD(7) [OF s, of m_commit_log] site_key_log [OF s f, of m_commit_log]
  show ?thesis
    using COMMIT_flush_quiet [OF fm fa inv, of b i k p] siteD(2) [OF s] d f r
    by (simp add: committed_os_def Let_def)
qed
end
