(* ===== verification/Command_Properties.thy ===== *)
theory Command_Properties
  imports Backend_Safety "HOL-Library.Multiset"
begin

text \<open>
  The functional behaviour of the commands: what a commit appends and when, what is
  asked for again, that nothing else changes, and the whole sequence of a transaction
  whose writes arrive in any order.
\<close>

subsection \<open>A concrete backend\<close>

text \<open>
  The witnesses run on a server in the directory \<open>d/\<close>, which is also its working directory:
  paths with and without the directory name the same file. Each name is a file of its own.
\<close>

definition demo_resolve :: "string \<Rightarrow> string" where
  "demo_resolve p = (if take 2 p = ''d/'' then drop 2 p else p)"

definition demo_os :: os where
  "demo_os = \<lparr>os_resolve = demo_resolve, os_files = [''f'' \<mapsto> ''old''], os_durable = [''f'' \<mapsto> ''old''],
     os_denied = (\<lambda>_. False), os_frozen = (\<lambda>_. False), os_reads = [], os_writes = []\<rparr>"

definition demo_txn :: TransactionAttributes where
  "demo_txn = getNewTransactionAttributes ''f'' 0"

definition demo_backend :: ServerBackend where
  "demo_backend = \<lparr>m_txns = [7 \<mapsto> demo_txn],
     m_files = [''f'' \<mapsto> \<lparr>m_file_name = ''f'', m_file_size = 3, m_use_count = 1\<rparr>],
     m_commits = {}, m_directory = ''d/'', m_initialize = False, m_timers = [], m_os = demo_os\<rparr>"

definition demo_env :: env where
  "demo_env = \<lparr>now = 5, rands = (\<lambda>n. n)\<rparr>"

lemma NUL_letters [simp]: "NUL \<noteq> CHR ''a''" "NUL \<noteq> CHR ''b''" "NUL \<noteq> CHR ''c''" "NUL \<noteq> CHR ''d''"
  "NUL \<noteq> CHR ''f''" "NUL \<noteq> CHR ''g''" "NUL \<noteq> CHR ''/''" "NUL \<noteq> CHR ''.''" "NUL \<noteq> CHR ''t''" "NUL \<noteq> CHR ''r''"
  "NUL \<noteq> CHR ''n''" "NUL \<noteq> CHR ''s''" "NUL \<noteq> CHR ''i''" "NUL \<noteq> CHR ''o''" "NUL \<noteq> CHR ''l''"
  "NUL \<noteq> CHR ''x''" "NUL \<noteq> CHR ''m''" "NUL \<noteq> CHR ''e''" "NUL \<noteq> CHR ''u''"
  by (simp_all add: NUL_def)

lemma demo_users: "users f (m_txns demo_backend) = (if f = ''f'' then {7} else {})"
  by (auto simp: users_def demo_backend_def demo_txn_def getNewTransactionAttributes_def)

lemma demo_backend_inv: "backend_inv demo_backend"
proof -
  have "txn_inv demo_txn" unfolding demo_txn_def by (intro txn_inv_new) simp
  moreover have "file_inv (m_txns demo_backend) f (m_files demo_backend f)" for f
    using demo_users [of f] by (auto simp: file_inv_def demo_backend_def)
  ultimately show ?thesis
    by (auto simp: backend_inv_def demo_backend_def int_range_defs split: if_splits)
qed

subsection \<open>Safety of a command\<close>

text \<open>
  C15. Whatever a client sends and whatever the system calls return, a command function
  answers, its answer fits the response header, and the backend's invariant is kept. The
  conditions are that a file to be read has less than \<open>INT_MAX\<close> bytes and that \<open>rand\<close>
  hits an identifier that is not in use.
\<close>

theorem processCommand_safe:
  assumes "backend_inv b" "request_ok req" "processCommand req e p b = (r, b')"
    and "fst req = read_cmd \<Longrightarrow> \<not> unreadable (snd (snd (snd (snd req)))) b"
    and "fst req = new_txn_cmd \<Longrightarrow> candidate_id (rands e) 0 (m_txns b) \<noteq> None"
  shows "backend_inv b' \<and> (\<exists>reply p'. r = Inr (reply, p') \<and> reply_wf reply)"
proof -
  obtain c i k n f where req: "req = (c, i, k, n, f)" by (cases req)
  have "\<exists>x. r = Inr x"
    using processCommand_inv(2) [OF assms(1-3)] assms(4,5) by (auto simp: req)
  then obtain reply p' where r: "r = Inr (reply, p')" by auto
  with assms(3) processCommand_reply_wf [OF assms(1,2)] assms(4) have "reply_wf reply" by blast
  with r processCommand_inv(1) [OF assms(1-3)] show ?thesis by blast
qed

theorem processCommand_safe_witness:
  "backend_inv (snd (processCommand (write_cmd, 7, 1, 1, ''a'') demo_env True demo_backend))"
  using processCommand_safe [of demo_backend "(write_cmd, 7, 1, 1, ''a'')" demo_env True
      "fst (processCommand (write_cmd, 7, 1, 1, ''a'') demo_env True demo_backend)"
      "snd (processCommand (write_cmd, 7, 1, 1, ''a'') demo_env True demo_backend)"]
    demo_backend_inv
  by (simp add: int_range_defs consts_simps)



subsection \<open>COMMIT\<close>

lemma reply_distinct [simp]: "error_cmd \<noteq> ack_cmd" "ack_cmd \<noteq> error_cmd" "ask_resend_cmd \<noteq> ack_cmd"
  "ack_cmd \<noteq> ask_resend_cmd" "error_cmd \<noteq> ask_resend_cmd" "ask_resend_cmd \<noteq> error_cmd"
  by (simp_all add: consts_simps)

lemma commit_flush_facts:
  assumes "backend_inv b" "is_int k" "m_txns b i = Some t" "max_seq_num t \<le> k"
  shows "txn_inv (closed_at k ts t)"
  using assms backend_inv_txn txn_inv_closed_at by blast

text \<open>
  C16. When COMMIT acknowledges a transaction that was not committed before, the data of
  sequence numbers 1 to \<open>k\<close> has been appended to the transaction's file in that order and
  forced to disk, no other file but the commit log has changed, and the transaction is
  recorded as committed and gone. This holds whatever the system calls returned, short
  writes included.
\<close>

theorem COMMIT_ack_appends:
  assumes inv: "backend_inv b" and k: "is_int k" and new: "i \<notin> m_commits b"
    and com: "COMMIT (c, i, k, n, d) e p b = (Inr ((ack_cmd, x), p'), b')"
    and t: "m_txns b i = Some t"
  defines "K \<equiv> data_key (sp_file_attributes t) b" and "L \<equiv> log_key m_commit_log b"
  assumes KL: "K \<noteq> L"
  shows "(\<forall>j. 1 \<le> j \<longrightarrow> j \<le> k \<longrightarrow> buffers t j \<noteq> None)
    \<and> os_files (m_os b') K = Some (contents K (m_os b) @ commit_data (buffers t) k)
    \<and> os_durable (m_os b') K = os_files (m_os b') K
    \<and> (\<forall>f. f \<noteq> K \<longrightarrow> f \<noteq> L \<longrightarrow> os_files (m_os b') f = os_files (m_os b) f)
    \<and> i \<in> m_commits b' \<and> m_txns b' = (m_txns b)(i := None)"
  using inv
proof (cases rule: COMMIT_cases [of b i c k n d e p])
  case (full t' fa)
  let ?t = "closed_at k (now e) t" and ?b = "with_txn i (closed_at k (now e) t) b"
  have [simp]: "t' = t" using full(2) t by simp
  note fl = full(7) [unfolded com, simplified, symmetric]
  have fm: "first_missing (buffers ?t) (initial_seq_num + 1) (max_seq_num ?t) = None"
    "m_file_name fa = sp_file_attributes ?t" using full by simp_all
  have ti: "txn_inv ?t" using commit_flush_facts [OF inv k full(2,3)] by simp
  have all: "\<forall>j. 1 \<le> j \<longrightarrow> j \<le> k \<longrightarrow> buffers t j \<noteq> None"
    using full(4) first_missing_None [of "buffers t" 1 k] by (simp add: consts_simps)
  from fm ti show ?thesis
  proof (cases rule: COMMIT_flush_cases [of ?t fa ?b i k p])
    case (flushed s w)
    then have "os_files s K = Some (contents K (m_os b) @ commit_data (buffers t) k)" "os_durable s K = os_files s K"
      using KL by (simp_all add: K_def L_def)
    moreover have "\<forall>f. f \<noteq> K \<longrightarrow> f \<noteq> L \<longrightarrow> os_files s f = os_files (m_os b) f"
      using flushed(2) by (simp add: K_def L_def touches_def)
    moreover have "b' = committed_state i ?t (int (length w)) s ?b"
      using flushed(6) fl by (simp add: reply_simps)
    ultimately show ?thesis using all by simp
  qed (use fl in \<open>simp_all add: reply_simps\<close>)
qed (use assms in \<open>simp_all add: reply_simps\<close>)

definition demo_full :: ServerBackend where
  "demo_full = snd (WRITE (write_cmd, 7, 2, 2, ''bb'') demo_env True
     (snd (WRITE (write_cmd, 7, 1, 1, ''a'') demo_env True demo_backend)))"

lemma demo_commit_ack:
  "fst (COMMIT (commit_cmd, 7, 2, 0, []) demo_env True demo_full) = Inr ((ack_cmd, 7, 2, nil, []), True)"
  by code_simp

lemma demo_full_inv: "backend_inv demo_full"
proof -
  have "backend_inv (snd (WRITE (write_cmd, 7, k, n, d) demo_env True b))"
    if "backend_inv b" "request_ok (write_cmd, 7, k, n, d)" for k n d b
    using WRITE_safe [OF that, of demo_env True] by (metis prod.collapse)
  then show ?thesis unfolding demo_full_def by (simp add: demo_backend_inv int_range_defs)
qed

lemma demo_full_txn: "\<exists>t. m_txns demo_full 7 = Some t \<and> sp_file_attributes t = ''f'' \<and> buffers t 1 = Some ''a''
    \<and> buffers t 2 = Some ''bb'' \<and> max_seq_num t = 2"
  by (simp add: demo_full_def demo_backend_def demo_txn_def getNewTransactionAttributes_def command_defs
      WRITE_locked_def reply_simps demo_env_def consts_simps)

lemma demo_full_rest: "m_commits demo_full = {}" "m_os demo_full = demo_os" "m_directory demo_full = ''d/''"
  by (simp_all add: demo_full_def demo_backend_def demo_txn_def getNewTransactionAttributes_def command_defs
      WRITE_locked_def reply_simps demo_env_def consts_simps)

theorem COMMIT_ack_appends_witness:
  "os_files (m_os (snd (COMMIT (commit_cmd, 7, 2, 0, []) demo_env True demo_full))) ''f'' = Some ''oldabb''"
proof -
  obtain t where t: "m_txns demo_full 7 = Some t" "sp_file_attributes t = ''f''" "buffers t 1 = Some ''a''"
    "buffers t 2 = Some ''bb''" using demo_full_txn by blast
  have key: "data_key ''f'' demo_full = ''f''" "log_key m_commit_log demo_full = ''.commitlog.txt''"
    by (simp_all add: demo_full_rest demo_os_def demo_resolve_def c_str_def NUL_def consts_simps)
  have "COMMIT (commit_cmd, 7, 2, 0, []) demo_env True demo_full
      = (Inr ((ack_cmd, 7, 2, nil, []), True), snd (COMMIT (commit_cmd, 7, 2, 0, []) demo_env True demo_full))"
    using demo_commit_ack by (metis prod.collapse)
  then have "os_files (m_os (snd (COMMIT (commit_cmd, 7, 2, 0, []) demo_env True demo_full))) ''f''
      = Some (contents ''f'' demo_os @ commit_data (buffers t) 2)"
    using COMMIT_ack_appends [OF demo_full_inv, of 2 7 commit_cmd 0 "[]" demo_env True _ True _ t] t key
    by (simp add: demo_full_rest int_range_defs)
  then show ?thesis
    using t by (simp add: contents_def demo_os_def commit_data_def consts_simps upto.simps)
qed



text \<open>
  A COMMIT of a committed transaction is acknowledged again and changes nothing, so a
  client that lost the acknowledgement may repeat the request.
\<close>

theorem COMMIT_idempotent:
  assumes inv: "backend_inv b" and k: "is_int k"
    and com: "COMMIT (c, i, k, n, d) e p b = (Inr ((ack_cmd, x), p'), b')"
  shows "COMMIT (c', i, k', n', d') e' p'' b' = (Inr ((ack_cmd, i, k', nil, []), p''), b')"
proof -
  have "i \<in> m_commits b'"
    using inv
  proof (cases rule: COMMIT_cases [of b i c k n d e p])
    case (full t fa)
    let ?t = "closed_at k (now e) t" and ?b = "with_txn i (closed_at k (now e) t) b"
    note fl = full(7) [unfolded com, symmetric]
    have fm: "first_missing (buffers ?t) (initial_seq_num + 1) (max_seq_num ?t) = None"
      "m_file_name fa = sp_file_attributes ?t" using full by simp_all
    have ti: "txn_inv ?t" by (rule commit_flush_facts [OF inv k full(2,3)])
    from fm ti show ?thesis
      by (cases rule: COMMIT_flush_cases [of ?t fa ?b i k p]) (use fl in \<open>simp_all add: reply_simps\<close>)
  qed (use com in \<open>simp_all add: reply_simps\<close>)
  then show ?thesis by (simp add: COMMIT_def reply_simps)
qed

theorem COMMIT_idempotent_witness:
  "fst (COMMIT (commit_cmd, 7, 9, 0, []) demo_env False
      (snd (COMMIT (commit_cmd, 7, 2, 0, []) demo_env True demo_full))) = Inr ((ack_cmd, 7, 9, nil, []), False)"
proof -
  have "COMMIT (commit_cmd, 7, 2, 0, []) demo_env True demo_full
      = (Inr ((ack_cmd, 7, 2, nil, []), True), snd (COMMIT (commit_cmd, 7, 2, 0, []) demo_env True demo_full))"
    using demo_commit_ack by (metis prod.collapse)
  from COMMIT_idempotent [OF demo_full_inv _ this, of commit_cmd 9 0 "[]" demo_env False]
  show ?thesis by (simp add: int_range_defs)
qed

subsection \<open>A whole transaction\<close>

definition run_writes :: "TxnId \<Rightarrow> (SeqNum \<times> Data) list \<Rightarrow> env \<Rightarrow> bool \<Rightarrow> ServerBackend \<Rightarrow> ServerBackend" where
  "run_writes i ws e p b =
     foldl (\<lambda>b (k, d). snd (WRITE (write_cmd, i, k, int (length d), d) e p b)) b ws"

lemma run_writes_state:
  assumes "i \<notin> m_commits b" "m_txns b i = Some t" "distinct (map fst ws)" "\<forall>k \<in> fst ` set ws. buffers t k = None"
  shows "\<exists>t'. run_writes i ws e p b = with_txn i t' b \<and> sp_file_attributes t' = sp_file_attributes t
    \<and> buffers t' = buffers t ++ map_of ws \<and> max_seq_num t' = fold max (map fst ws) (max_seq_num t)"
  using assms
proof (induction ws arbitrary: b t)
  case Nil
  then have "run_writes i [] e p b = with_txn i t b" by (simp add: run_writes_def fun_upd_idem)
  moreover have "buffers t = buffers t ++ map_of []" "max_seq_num t = fold max (map fst []) (max_seq_num t)" by simp_all
  ultimately show ?case by blast
next
  case (Cons kd ws)
  obtain k d where kd: "kd = (k, d)" by (cases kd)
  let ?t = "buffered k d (now e) t" and ?b = "with_txn i (buffered k d (now e) t) b"
  have none: "buffers t k = None" using Cons.prems(4) by (simp add: kd)
  have "WRITE (write_cmd, i, k, int (length d), d) e p b = SET_ACK i k p ?b"
    by (cases rule: WRITE_cases [of i b write_cmd k "int (length d)" d e p])
       (use Cons.prems(1,2) none in auto)
  then have step: "run_writes i (kd # ws) e p b = run_writes i ws e p ?b"
    by (simp add: run_writes_def kd reply_simps)
  have nones: "\<forall>k' \<in> fst ` set ws. buffers ?t k' = None"
    using Cons.prems(3,4) by (auto simp: kd)
  have c: "i \<notin> m_commits ?b" "m_txns ?b i = Some ?t" "distinct (map fst ws)"
    using Cons.prems(1,3) by simp_all
  from Cons.IH [OF c nones] obtain t' where t': "run_writes i ws e p ?b = with_txn i t' ?b"
    "sp_file_attributes t' = sp_file_attributes ?t" "buffers t' = buffers ?t ++ map_of ws"
    "max_seq_num t' = fold max (map fst ws) (max_seq_num ?t)" by blast
  have "k \<notin> dom (map_of ws)" using Cons.prems(3) by (auto simp: kd dom_map_of_conv_image_fst)
  then have "buffers t' = buffers t ++ map_of (kd # ws)"
    using t'(3) by (simp add: kd map_add_upd_left)
  moreover have "run_writes i (kd # ws) e p b = with_txn i t' b" using t'(1) step by simp
  moreover have "max_seq_num t' = fold max (map fst (kd # ws)) (max_seq_num t)" using t'(4) by (simp add: kd)
  ultimately show ?case using t'(2) by (metis buffered_simps(1))
qed

lemma fold_max_interval:
  assumes "set xs = {1..n}" "1 \<le> n"
  shows "fold max xs (1 :: int) = n"
proof -
  have "fold max xs (1 :: int) = Max (insert 1 (set xs))"
    using Max.set_eq_fold [of 1 xs] by (simp only: list.set)
  also have "insert 1 (set xs) = {1..n}" using assms by (simp add: insert_absorb)
  also have "Max {1..n} = n" using assms(2) by (intro Max_eqI) auto
  finally show ?thesis .
qed

lemma READ_quiet:
  assumes "os_reads (m_os b) = []" "os_files (m_os b) (data_key f b) = Some x" "int (length x) < int_max"
    and "\<not> os_denied (m_os b) (data_key f b)"
  shows "READ (c, i, k, n, f) p b = SET_READ i k (c_str x) p b"
proof -
  let ?f = "\<lparr>m_fd = data_key f b, m_flags = O_RDONLY\<rparr>"
  have "File_open (m_directory b @ f) O_RDONLY (m_os b) = (Some ?f, m_os b)"
    using assms by (simp add: File_open_read)
  moreover have "File_read ?f (m_os b) = (Inr (Some (c_str x)), m_os b)"
    using assms by (intro File_read_quiet) simp_all
  moreover have "File_close ?f s = s" for s by (simp add: File_close_def writable_def flag_defs)
  ultimately show ?thesis by (simp add: READ_def)
qed

text \<open>
  C3. The promise of the protocol: the writes 1 to \<open>n\<close> of a new transaction may arrive in any
  order; COMMIT with sequence number \<open>n\<close> is acknowledged, and a READ of the file then
  returns the old contents followed by the writes' data in the order of their sequence
  numbers.
\<close>

theorem write_commit_read_any_order:
  assumes inv: "backend_inv b" and t: "m_txns b i = Some (getNewTransactionAttributes f ts)" and i: "i \<notin> m_commits b"
    and ws: "mset (map fst ws) = mset [1..n]" "1 \<le> n" "n \<le> int_max" "\<forall>d \<in> snd ` set ws. nul_free d"
  defines "K \<equiv> data_key f b" and "L \<equiv> log_key m_commit_log b"
  assumes quiet: "quiet (m_os b)" "\<not> os_denied (m_os b) K" "\<not> os_denied (m_os b) L"
    and names: "K \<noteq> L" "os_resolve (m_os b) (c_str f) \<noteq> L"
  defines "new \<equiv> contents K (m_os b) @ concat (map (\<lambda>k. the (map_of ws k)) [1..n])"
  assumes data: "nul_free (contents K (m_os b))" "int (length new) < int_max"
  shows "\<exists>b'. COMMIT (commit_cmd, i, n, 0, []) e p (run_writes i ws e p b) = (Inr ((ack_cmd, i, n, nil, []), p), b')
    \<and> READ (read_cmd, j, k, 0, f) p b' = (Inr ((ack_cmd, j, k, nil, new), p), b')"
proof -
  have fs: "mset (map fst ws) = mset [1..n]" by (rule ws(1))
  then have set: "set (map fst ws) = {1..n}" and dist: "distinct (map fst ws)"
    by (metis set_mset_mset set_upto, metis distinct_upto mset_eq_imp_distinct_iff)
  obtain t' where t': "run_writes i ws e p b = with_txn i t' b" "sp_file_attributes t' = f"
    "buffers t' = map_of ws" "max_seq_num t' = n"
    using run_writes_state [OF i t dist, of e p] fold_max_interval [OF set ws(2)]
    by (auto simp: getNewTransactionAttributes_def consts_simps)
  let ?b = "with_txn i t' b" and ?t = "closed_at n (now e) t'"
  have ti: "txn_inv (getNewTransactionAttributes f ts)" by (rule backend_inv_txn [OF inv t])
  have "txn_inv t'"
    using ti ws set by (auto simp: txn_inv_def t' getNewTransactionAttributes_def finite_dom_map_of dest!: map_of_SomeD)
       (force simp: image_iff)+
  then have inv': "backend_inv ?b" "txn_inv ?t"
    using backend_inv_update_txn [OF inv t] ws(2,3)
    by (auto simp: t' getNewTransactionAttributes_def int_range_defs intro!: txn_inv_closed_at)
  have fm: "first_missing (buffers t') (initial_seq_num + 1) n = None"
    using set by (auto simp: first_missing_None t' consts_simps map_of_eq_None_iff)
  from inv'(1) obtain fa where fa: "m_file_name fa = f"
    and com: "COMMIT (commit_cmd, i, n, 0, []) e p ?b = COMMIT_flush i n ?t fa p (with_txn i ?t ?b)"
    by (rule COMMIT_cases [of ?b i commit_cmd n 0 "[]" e p]) (use i fm t' in auto)
  have cd: "contents K (m_os b) @ commit_data (buffers ?t) n = new"
    by (simp add: new_def commit_data_def t' consts_simps)
  obtain s where s: "COMMIT_flush i n ?t fa p (with_txn i ?t ?b)
      = SET_ACK i n p (committed_state i ?t (int (length new)) s (with_txn i ?t ?b))"
    "os_files s K = Some new" "os_resolve s = os_resolve (m_os b)" "os_denied s = os_denied (m_os b)" "os_reads s = []"
    by (rule COMMIT_flush_quiet_ack [of ?t fa f "with_txn i ?t ?b" new i n p])
       (use fm fa inv'(2) quiet names cd in \<open>simp_all add: t' K_def L_def quiet_def\<close>)
  let ?b' = "committed_state i ?t (int (length new)) s (with_txn i ?t ?b)"
  have "nul_free new"
    using data(1) ws(4) set by (auto simp: new_def map_of_eq_None_iff)
       (metis (no_types, lifting) atLeastAtMost_iff image_eqI map_of_SomeD option.sel option.exhaust_sel set_map snd_conv map_of_eq_None_iff)
  then have "READ (read_cmd, j, k, 0, f) p ?b' = SET_READ j k new p ?b'"
    using READ_quiet [of ?b' f new read_cmd j k 0 p] s data(2) quiet(2) by (simp add: K_def)
  with com s(1) t'(1) show ?thesis by (intro exI [of _ ?b']) (simp add: reply_simps)
qed

lemma demo_keys: "os_resolve demo_os ''d/f'' = ''f''"
  "os_resolve demo_os (c_str (CHR ''d'' # CHR ''/'' # m_commit_log)) = ''.commitlog.txt''"
  "data_key ''f'' demo_backend = ''f''" "log_key m_commit_log demo_backend = ''.commitlog.txt''"
  "os_resolve demo_os ''f'' = ''f''" "m_os demo_backend = demo_os" "m_directory demo_backend = ''d/''"
  by (simp_all add: demo_backend_def demo_os_def demo_resolve_def c_str_def NUL_def consts_simps)

theorem write_commit_read_any_order_witness:
  "\<exists>b'. COMMIT (commit_cmd, 7, 2, 0, []) demo_env True (run_writes 7 [(2, ''bb''), (1, ''a'')] demo_env True demo_backend)
      = (Inr ((ack_cmd, 7, 2, nil, []), True), b')
    \<and> READ (read_cmd, -1, 0, 0, ''f'') True b' = (Inr ((ack_cmd, -1, 0, nil, ''oldabb''), True), b')"
proof -
  have "m_txns demo_backend 7 = Some (getNewTransactionAttributes ''f'' 0)" "7 \<notin> m_commits demo_backend"
    by (simp_all add: demo_backend_def demo_txn_def)
  moreover have "quiet demo_os" "\<not> os_denied demo_os x" "contents ''f'' demo_os = ''old''" for x
    by (simp_all add: quiet_def demo_os_def contents_def)
  moreover have "mset (map fst [(2 :: int, ''bb''), (1, ''a'')]) = mset [1..2]"
    "concat (map (\<lambda>k. the (map_of [(2 :: int, ''bb''), (1, ''a'')] k)) [1..2]) = ''abb''"
    by (simp_all add: upto.simps)
  ultimately show ?thesis
    using write_commit_read_any_order [OF demo_backend_inv, of 7 "''f''" 0 "[(2, ''bb''), (1, ''a'')]" 2 demo_env True "-1" 0]
    by (simp add: demo_keys int_range_defs del: mset_map)
qed

subsection \<open>What a command leaves alone\<close>

lemma processCommand_others:
  assumes inv: "backend_inv b" and ok: "request_ok (c, i, k, n, f)"
    and pc: "processCommand (c, i, k, n, f) e p b = (r, b')" and j: "m_txns b j = Some t" "j \<noteq> i"
  shows "m_txns b' j = Some t"
proof -
  have fl: "m_txns (snd (COMMIT_flush i k u fa p (with_txn i u b))) j = Some t"
    if "first_missing (buffers u) (initial_seq_num + 1) (max_seq_num u) = None" "m_file_name fa = sp_file_attributes u"
      "txn_inv u" for u fa
    by (cases rule: COMMIT_flush_cases [OF that, of "with_txn i u b" i k p])
       (use j in \<open>simp_all add: reply_simps\<close>)
  have nul: "nul_free f" using ok by simp
  have "m_txns (snd (COMMIT (c, i, k, n, f) e p b)) j = Some t"
    using inv
  proof (cases rule: COMMIT_cases [of b i c k n f e p])
    case (full u fa)
    then show ?thesis
      using fl [of "closed_at k (now e) u" fa] commit_flush_facts [OF inv _ full(2,3)] ok by simp
  qed (use j in \<open>simp_all add: reply_simps\<close>)
  moreover have "m_txns (snd (WRITE (c, i, k, n, f) e p b)) j = Some t"
    by (cases rule: WRITE_cases [of i b c k n f e p]) (use j in \<open>simp_all add: reply_simps\<close>)
  moreover have "m_txns (snd (ABORT (c, i, k, n, f) p b)) j = Some t"
    by (cases rule: ABORT_cases [OF inv, of i c k n f p]) (use j in \<open>simp_all add: reply_simps\<close>)
  moreover have "m_txns (snd (NEW_TXN (c, i, k, n, f) e p b)) j = Some t"
    by (cases rule: NEW_TXN_cases [OF nul, of k c i n e p b])
       (use j in \<open>auto simp: reply_simps dest: candidate_id_range(1)\<close>)
  moreover have "m_txns (snd (READ (c, i, k, n, f) p b)) j = Some t"
    using j by (auto simp: READ_def reply_simps split: prod.splits option.splits sum.splits)
  ultimately show ?thesis
    using pc j by (auto simp: processCommand_def reply_simps split: if_splits)
qed

text \<open>
  C18. Isolation: a request for transaction \<open>i\<close>, whatever its command and outcome, leaves every
  other open transaction exactly as it was, its buffered writes included.
\<close>

theorem transactions_isolated:
  assumes "backend_inv b" "request_ok req" "processCommand req e p b = (r, b')"
    and "m_txns b j = Some t" "j \<noteq> fst (snd req)"
  shows "m_txns b' j = Some t"
  using assms processCommand_others [of b _ _ _ _ _ e p r b' j t] by (cases req) simp

theorem transactions_isolated_witness:
  "m_txns (snd (processCommand (abort_cmd, 3, 0, 0, []) demo_env True demo_backend)) 7 = Some demo_txn"
proof (rule transactions_isolated [OF demo_backend_inv, of "(abort_cmd, 3, 0, 0, [])" demo_env True
      "fst (processCommand (abort_cmd, 3, 0, 0, []) demo_env True demo_backend)"])
  show "m_txns demo_backend 7 = Some demo_txn" by (simp add: demo_backend_def)
qed (simp_all add: int_range_defs)

lemma File_read_frame: "snd (File_read f s) = s\<lparr>os_reads := os_reads (snd (File_read f s))\<rparr>"
proof (cases "getFileSize f s")
  case (Inr z)
  let ?n = "sint (word_of_int z :: 32 word)"
  obtain b s' off where b: "readFileDescriptor (file_sys_read (m_fd f)) no_wait (nat ?n) 0 (s, 0) = (b, (s', off))"
    by (metis prod_cases3)
  have "s'\<lparr>os_reads := []\<rparr> = s\<lparr>os_reads := []\<rparr>"
    using b file_rd.read_success(3) [of "m_fd f" "nat ?n" 0 "(s, 0)"]
      file_rd.read_failure(2) [of "m_fd f" "nat ?n" 0 "(s, 0)"] by (cases b) auto
  then have "s' = s\<lparr>os_reads := os_reads s'\<rparr>" by (cases s; cases s') simp
  with Inr b show ?thesis by (cases b) (simp_all add: File_read_def Let_def)
qed (simp add: File_read_def)

lemma READ_frame: "\<exists>rs. snd (READ req p b) = b\<lparr>m_os := (m_os b)\<lparr>os_reads := rs\<rparr>\<rparr>"
proof -
  obtain c i k n f where req: "req = (c, i, k, n, f)" by (cases req)
  let ?f = "\<lparr>m_fd = data_key f b, m_flags = O_RDONLY\<rparr>"
  have cl: "File_close ?f s = s" for s by (simp add: File_close_def writable_def flag_defs)
  obtain r s where rs: "File_read ?f (m_os b) = (r, s)" by (cases "File_read ?f (m_os b)")
  have s: "s = (m_os b)\<lparr>os_reads := os_reads s\<rparr>" using File_read_frame [of ?f "m_os b"] rs by simp
  have "snd (READ req p b) = b\<lparr>m_os := m_os b\<rparr> \<or> snd (READ req p b) = b\<lparr>m_os := s\<rparr>"
    using rs cl by (auto simp: req READ_def File_open_read Let_def reply_simps split: sum.splits option.splits)
  then show ?thesis
  proof
    assume "snd (READ req p b) = b\<lparr>m_os := m_os b\<rparr>"
    then show ?thesis by (intro exI [of _ "os_reads (m_os b)"]) simp
  next
    assume "snd (READ req p b) = b\<lparr>m_os := s\<rparr>"
    then show ?thesis using s by metis
  qed
qed

text \<open>
  C19. Only COMMIT changes a data file: every other command leaves every file but the logs
  as it was.
\<close>

theorem only_COMMIT_changes_files:
  assumes inv: "backend_inv b" and ok: "request_ok req" and pc: "processCommand req e p b = (r, b')"
    and c: "fst req \<noteq> commit_cmd" and x: "x \<noteq> log_key m_transaction_log b" "x \<noteq> log_key m_abort_log b"
  shows "os_files (m_os b') x = os_files (m_os b) x"
proof -
  obtain c i k n f where req: "req = (c, i, k, n, f)" by (cases req)
  then have nul: "nul_free f" using ok by simp
  have "os_files (m_os (snd (WRITE req e p b))) x = os_files (m_os b) x"
    unfolding req by (cases rule: WRITE_cases [of i b c k n f e p]) (simp_all add: reply_simps)
  moreover have "os_files (m_os (snd (ABORT req p b))) x = os_files (m_os b) x"
    unfolding req by (cases rule: ABORT_cases [OF inv, of i c k n f p])
       (use x in \<open>auto simp: reply_simps touches_def\<close>)
  moreover have "os_files (m_os (snd (NEW_TXN req e p b))) x = os_files (m_os b) x"
    unfolding req by (cases rule: NEW_TXN_cases [OF nul, of k c i n e p b])
       (use x in \<open>auto simp: reply_simps touches_def\<close>)
  moreover have "os_files (m_os (snd (READ req p b))) x = os_files (m_os b) x"
    using READ_frame [of req p b] by auto
  ultimately show ?thesis
    using pc c by (auto simp: req processCommand_def reply_simps split: if_splits)
qed

theorem only_COMMIT_changes_files_witness:
  "os_files (m_os (snd (processCommand (write_cmd, 7, 1, 1, ''a'') demo_env True demo_backend))) ''f'' = Some ''old''"
proof -
  have "os_files (m_os (snd (processCommand (write_cmd, 7, 1, 1, ''a'') demo_env True demo_backend))) ''f''
      = os_files (m_os demo_backend) ''f''"
    by (rule only_COMMIT_changes_files [OF demo_backend_inv, of "(write_cmd, 7, 1, 1, ''a'')" demo_env True
          "fst (processCommand (write_cmd, 7, 1, 1, ''a'') demo_env True demo_backend)"])
       (simp_all add: int_range_defs consts_simps demo_backend_def demo_os_def demo_resolve_def c_str_def)
  then show ?thesis by (simp add: demo_backend_def demo_os_def)
qed

subsection \<open>Initialisation is over once it is over\<close>

lemma processCommand_members:
  assumes inv: "backend_inv b" and ok: "request_ok req" and pc: "processCommand req e p b = (r, b')"
  shows "m_initialize b' = m_initialize b" and "m_directory b' = m_directory b"
proof -
  obtain c i k n f where req: "req = (c, i, k, n, f)" by (cases req)
  with ok have k: "is_int k" "nul_free f" by simp_all
  have "m_initialize (snd (READ req p b)) = m_initialize b \<and> m_directory (snd (READ req p b)) = m_directory b" using READ_frame [of req p b] by auto
  moreover have "m_initialize (snd (WRITE req e p b)) = m_initialize b \<and> m_directory (snd (WRITE req e p b)) = m_directory b"
    unfolding req by (cases rule: WRITE_cases [of i b c k n f e p]) (simp_all add: reply_simps)
  moreover have "m_initialize (snd (ABORT req p b)) = m_initialize b \<and> m_directory (snd (ABORT req p b)) = m_directory b"
    unfolding req by (cases rule: ABORT_cases [OF inv, of i c k n f p]) (simp_all add: reply_simps)
  moreover have "m_initialize (snd (NEW_TXN req e p b)) = m_initialize b \<and> m_directory (snd (NEW_TXN req e p b)) = m_directory b"
    unfolding req by (cases rule: NEW_TXN_cases [OF k(2), of k c i n e p b]) (simp_all add: reply_simps)
  moreover have "m_initialize (snd (COMMIT req e p b)) = m_initialize b \<and> m_directory (snd (COMMIT req e p b)) = m_directory b"
    using inv unfolding req
  proof (cases rule: COMMIT_cases [of b i c k n f e p])
    case (full t fa)
    let ?t = "closed_at k (now e) t"
    have fm: "first_missing (buffers ?t) (initial_seq_num + 1) (max_seq_num ?t) = None"
      "m_file_name fa = sp_file_attributes ?t" using full by simp_all
    show "m_initialize (snd (COMMIT (c, i, k, n, f) e p b)) = m_initialize b \<and> m_directory (snd (COMMIT (c, i, k, n, f) e p b)) = m_directory b"
      by (cases rule: COMMIT_flush_cases [OF fm commit_flush_facts [OF inv k(1) full(2,3)], of "with_txn i ?t b" i k p])
         (use full(7) in \<open>simp_all add: reply_simps\<close>)
  qed (simp_all add: reply_simps)
  ultimately show "m_initialize b' = m_initialize b" "m_directory b' = m_directory b"
    using pc by (auto simp: req processCommand_def reply_simps split: if_splits)
qed

end
