(* ===== verification/Transaction_Spec.thy ===== *)
theory Transaction_Spec
  imports Site Command_Properties
begin

text \<open>
  What the server promises, as an abstract transactional store: files are strings, an open
  transaction is a file name with a set of numbered writes, and commit appends them in
  order. \<open>spec_step\<close> is one request; it knows nothing of attribute objects, time
  stamps, logs or system calls. The backend refines it: on a well-behaved site every
  request gets the specified reply and leads to the specified store.
\<close>

record open_txn =
  o_file :: FileName
  o_writes :: BufferMap
  o_last :: SeqNum

record store =
  st_files :: "FileName \<rightharpoonup> string"
  st_open :: "TxnId \<rightharpoonup> open_txn"
  st_done :: "TxnId set"

definition spec_error :: "error \<Rightarrow> TxnId \<Rightarrow> SeqNum \<Rightarrow> Reply" where
  "spec_error err i k = (error_cmd, i, k, err, getErrorMessage err)"

definition gaps :: "BufferMap \<Rightarrow> SeqNum \<Rightarrow> SeqNum set" where
  "gaps w k = {m \<in> {1..k}. w m = None}"

definition spec_read :: "TxnId \<Rightarrow> SeqNum \<Rightarrow> FileName \<Rightarrow> store \<Rightarrow> Reply \<times> store" where
  "spec_read i k f st =
     (case st_files st f of
        None \<Rightarrow> (spec_error ErrorOpeningFile i k, st)
      | Some c \<Rightarrow> ((ack_cmd, i, k, nil, c_str c), st))"

definition spec_new :: "TxnId \<Rightarrow> TxnId \<Rightarrow> SeqNum \<Rightarrow> FileName \<Rightarrow> store \<Rightarrow> Reply \<times> store" where
  "spec_new j i k f st =
     (if k = 0 then ((ack_cmd, j, 0, nil, []),
        st\<lparr>st_open := (st_open st)(j \<mapsto> \<lparr>o_file = f, o_writes = Map.empty, o_last = 1\<rparr>)\<rparr>)
      else (spec_error InvalidSequenceNumber i k, st))"

definition spec_write :: "TxnId \<Rightarrow> SeqNum \<Rightarrow> Data \<Rightarrow> store \<Rightarrow> Reply \<times> store" where
  "spec_write i k d st =
     (if i \<in> st_done st then (spec_error InvalidOperation i k, st)
      else case st_open st i of
        None \<Rightarrow> (spec_error InvalidTransactionId i k, st)
      | Some t \<Rightarrow>
          if k \<in> dom (o_writes t) then (spec_error RepeatedSequenceNumber i k, st)
          else ((ack_cmd, i, k, nil, []), st\<lparr>st_open := (st_open st)(i \<mapsto>
                 t\<lparr>o_writes := (o_writes t)(k \<mapsto> d), o_last := max k (o_last t)\<rparr>)\<rparr>))"

definition spec_commit :: "TxnId \<Rightarrow> SeqNum \<Rightarrow> store \<Rightarrow> Reply \<times> store" where
  "spec_commit i k st =
     (if i \<in> st_done st then ((ack_cmd, i, k, nil, []), st)
      else case st_open st i of
        None \<Rightarrow> (spec_error InvalidTransactionId i k, st)
      | Some t \<Rightarrow>
          if k < o_last t then (spec_error CommitWithInvalidSequenceNumber i k, st)
          else if gaps (o_writes t) k \<noteq> {} then
            ((ask_resend_cmd, i, Min (gaps (o_writes t) k), nil, []),
             st\<lparr>st_open := (st_open st)(i \<mapsto> t\<lparr>o_last := k\<rparr>)\<rparr>)
          else
            ((ack_cmd, i, k, nil, []),
             st\<lparr>st_files := (st_files st)(o_file t \<mapsto>
                  (case st_files st (o_file t) of None \<Rightarrow> [] | Some c \<Rightarrow> c)
                  @ concat (map (\<lambda>m. the (o_writes t m)) [1..k])),
                st_open := (st_open st)(i := None), st_done := insert i (st_done st)\<rparr>))"

definition spec_abort :: "TxnId \<Rightarrow> SeqNum \<Rightarrow> store \<Rightarrow> Reply \<times> store" where
  "spec_abort i k st =
     (if i \<in> st_done st then (spec_error InvalidOperation i k, st)
      else case st_open st i of
        None \<Rightarrow> (spec_error InvalidTransactionId i k, st)
      | Some t \<Rightarrow> ((ack_cmd, i, k, nil, []), st\<lparr>st_open := (st_open st)(i := None)\<rparr>))"

text \<open>\<open>j\<close> is the identifier chosen if a transaction is started.\<close>

fun spec_step :: "TxnId \<Rightarrow> RequestTuple \<Rightarrow> store \<Rightarrow> Reply \<times> store" where
  "spec_step j (c, i, k, n, d) st =
     (if c = read_cmd then spec_read i k d st
      else if c = new_txn_cmd then spec_new j i k d st
      else if c = write_cmd then spec_write i k d st
      else if c = commit_cmd then spec_commit i k st
      else if c = abort_cmd then spec_abort i k st
      else (spec_error InvalidCommand i k, st))"

subsection \<open>The abstraction\<close>

definition abs_txn :: "TransactionAttributes \<Rightarrow> open_txn" where
  "abs_txn t = \<lparr>o_file = sp_file_attributes t, o_writes = buffers t, o_last = max_seq_num t\<rparr>"

definition abs_store :: "FileName set \<Rightarrow> ServerBackend \<Rightarrow> store" where
  "abs_store N b =
     \<lparr>st_files = (\<lambda>f. if f \<in> N then os_files (m_os b) (data_key f b) else None),
      st_open = map_option abs_txn \<circ> m_txns b, st_done = m_commits b\<rparr>"

text \<open>A backend on a well-behaved site whose transactions use the site's names.\<close>

definition good :: "FileName set \<Rightarrow> ServerBackend \<Rightarrow> bool" where
  "good N b \<longleftrightarrow> backend_inv b \<and> site N b \<and> (\<forall>i t. m_txns b i = Some t \<longrightarrow> sp_file_attributes t \<in> N)"

text \<open>Requests within the site: names from \<open>N\<close>, files that fit in memory, an identifier to be found.\<close>

fun within :: "FileName set \<Rightarrow> env \<Rightarrow> ServerBackend \<Rightarrow> RequestTuple \<Rightarrow> bool" where
  "within N e b (c, i, k, n, d) =
     (request_ok (c, i, k, n, d)
      \<and> (c = read_cmd \<longrightarrow> d \<in> N \<and> \<not> unreadable d b)
      \<and> (c = new_txn_cmd \<longrightarrow> d \<in> N \<and> candidate_id (rands e) 0 (m_txns b) \<noteq> None))"

definition chosen_id :: "env \<Rightarrow> ServerBackend \<Rightarrow> TxnId" where
  "chosen_id e b = the (candidate_id (rands e) 0 (m_txns b))"

lemma goodD:
  assumes "good N b"
  shows "backend_inv b" "site N b" "m_txns b i = Some t \<Longrightarrow> sp_file_attributes t \<in> N"
  using assms by (auto simp: good_def)

lemma abs_store_simps [simp]:
  "st_files (abs_store N b) f = (if f \<in> N then os_files (m_os b) (data_key f b) else None)"
  "st_open (abs_store N b) i = map_option abs_txn (m_txns b i)"
  "st_done (abs_store N b) = m_commits b"
  by (simp_all add: abs_store_def)

lemma abs_txn_simps [simp]:
  "o_file (abs_txn t) = sp_file_attributes t" "o_writes (abs_txn t) = buffers t" "o_last (abs_txn t) = max_seq_num t"
  by (simp_all add: abs_txn_def)

lemma first_missing_gaps:
  "first_missing w (initial_seq_num + 1) k = (if gaps w k = {} then None else Some (Min (gaps w k)))"
proof (cases "first_missing w (initial_seq_num + 1) k")
  case None
  then have "gaps w k = {}" unfolding first_missing_None by (auto simp: gaps_def consts_simps)
  with None show ?thesis by simp
next
  case (Some m)
  have m: "m \<in> gaps w k" using first_missing_Some(1-3) [OF Some] by (simp add: gaps_def consts_simps)
  have "m \<le> j" if "j \<in> gaps w k" for j
  proof (rule ccontr)
    assume "\<not> m \<le> j"
    with that first_missing_Some(4) [OF Some, of j] show False by (simp add: gaps_def consts_simps)
  qed
  moreover have "finite (gaps w k)"
    unfolding gaps_def by (rule finite_subset [of _ "{1..k}"]) auto
  ultimately have "Min (gaps w k) = m" using m by (intro Min_eqI) auto
  with m Some show ?thesis by auto
qed

subsection \<open>One lemma per command\<close>

lemma sim_txn:
  assumes "m_txns b i = Some t" "abs_txn t' = abs_txn t"
  shows "abs_store N (with_txn i t' b) = abs_store N b"
  using assms by (auto simp: abs_store_def fun_eq_iff)

lemma abs_store_with_txn:
  "abs_store N (with_txn i t b) = (abs_store N b)\<lparr>st_open := (st_open (abs_store N b))(i \<mapsto> abs_txn t)\<rparr>"
  by (auto simp: abs_store_def fun_eq_iff)

lemma good_with_txn:
  assumes "good N b" "m_txns b i = Some t" "sp_file_attributes t' = sp_file_attributes t" "txn_inv t'"
  shows "good N (with_txn i t' b)"
  using assms backend_inv_update_txn [of b i t t'] site_cong [of "with_txn i t' b" b N]
  by (auto simp: good_def)

lemma sim_WRITE:
  assumes g: "good N b" and ok: "request_ok (c, i, k, n, d)"
  obtains reply p' b' where "WRITE (c, i, k, n, d) e p b = (Inr (reply, p'), b')"
    and "spec_write i k d (abs_store N b) = (reply, abs_store N b')" and "good N b'"
proof (cases rule: WRITE_cases [of i b c k n d e p])
  case (repeated t)
  have "good N (with_txn i (t\<lparr>curr_timestamp := now e\<rparr>) b)"
    using backend_inv_txn [OF goodD(1) [OF g] repeated(2)] by (intro good_with_txn [OF g repeated(2)]) simp_all
  moreover have "abs_store N (with_txn i (t\<lparr>curr_timestamp := now e\<rparr>) b) = abs_store N b"
    by (rule sim_txn [OF repeated(2)]) (simp add: abs_txn_def)
  ultimately show ?thesis
    using repeated by (intro that) (auto simp: reply_simps spec_write_def spec_error_def)
next
  case (stored t)
  have "good N (with_txn i (buffered k d (now e) t) b)"
    using backend_inv_txn [OF goodD(1) [OF g] stored(2)] ok
    by (intro good_with_txn [OF g stored(2)] txn_inv_buffered) simp_all
  then show ?thesis
    using stored by (intro that) (auto simp: reply_simps spec_write_def abs_store_with_txn abs_txn_def)
qed (use g in \<open>auto intro!: that simp: reply_simps spec_write_def spec_error_def\<close>)
lemma abs_store_removed:
  assumes "\<And>f. f \<in> N \<Longrightarrow> os_files s (os_resolve s (c_str (m_directory b @ f))) = os_files (m_os b) (data_key f b)"
  shows "abs_store N (removeTransaction i (b\<lparr>m_os := s\<rparr>))
       = (abs_store N b)\<lparr>st_open := (st_open (abs_store N b))(i := None)\<rparr>"
  using assms by (auto simp: abs_store_def fun_eq_iff)

lemma good_logged:
  assumes g: "good N b" "f \<in> N" "l \<in> set log_order"
  shows "site N (b\<lparr>m_os := logged l i f b\<rparr>)" "x \<in> N \<Longrightarrow> os_files (logged l i f b) (data_key x b) = os_files (m_os b) (data_key x b)"
  using site_cong [of "b\<lparr>m_os := logged l i f b\<rparr>" b N] goodD(2) [OF g(1)] site_key_log [of N b x l] g(3) by simp_all

lemma good_removed:
  assumes g: "good N b" and s: "site N (b\<lparr>m_os := s\<rparr>)"
  shows "good N (removeTransaction i (b\<lparr>m_os := s\<rparr>))"
proof -
  have "site N (removeTransaction i (b\<lparr>m_os := s\<rparr>))" using s by (simp add: site_def)
  moreover have "backend_inv (removeTransaction i (b\<lparr>m_os := s\<rparr>))"
    using goodD(1) [OF g] by (simp add: removeTransaction_inv)
  ultimately show ?thesis using goodD(3) [OF g] by (auto simp: good_def)
qed

lemma sim_ABORT:
  assumes g: "good N b"
  obtains reply p' b' where "ABORT (c, i, k, n, d) p b = (Inr (reply, p'), b')"
    and "spec_abort i k (abs_store N b) = (reply, abs_store N b')" and "good N b'"
proof (cases rule: ABORT_cases [OF goodD(1) [OF g], of i c k n d p])
  case (3 t s)
  let ?s = "logged m_abort_log i (sp_file_attributes t) b"
  have f: "sp_file_attributes t \<in> N" by (rule goodD(3) [OF g 3(2)])
  note lg = good_logged [OF g f, of m_abort_log]
  have "good N (removeTransaction i (b\<lparr>m_os := ?s\<rparr>))"
    using lg(1) by (intro good_removed [OF g]) simp
  moreover have "abs_store N (removeTransaction i (b\<lparr>m_os := ?s\<rparr>))
      = (abs_store N b)\<lparr>st_open := (st_open (abs_store N b))(i := None)\<rparr>"
    by (rule abs_store_removed) (use lg(2) in simp)
  ultimately show ?thesis
    using ABORT_site [OF goodD(1,2) [OF g] 3(2) f 3(1), of c k n d p] 3(1,2)
    by (intro that) (auto simp: reply_simps spec_abort_def)
qed (use g in \<open>auto intro!: that simp: reply_simps spec_abort_def spec_error_def\<close>)

lemma sim_READ:
  assumes g: "good N b" and f: "f \<in> N" and r: "\<not> unreadable f b"
  obtains reply p' where "READ (c, i, k, n, f) p b = (Inr (reply, p'), b)"
    and "spec_read i k f (abs_store N b) = (reply, abs_store N b)"
proof (cases "os_files (m_os b) (data_key f b)")
  case None
  then show ?thesis
    using f by (intro that) (auto simp: READ_def File_open_read reply_simps spec_read_def spec_error_def)
next
  case (Some x)
  have "int (length x) < int_max" using r Some by (simp add: unreadable_def contents_def)
  moreover have "\<not> os_denied (m_os b) (data_key f b)" using siteD(7) [OF goodD(2) [OF g]] f by simp
  ultimately have "READ (c, i, k, n, f) p b = SET_READ i k (c_str x) p b"
    using siteD(3) [OF goodD(2) [OF g]] Some by (intro READ_quiet)
  then show ?thesis using Some f by (intro that) (auto simp: reply_simps spec_read_def)
qed

lemma sim_NEW_TXN:
  assumes g: "good N b" and f: "f \<in> N" and j: "candidate_id (rands e) 0 (m_txns b) = Some j"
  obtains reply p' b' where "NEW_TXN (c, i, k, n, f) e p b = (Inr (reply, p'), b')"
    and "spec_new j i k f (abs_store N b) = (reply, abs_store N b')" and "good N b'"
proof (cases "k = 0")
  case False
  with g show ?thesis by (intro that) (auto simp: NEW_TXN_def reply_simps spec_new_def spec_error_def)
next
  case True
  let ?s = "logged m_transaction_log j f b"
  let ?b = "started_state j f (now e) ?s b"
  note lg = good_logged [OF g f, of m_transaction_log]
  have "backend_inv ?b"
    using candidate_id_range [OF j] siteD(5) [OF goodD(2) [OF g] f] by (intro started_state_inv goodD(1) [OF g]) auto
  moreover have "site N ?b" using lg(1) by (simp add: site_def)
  ultimately have "good N ?b"
    using goodD(3) [OF g] f by (auto simp: good_def getNewTransactionAttributes_def)
  moreover have "abs_store N ?b = (abs_store N b)\<lparr>st_open := (st_open (abs_store N b))
      (j \<mapsto> \<lparr>o_file = f, o_writes = Map.empty, o_last = 1\<rparr>)\<rparr>"
    using lg(2) by (auto simp: abs_store_def fun_eq_iff abs_txn_def getNewTransactionAttributes_def initial_seq_num_def)
  ultimately show ?thesis
    using NEW_TXN_site [OF goodD(2) [OF g] f j, of c i n p] True
    by (intro that) (auto simp: reply_simps spec_new_def consts_simps)
qed

lemma abs_store_committed:
  fixes b :: ServerBackend and t :: TransactionAttributes
  defines "f \<equiv> sp_file_attributes t"
  assumes s: "site N b" and f: "f \<in> N"
  shows "abs_store N (committed_state i t z (committed_os i f d b) b) = (abs_store N b)
     \<lparr>st_files := (st_files (abs_store N b))(f \<mapsto>
         (case st_files (abs_store N b) f of None \<Rightarrow> [] | Some c \<Rightarrow> c) @ d),
      st_open := (st_open (abs_store N b))(i := None), st_done := insert i (st_done (abs_store N b))\<rparr>"
proof -
  have "os_files (committed_os i f d b) (data_key g b)
      = (if g = f then Some (contents (data_key f b) (m_os b) @ d) else os_files (m_os b) (data_key g b))" if "g \<in> N" for g
    using siteD(10) [OF s, of g f] site_key_log [OF s that, of m_commit_log] f that by auto
  with f show ?thesis by (auto simp: abs_store_def fun_eq_iff contents_def)
qed

lemma sim_COMMIT:
  assumes g: "good N b" and ok: "is_int k"
  obtains reply p' b' where "COMMIT (c, i, k, n, d) e p b = (Inr (reply, p'), b')"
    and "spec_commit i k (abs_store N b) = (reply, abs_store N b')" and "good N b'"
  using goodD(1) [OF g]
proof (cases rule: COMMIT_cases [of b i c k n d e p])
  case (too_low t)
  have "good N (with_txn i (t\<lparr>curr_timestamp := now e\<rparr>) b)"
    using backend_inv_txn [OF goodD(1) [OF g] too_low(2)] by (intro good_with_txn [OF g too_low(2)]) simp_all
  moreover have "abs_store N (with_txn i (t\<lparr>curr_timestamp := now e\<rparr>) b) = abs_store N b"
    by (rule sim_txn [OF too_low(2)]) (simp add: abs_txn_def)
  ultimately show ?thesis
    using too_low by (intro that) (auto simp: reply_simps spec_commit_def spec_error_def)
next
  case (missing t m)
  have "good N (with_txn i (closed_at k (now e) t) b)"
    using commit_flush_facts [OF goodD(1) [OF g] ok missing(2,3)] by (intro good_with_txn [OF g missing(2)]) simp_all
  moreover have "gaps (buffers t) k \<noteq> {}" "m = Min (gaps (buffers t) k)"
    using missing(4) by (auto simp: first_missing_gaps split: if_splits)
  ultimately show ?thesis
    using missing by (intro that) (auto simp: reply_simps spec_commit_def abs_store_with_txn abs_txn_def)
next
  case (full t fa)
  let ?t = "closed_at k (now e) t" and ?b = "with_txn i (closed_at k (now e) t) b"
  let ?f = "sp_file_attributes t" and ?d = "commit_data (buffers t) k"
  let ?c = "contents (data_key ?f b) (m_os b) @ ?d"
  have ti: "txn_inv ?t" by (rule commit_flush_facts [OF goodD(1) [OF g] ok full(2,3)])
  have gb: "good N ?b" using ti by (intro good_with_txn [OF g full(2)]) simp_all
  have f: "?f \<in> N" by (rule goodD(3) [OF g full(2)])
  let ?b' = "committed_state i ?t (int (length ?c)) (committed_os i ?f ?d ?b) ?b"
  have com: "COMMIT (c, i, k, n, d) e p b = SET_ACK i k p ?b'"
    using COMMIT_flush_site [OF goodD(2) [OF gb], of ?t fa i k p] full ti f by simp
  have "site N ?b'" using goodD(2) [OF gb] by (simp add: site_def quiet_def)
  then have "good N ?b'"
    using goodD(3) [OF g] committed_state_inv [OF goodD(1) [OF gb]] by (auto simp: good_def)
  moreover have "gaps (buffers t) k = {}"
    using full(4) by (simp add: first_missing_gaps split: if_splits)
  then have "spec_commit i k (abs_store N b) = ((ack_cmd, i, k, nil, []), abs_store N ?b')"
    using full abs_store_committed [OF goodD(2) [OF gb], of ?t i "int (length ?c)" ?d] f
    by (simp add: spec_commit_def abs_store_with_txn commit_data_def consts_simps)
  ultimately show ?thesis using com by (intro that) (simp_all add: reply_simps)
qed (use g in \<open>auto intro!: that simp: reply_simps spec_commit_def spec_error_def\<close>)

subsection \<open>Refinement\<close>

lemma processCommand_sim:
  assumes g: "good N b" and w: "within N e b req"
  shows "\<exists>reply p' b'. processCommand req e p b = (Inr (reply, p'), b')
    \<and> spec_step (chosen_id e b) req (abs_store N b) = (reply, abs_store N b') \<and> good N b'"
proof -
  obtain c i k n d where req: "req = (c, i, k, n, d)" by (cases req)
  from w have ok: "request_ok (c, i, k, n, d)" "is_int k" by (simp_all add: req)
  consider (r) "c = read_cmd" | (n) "c = new_txn_cmd" | (w) "c = write_cmd" | (c) "c = commit_cmd" | (a) "c = abort_cmd"
    | (x) "c \<notin> {read_cmd, new_txn_cmd, write_cmd, commit_cmd, abort_cmd}" by blast
  then show ?thesis
  proof cases
    case r
    with w obtain reply p' where "READ (c, i, k, n, d) p b = (Inr (reply, p'), b)"
      "spec_read i k d (abs_store N b) = (reply, abs_store N b)"
      by (auto simp: req intro: sim_READ [OF g, of d c i k n p])
    with r g show ?thesis by (cases reply) (simp add: req processCommand_def)
  next
    case n
    with w obtain j where j: "candidate_id (rands e) 0 (m_txns b) = Some j" "d \<in> N" by (auto simp: req)
    obtain reply p' b' where "NEW_TXN (c, i, k, n, d) e p b = (Inr (reply, p'), b')"
      "spec_new j i k d (abs_store N b) = (reply, abs_store N b')" "good N b'"
      by (rule sim_NEW_TXN [OF g j(2,1)])
    with n j(1) show ?thesis by (cases reply) (simp add: req processCommand_def chosen_id_def consts_simps)
  next
    case w
    obtain reply p' b' where "WRITE (c, i, k, n, d) e p b = (Inr (reply, p'), b')"
      "spec_write i k d (abs_store N b) = (reply, abs_store N b')" "good N b'"
      by (rule sim_WRITE [OF g ok(1)])
    with w show ?thesis by (cases reply) (simp add: req processCommand_def consts_simps)
  next
    case c
    obtain reply p' b' where "COMMIT (c, i, k, n, d) e p b = (Inr (reply, p'), b')"
      "spec_commit i k (abs_store N b) = (reply, abs_store N b')" "good N b'"
      by (rule sim_COMMIT [OF g ok(2)])
    with c show ?thesis by (cases reply) (simp add: req processCommand_def consts_simps)
  next
    case a
    obtain reply p' b' where "ABORT (c, i, k, n, d) p b = (Inr (reply, p'), b')"
      "spec_abort i k (abs_store N b) = (reply, abs_store N b')" "good N b'"
      by (rule sim_ABORT [OF g])
    with a show ?thesis by (cases reply) (simp add: req processCommand_def consts_simps)
  next
    case x
    with g show ?thesis by (auto simp: req processCommand_def spec_error_def reply_simps)
  qed
qed

text \<open>Several requests, as the server handles them one after the other.\<close>

fun run_commands :: "(RequestTuple \<times> env) list \<Rightarrow> ServerBackend \<Rightarrow> (Reply list) outcome \<times> ServerBackend" where
  "run_commands [] b = (Inr [], b)"
| "run_commands ((req, e) # rs) b =
     (case processCommand req e True b of
        (Inl x, b) \<Rightarrow> (Inl x, b)
      | (Inr (reply, _), b) \<Rightarrow>
          (case run_commands rs b of
             (Inl x, b) \<Rightarrow> (Inl x, b)
           | (Inr replies, b) \<Rightarrow> (Inr (reply # replies), b)))"

fun all_within :: "FileName set \<Rightarrow> (RequestTuple \<times> env) list \<Rightarrow> ServerBackend \<Rightarrow> bool" where
  "all_within N [] b = True"
| "all_within N ((req, e) # rs) b = (within N e b req \<and> all_within N rs (snd (processCommand req e True b)))"

fun chosen_ids :: "(RequestTuple \<times> env) list \<Rightarrow> ServerBackend \<Rightarrow> TxnId list" where
  "chosen_ids [] b = []"
| "chosen_ids ((req, e) # rs) b = chosen_id e b # chosen_ids rs (snd (processCommand req e True b))"

fun spec_run :: "(TxnId \<times> RequestTuple) list \<Rightarrow> store \<Rightarrow> Reply list \<times> store" where
  "spec_run [] st = ([], st)"
| "spec_run ((j, req) # rs) st =
     (case spec_step j req st of (reply, st) \<Rightarrow>
        (case spec_run rs st of (replies, st) \<Rightarrow> (reply # replies, st)))"

text \<open>
  C1. Refinement: on a well-behaved site, any sequence of requests gets from the backend
  exactly the replies of the abstract transactional store, and the backend's files, open
  transactions and committed identifiers are those of the store throughout.
\<close>

theorem backend_refines_store:
  assumes "good N b" "all_within N rs b"
  shows "\<exists>replies b'. run_commands rs b = (Inr replies, b')
    \<and> spec_run (zip (chosen_ids rs b) (map fst rs)) (abs_store N b) = (replies, abs_store N b') \<and> good N b'"
  using assms
proof (induction rs arbitrary: b)
  case Nil
  then show ?case by simp
next
  case (Cons x rs)
  obtain req e where x: "x = (req, e)" by (cases x)
  with Cons.prems have w: "within N e b req" by simp
  from processCommand_sim [OF Cons.prems(1) w, of True] obtain reply p' b1 where
    1: "processCommand req e True b = (Inr (reply, p'), b1)"
    "spec_step (chosen_id e b) req (abs_store N b) = (reply, abs_store N b1)" "good N b1" by blast
  moreover have "all_within N rs b1" using Cons.prems(2) 1(1) by (simp add: x)
  ultimately obtain replies b' where "run_commands rs b1 = (Inr replies, b')"
    "spec_run (zip (chosen_ids rs b1) (map fst rs)) (abs_store N b1) = (replies, abs_store N b')" "good N b'"
    using Cons.IH [of b1] by blast
  with 1 show ?case by (simp add: x)
qed

lemma demo_site: "site {''f''} demo_backend"
  by (auto simp: site_def quiet_def demo_backend_def demo_os_def demo_resolve_def plain_name_def log_order_def
      consts_simps c_str_def NUL_def is_space_def inj_on_def)

lemma demo_good: "good {''f''} demo_backend"
  using demo_backend_inv demo_site
  by (auto simp: good_def demo_backend_def demo_txn_def getNewTransactionAttributes_def split: if_splits)

theorem backend_refines_store_witness:
  "\<exists>replies b'. run_commands [((write_cmd, 7, 1, 1, ''a''), demo_env), ((commit_cmd, 7, 1, 0, []), demo_env)] demo_backend
      = (Inr replies, b')
    \<and> spec_run [(chosen_id demo_env demo_backend, (write_cmd, 7, 1, 1, ''a'')),
        (chosen_id demo_env (snd (processCommand (write_cmd, 7, 1, 1, ''a'') demo_env True demo_backend)), (commit_cmd, 7, 1, 0, []))]
        (abs_store {''f''} demo_backend) = (replies, abs_store {''f''} b')"
proof -
  have "all_within {''f''} [((write_cmd, 7, 1, 1, ''a''), demo_env), ((commit_cmd, 7, 1, 0, []), demo_env)] demo_backend"
    by (simp add: consts_simps int_range_defs)
  from backend_refines_store [OF demo_good this] show ?thesis by auto
qed

end
