(* ===== verification/Durability.thy ===== *)
theory Durability
  imports Transaction_Spec
begin

text \<open>
  The logs describe the state: at every moment between two requests, an identifier occurs
  an odd number of times in the four logs exactly when its transaction is open, and the
  largest size recorded for a file is the file's size. From this invariant, a server that
  crashes at any point of a commit restarts with the contents and the open transactions it
  had before the commit began.
\<close>

type_synonym ledger = "FileName \<Rightarrow> entry list"

definition all_entries :: "ledger \<Rightarrow> entry list" where
  "all_entries es = concat (map es log_order)"

definition logs_hold :: "FileName set \<Rightarrow> ledger \<Rightarrow> ServerBackend \<Rightarrow> bool" where
  "logs_hold N es b \<longleftrightarrow>
     (\<forall>l \<in> set log_order. contents (log_key l b) (m_os b) = log_text (es l)
        \<and> (\<forall>e \<in> set (es l). entry_ok e \<and> fst (snd e) \<in> N))"

definition log_inv :: "FileName set \<Rightarrow> ledger \<Rightarrow> ServerBackend \<Rightarrow> bool" where
  "log_inv N es b \<longleftrightarrow> logs_hold N es b
     \<and> (\<forall>i. odd (length (entries_of i (all_entries es))) \<longleftrightarrow> m_txns b i \<noteq> None)
     \<and> (\<forall>i t e. m_txns b i = Some t \<longrightarrow> e \<in> set (entries_of i (all_entries es)) \<longrightarrow> fst (snd e) = sp_file_attributes t)
     \<and> (\<forall>f. sizes_of f (all_entries es) \<noteq> [] \<longrightarrow>
          Max (set (sizes_of f (all_entries es))) = int (length (contents (data_key f b) (m_os b))))"

text \<open>Sizes that a log entry can hold.\<close>

definition small :: "FileName set \<Rightarrow> ServerBackend \<Rightarrow> bool" where
  "small N b \<longleftrightarrow> (\<forall>f \<in> N. int (length (contents (data_key f b) (m_os b))) \<le> llong_max)"

subsection \<open>Adding one entry\<close>

definition add_entry :: "FileName \<Rightarrow> entry \<Rightarrow> ledger \<Rightarrow> ledger" where
  "add_entry l x es = es(l := es l @ [x])"

lemma mset_add_entry:
  assumes "l \<in> set log_order"
  shows "mset (all_entries (add_entry l x es)) = add_mset x (mset (all_entries es))"
proof -
  obtain ys zs where o: "log_order = ys @ l # zs" using assms by (meson split_list)
  have "distinct (ys @ l # zs)" using distinct_log_order o by metis
  then have "l \<notin> set ys" "l \<notin> set zs" by auto
  then have "map (add_entry l x es) ys = map es ys" "map (add_entry l x es) zs = map es zs"
    by (auto simp: add_entry_def)
  moreover have "add_entry l x es l = es l @ [x]" by (simp add: add_entry_def)
  ultimately show ?thesis unfolding all_entries_def o by (simp del: map_eq_conv)
qed

lemma entries_of_mset:
  assumes "mset xs = add_mset (i, f, z) (mset ys)"
  shows "length (entries_of j xs) = length (entries_of j ys) + (if i = j then 1 else 0)"
    and "set (entries_of j xs) = (if i = j then insert (i, f, z) (set (entries_of j ys)) else set (entries_of j ys))"
proof -
  have "mset (entries_of j xs) = (if i = j then add_mset (i, f, z) (mset (entries_of j ys)) else mset (entries_of j ys))"
    using assms by (simp add: entries_of_def)
  from arg_cong [OF this, of size] arg_cong [OF this, of set_mset]
  show "length (entries_of j xs) = length (entries_of j ys) + (if i = j then 1 else 0)"
    "set (entries_of j xs) = (if i = j then insert (i, f, z) (set (entries_of j ys)) else set (entries_of j ys))"
    by (simp_all split: if_splits)
qed

lemma sizes_of_set: "y \<in> set (sizes_of g xs) \<longleftrightarrow> (\<exists>i. (i, g, y) \<in> set xs)"
proof (induction xs)
  case (Cons a xs)
  then show ?case by (cases a) auto
qed simp

lemma sizes_of_mset:
  assumes "mset xs = add_mset (i, f, z) (mset ys)"
  shows "set (sizes_of g xs) = (if f = g then insert z (set (sizes_of g ys)) else set (sizes_of g ys))"
proof -
  have "set xs = insert (i, f, z) (set ys)" using assms by (metis set_mset_add_mset_insert set_mset_mset)
  then show ?thesis by (auto simp: sizes_of_set)
qed

lemma entries_of_Nil_iff: "entries_of i es = [] \<longleftrightarrow> i \<notin> fst ` set es"
  by (auto simp: entries_of_def filter_empty_conv)

lemma sizes_of_entry: "(i, f, z) \<in> set es \<Longrightarrow> sizes_of f es \<noteq> []"
  using sizes_of_set [of z f es] by auto

text \<open>
  One step of the server: an entry \<open>(i, f, z)\<close> goes to log \<open>l\<close>, the file \<open>f\<close> has grown to \<open>z\<close>
  bytes, transaction \<open>i\<close> was opened or closed, and nothing else has changed.
\<close>

lemma log_inv_step:
  assumes li: "log_inv N es b" and s: "site N b" and l: "l \<in> set log_order" and f: "f \<in> N"
    and dir: "m_directory b' = m_directory b" "os_resolve (m_os b') = os_resolve (m_os b)"
    and lg: "contents (log_key l b) (m_os b') = contents (log_key l b) (m_os b) @ entry_text i f z"
    and lg': "\<And>l'. l' \<in> set log_order \<Longrightarrow> l' \<noteq> l \<Longrightarrow> contents (log_key l' b) (m_os b') = contents (log_key l' b) (m_os b)"
    and z: "z = int (length (contents (data_key f b) (m_os b')))" "z \<le> llong_max" "is_int i"
    and grown: "int (length (contents (data_key f b) (m_os b))) \<le> z"
    and other: "\<And>g. g \<in> N \<Longrightarrow> g \<noteq> f \<Longrightarrow> contents (data_key g b) (m_os b') = contents (data_key g b) (m_os b)"
    and toggle: "m_txns b i = None \<longleftrightarrow> m_txns b' i \<noteq> None"
    and rest: "\<And>j. j \<noteq> i \<Longrightarrow> map_option sp_file_attributes (m_txns b' j) = map_option sp_file_attributes (m_txns b j)"
    and new: "\<And>t. m_txns b' i = Some t \<Longrightarrow> sp_file_attributes t = f \<and> entries_of i (all_entries es) = []"
  shows "log_inv N (add_entry l (i, f, z) es) b'"
proof -
  let ?es = "add_entry l (i, f, z) es"
  note ms = mset_add_entry [OF l, of "(i, f, z)" es]
  note eo = entries_of_mset [OF ms] and so = sizes_of_mset [OF ms]
  have key: "data_key g b' = data_key g b" for g by (simp add: dir)
  have "entry_ok (i, f, z)" using siteD(4) [OF s f] z by (simp add: llong_min_def)
  then have "logs_hold N ?es b'"
    using li lg lg' f l by (auto simp: log_inv_def logs_hold_def key add_entry_def)
  moreover have "odd (length (entries_of j (all_entries ?es))) \<longleftrightarrow> m_txns b' j \<noteq> None" for j
  proof (cases "j = i")
    case True
    with li toggle show ?thesis by (simp add: log_inv_def eo(1))
  next
    case False
    then have "m_txns b' j = None \<longleftrightarrow> m_txns b j = None" using rest [of j] by (metis option.map_disc_iff)
    with li False show ?thesis by (simp add: log_inv_def eo(1))
  qed
  moreover have "fst (snd e) = sp_file_attributes t" if t: "m_txns b' j = Some t"
    and e: "e \<in> set (entries_of j (all_entries ?es))" for j t e
  proof (cases "j = i")
    case True
    with t e new [of t] eo(2) [of j] show ?thesis by auto
  next
    case False
    with rest [of j] t obtain t0 where "m_txns b j = Some t0" "sp_file_attributes t0 = sp_file_attributes t"
      by (cases "m_txns b j") auto
    moreover have "e \<in> set (entries_of j (all_entries es))" using e eo(2) [of j] False by simp
    ultimately show ?thesis using li unfolding log_inv_def by metis
  qed
  moreover have "Max (set (sizes_of g (all_entries ?es))) = int (length (contents (data_key g b') (m_os b')))"
    if ne: "sizes_of g (all_entries ?es) \<noteq> []" for g
  proof (cases "g = f")
    case True
    have "y \<le> z" if "y \<in> set (sizes_of f (all_entries es))" for y
    proof -
      have "y \<le> Max (set (sizes_of f (all_entries es)))" using that by simp
      moreover have "sizes_of f (all_entries es) \<noteq> []" using that by auto
      ultimately show ?thesis using li grown by (auto simp: log_inv_def)
    qed
    then have "Max (set (sizes_of f (all_entries ?es))) = z"
      using so [of f] by (intro Max_eqI) auto
    with True z(1) key show ?thesis by simp
  next
    case False
    then have st: "set (sizes_of g (all_entries ?es)) = set (sizes_of g (all_entries es))" using so [of g] by simp
    with ne have ne': "sizes_of g (all_entries es) \<noteq> []" by (metis set_empty)
    then obtain e where e: "e \<in> set (all_entries es)" "fst (snd e) = g"
      by (auto simp: sizes_of_def filter_empty_conv)
    then have "g \<in> N" using li by (auto simp: log_inv_def logs_hold_def all_entries_def)
    then show ?thesis using st ne' li other [of g] False by (simp add: log_inv_def key)
  qed
  ultimately show ?thesis by (simp add: log_inv_def)
qed

text \<open>A step that neither logs nor opens nor closes a transaction.\<close>

lemma log_inv_cong:
  assumes "log_inv N es b" "m_directory b' = m_directory b" "os_resolve (m_os b') = os_resolve (m_os b)"
    "os_files (m_os b') = os_files (m_os b)"
    and t: "\<And>j. map_option sp_file_attributes (m_txns b' j) = map_option sp_file_attributes (m_txns b j)"
  shows "log_inv N es b'"
proof -
  have n: "m_txns b' j \<noteq> None \<longleftrightarrow> m_txns b j \<noteq> None" for j using t [of j] by (metis option.map_disc_iff)
  have "fst (snd e) = sp_file_attributes u" if "m_txns b' j = Some u" "e \<in> set (entries_of j (all_entries es))" for j u e
  proof -
    from t [of j] that(1) obtain u0 where "m_txns b j = Some u0" "sp_file_attributes u0 = sp_file_attributes u"
      by (cases "m_txns b j") auto
    with assms(1) that(2) show ?thesis unfolding log_inv_def by metis
  qed
  with assms(1-4) n show ?thesis
    unfolding log_inv_def logs_hold_def contents_def by (metis (no_types, lifting))
qed
subsection \<open>Every command keeps the logs in step\<close>

lemma txn_id_int: "backend_inv b \<Longrightarrow> m_txns b i = Some t \<Longrightarrow> is_int i"
  by (auto simp: backend_inv_def)

lemma log_key_distinct:
  assumes "site N b" "l \<in> set log_order" "l' \<in> set log_order" "l' \<noteq> l"
  shows "log_key l' b \<noteq> log_key l b"
  using siteD(10) [OF assms(1), of l l'] assms(2-4) by auto

text \<open>A step that logs the present size of \<open>f\<close> and changes no data file.\<close>

lemma log_inv_logged:
  assumes li: "log_inv N es b" and s: "site N b" and l: "l \<in> set log_order" and f: "f \<in> N"
    and b': "m_directory b' = m_directory b" "m_os b' = logged l i f b" and i: "is_int i" and sm: "small N b'"
    and txns: "m_txns b i = None \<longleftrightarrow> m_txns b' i \<noteq> None"
      "\<And>j. j \<noteq> i \<Longrightarrow> map_option sp_file_attributes (m_txns b' j) = map_option sp_file_attributes (m_txns b j)"
      "\<And>t. m_txns b' i = Some t \<Longrightarrow> sp_file_attributes t = f \<and> entries_of i (all_entries es) = []"
  shows "log_inv N (add_entry l (i, f, int (length (contents (data_key f b) (m_os b)))) es) b'"
proof (rule log_inv_step [OF li s l f b'(1) _ _ _ _ _ i _ _ txns])
  have same: "contents (data_key g b) (m_os b') = contents (data_key g b) (m_os b)" if "g \<in> N" for g
    using site_key_log [OF s that l] by (simp add: b' contents_logged)
  show "os_resolve (m_os b') = os_resolve (m_os b)" by (simp add: b')
  show "contents (log_key l b) (m_os b') = contents (log_key l b) (m_os b)
      @ entry_text i f (int (length (contents (data_key f b) (m_os b))))" by (simp add: b' contents_logged)
  show "contents (log_key l' b) (m_os b') = contents (log_key l' b) (m_os b)" if "l' \<in> set log_order" "l' \<noteq> l" for l'
    using log_key_distinct [OF s l that] by (simp add: b' contents_logged)
  show "int (length (contents (data_key f b) (m_os b))) = int (length (contents (data_key f b) (m_os b')))"
    using same [OF f] by simp
  show "int (length (contents (data_key f b) (m_os b))) \<le> llong_max"
    using bspec [OF sm [unfolded small_def] f] same [OF f] by (simp add: b')
  show "contents (data_key g b) (m_os b') = contents (data_key g b) (m_os b)" if "g \<in> N" for g
    by (rule same [OF that])
qed simp

lemma log_inv_committed:
  assumes g: "good N b" and li: "log_inv N es b" and t: "m_txns b i = Some t"
    and b': "b' = committed_state i t' z (committed_os i (sp_file_attributes t) d b) b" and sm: "small N b'"
  shows "\<exists>es'. log_inv N es' b'"
proof -
  let ?f = "sp_file_attributes t" and ?L = "log_key m_commit_log b"
  have s: "site N b" and f: "?f \<in> N" using goodD [OF g] t by auto
  have KL: "data_key g b \<noteq> ?L" if "g \<in> N" for g using site_key_log [OF s that] by simp
  let ?c = "contents (data_key ?f b) (m_os b) @ d"
  have c: "contents (data_key ?f b) (m_os b') = ?c"
    using KL [OF f] by (simp add: b' contents_committed_os)
  have "log_inv N (add_entry m_commit_log (i, ?f, int (length ?c)) es) b'"
  proof (rule log_inv_step [OF li s _ f])
    show "contents (log_key l' b) (m_os b') = contents (log_key l' b) (m_os b)" if "l' \<in> set log_order" "l' \<noteq> m_commit_log" for l'
      using log_key_distinct [OF s _ that] site_key_log [OF s f that(1)] KL [OF f] by (simp add: b' contents_committed_os)
    show "contents (data_key g b) (m_os b') = contents (data_key g b) (m_os b)" if "g \<in> N" "g \<noteq> ?f" for g
      using KL [OF that(1)] KL [OF f] siteD(10) [OF s, of g ?f] that f by (simp add: b' contents_committed_os)
    show "int (length ?c) \<le> llong_max" using bspec [OF sm [unfolded small_def] f] c by (simp add: b')
    show "contents ?L (m_os b') = contents ?L (m_os b) @ entry_text i ?f (int (length ?c))"
      using KL [OF f] by (simp add: b' contents_committed_os)
  qed (use t c txn_id_int [OF goodD(1) [OF g] t] in \<open>simp_all add: b'\<close>)
  then show ?thesis by blast
qed

lemma log_inv_with_txn:
  assumes "log_inv N es b" "m_txns b i = Some t" "sp_file_attributes t' = sp_file_attributes t"
  shows "log_inv N es (with_txn i t' b)"
  using assms by (intro log_inv_cong [OF assms(1)]) auto

lemma COMMIT_log_inv:
  assumes g: "good N b" and li: "log_inv N es b" and k: "is_int k"
    and com: "COMMIT (c, i, k, n, d) e p b = (r, b')" and sm: "small N b'"
  shows "\<exists>es'. log_inv N es' b'"
  using goodD(1) [OF g]
proof (cases rule: COMMIT_cases [of b i c k n d e p])
  case (too_low t)
  then show ?thesis
    using com log_inv_with_txn [OF li too_low(2), of "t\<lparr>curr_timestamp := now e\<rparr>"] by (auto simp: reply_simps)
next
  case (missing t m)
  then show ?thesis
    using com log_inv_with_txn [OF li missing(2), of "closed_at k (now e) t"] by (auto simp: reply_simps)
next
  case (full t fa)
  let ?t = "closed_at k (now e) t" and ?b = "with_txn i (closed_at k (now e) t) b"
  have ti: "txn_inv ?t" by (rule commit_flush_facts [OF goodD(1) [OF g] k full(2,3)])
  have gb: "good N ?b" using ti by (intro good_with_txn [OF g full(2)]) simp_all
  have f: "sp_file_attributes ?t \<in> N" using goodD(3) [OF g full(2)] by simp
  have fm: "first_missing (buffers ?t) (initial_seq_num + 1) (max_seq_num ?t) = None"
    "m_file_name fa = sp_file_attributes ?t" using full by simp_all
  have lb: "log_inv N es ?b" by (rule log_inv_with_txn [OF li full(2)]) simp
  from COMMIT_flush_site [OF goodD(2) [OF gb] fm ti f, of i k p] full(7) com
  obtain z where "b' = committed_state i ?t z (committed_os i (sp_file_attributes ?t) (commit_data (buffers t) k) ?b) ?b"
    by (simp add: reply_simps)
  with log_inv_committed [OF gb lb, of i ?t b' ?t] sm show ?thesis by simp
qed (use li com in \<open>auto simp: reply_simps\<close>)


text \<open>A site whose transaction log records the one open transaction.\<close>

definition demo_ledger :: ledger where
  "demo_ledger = (\<lambda>l. if l = m_transaction_log then [(7, ''f'', 3)] else [])"

definition demo_logged :: ServerBackend where
  "demo_logged = demo_backend\<lparr>m_os := demo_os\<lparr>os_files := [''f'' \<mapsto> ''old'',
     ''.transactionlog.txt'' \<mapsto> ''7 f 3\<newline>'']\<rparr>\<rparr>"

lemma demo_logged_good: "good {''f''} demo_logged"
proof -
  have "site {''f''} demo_logged"
    using demo_site site_cong [of demo_logged demo_backend "{''f''}"]
    by (simp add: demo_logged_def demo_backend_def)
  then show ?thesis
    using demo_good by (auto simp: good_def demo_logged_def)
qed

lemma demo_all_entries: "all_entries demo_ledger = [(7, ''f'', 3)]"
  by (simp add: all_entries_def demo_ledger_def log_order_def consts_simps)

lemma demo_entry_text: "entry_text 7 ''f'' 3 = ''7 f 3\<newline>''"
  by code_simp

lemma demo_log_inv: "log_inv {''f''} demo_ledger demo_logged"
proof -
  have k: "log_key m_transaction_log demo_logged = ''.transactionlog.txt''"
    "log_key m_timeout_log demo_logged = ''.timeoutlog.txt''"
    "log_key m_commit_log demo_logged = ''.commitlog.txt''" "log_key m_abort_log demo_logged = ''.abortlog.txt''"
    "data_key ''f'' demo_logged = ''f''"
    by (simp_all add: demo_logged_def demo_backend_def demo_os_def demo_resolve_def c_str_def NUL_def consts_simps)
  have "contents (log_key l demo_logged) (m_os demo_logged) = log_text (demo_ledger l)" if "l \<in> set log_order" for l
    using that unfolding log_order_def
    by (auto simp: k, simp_all add: demo_logged_def contents_def demo_ledger_def demo_entry_text consts_simps)
  then have "logs_hold {''f''} demo_ledger demo_logged"
    by (auto simp: logs_hold_def demo_ledger_def plain_name_def is_space_def NUL_def int_range_defs split: if_splits)
  moreover have "contents ''f'' (m_os demo_logged) = ''old''" by (simp add: demo_logged_def contents_def)
  ultimately show ?thesis
    by (auto simp: log_inv_def demo_all_entries k) (auto simp: demo_logged_def demo_backend_def demo_txn_def
        getNewTransactionAttributes_def split: if_splits)
qed


subsection \<open>Restart\<close>

definition restart_entries :: "(TxnId \<times> FileName) list \<Rightarrow> ServerBackend \<Rightarrow> entry list" where
  "restart_entries txns b = map (\<lambda>(i, f). (i, f, int (length (contents (data_key f b) (m_os b))))) txns"

lemma restart_transactions_site:
  assumes "good N b" "distinct (map fst txns)" "\<forall>(i, f) \<in> set txns. is_int i \<and> f \<in> N \<and> m_txns b i = None"
  shows "\<exists>b'. restart_transactions txns ts b = (Inr (), b') \<and> good N b'
     \<and> m_txns b' = m_txns b ++ (\<lambda>i. map_option (\<lambda>f. getNewTransactionAttributes f ts) (map_of txns i))
     \<and> m_directory b' = m_directory b \<and> os_resolve (m_os b') = os_resolve (m_os b)
     \<and> (\<forall>x. contents x (m_os b') = contents x (m_os b)
          @ (if x = log_key m_transaction_log b then log_text (restart_entries txns b) else []))"
  using assms
proof (induction txns arbitrary: b)
  case Nil
  then show ?case by (simp add: map_add_def restart_entries_def)
next
  case (Cons x txns)
  obtain i f where x: "x = (i, f)" by (cases x)
  with Cons.prems have i: "is_int i" "f \<in> N" "m_txns b i = None" "i \<notin> fst ` set txns" by auto
  let ?L = "log_key m_transaction_log b"
  have s: "site N b" and nul: "nul_free f" using goodD(2) [OF Cons.prems(1)] siteD(5) i(2) by blast+
  let ?b = "started_state i f ts (logged m_transaction_log i f b) b"
  have sw: "site N (with_new_transaction i f ts b)" using s by (simp add: site_def quiet_def)
  have add: "addNewTransaction i f ts b = (Inr True, ?b)"
    using logTransaction_site [OF sw i(2) log_order_names(1), of i] i(3)
    by (simp add: addNewTransaction_fresh started_state_def new_timer_def logged_def)
  have "site N ?b" using s by (simp add: site_def quiet_def)
  then have g: "good N ?b"
    using started_state_inv [OF goodD(1) [OF Cons.prems(1)] i(3,1) nul, of ts] goodD(3) [OF Cons.prems(1)] i(2)
    by (auto simp: good_def getNewTransactionAttributes_def)
  have d: "distinct (map fst txns)" using Cons.prems(2) by simp
  have new: "\<forall>(j, g) \<in> set txns. is_int j \<and> g \<in> N \<and> m_txns ?b j = None"
    using Cons.prems(3) i(4) by (force simp: x)
  from Cons.IH [OF g d new] obtain b' where b': "restart_transactions txns ts ?b = (Inr (), b')" "good N b'"
    "m_txns b' = m_txns ?b ++ (\<lambda>i. map_option (\<lambda>f. getNewTransactionAttributes f ts) (map_of txns i))"
    "m_directory b' = m_directory ?b" "os_resolve (m_os b') = os_resolve (m_os ?b)"
    "\<forall>x. contents x (m_os b') = contents x (m_os ?b)
          @ (if x = log_key m_transaction_log ?b then log_text (restart_entries txns ?b) else [])" by blast
  have "m_txns b' = m_txns b ++ (\<lambda>j. map_option (\<lambda>f. getNewTransactionAttributes f ts) (map_of (x # txns) j))"
    using b'(3) i(4) by (auto simp: x map_add_def fun_eq_iff split: option.splits dest!: map_of_SomeD)
       (force simp: map_of_eq_None_iff)+
  moreover have same: "restart_entries txns ?b = restart_entries txns b"
    using Cons.prems(3) site_key_log [OF s] by (auto simp: restart_entries_def x contents_logged)
  have "log_text (restart_entries (x # txns) b)
      = entry_text i f (int (length (contents (data_key f b) (m_os b)))) @ log_text (restart_entries txns b)"
    by (simp add: x restart_entries_def log_text_def)
  then have "contents y (m_os b') = contents y (m_os b)
      @ (if y = ?L then log_text (restart_entries (x # txns) b) else [])" for y
    using b'(6) [unfolded same] by (simp add: contents_logged)
  ultimately show ?case using b' add by (simp add: x)
qed

lemma entries_of_restart:
  "distinct (map fst txns) \<Longrightarrow> entries_of i (restart_entries txns b) =
     (case map_of txns i of None \<Rightarrow> [] | Some f \<Rightarrow> [(i, f, int (length (contents (data_key f b) (m_os b))))])"
proof (induction txns)
  case Nil
  show ?case by (simp add: restart_entries_def)
next
  case (Cons x txns)
  obtain j f where x: "x = (j, f)" by (cases x)
  have "map_of txns j = None" using Cons.prems by (simp add: x map_of_eq_None_iff)
  with Cons show ?case by (cases "j = i") (simp_all add: x restart_entries_def)
qed

lemma restart_entries_mem:
  "(i, f, z) \<in> set (restart_entries txns b) \<longleftrightarrow> (i, f) \<in> set txns \<and> z = int (length (contents (data_key f b) (m_os b)))"
  by (auto simp: restart_entries_def)

definition restart_ledger :: "(TxnId \<times> FileName) list \<Rightarrow> ServerBackend \<Rightarrow> ledger" where
  "restart_ledger txns b = (\<lambda>l. if l = m_transaction_log then restart_entries txns b else [])"

lemma all_entries_restart: "all_entries (restart_ledger txns b) = restart_entries txns b"
  by (simp add: all_entries_def restart_ledger_def log_order_def consts_simps)

lemma restart_log_inv:
  assumes g: "good N b" and e: "m_txns b = Map.empty" and dist: "distinct (map fst txns)"
    and txns: "\<forall>(i, f) \<in> set txns. is_int i \<and> f \<in> N \<and> int (length (contents (data_key f b) (m_os b))) \<le> llong_max"
    and logs: "\<forall>l \<in> set log_order. contents (log_key l b) (m_os b) = []"
    and b': "m_txns b' = (\<lambda>i. map_option (\<lambda>f. getNewTransactionAttributes f ts) (map_of txns i))"
      "m_directory b' = m_directory b" "os_resolve (m_os b') = os_resolve (m_os b)"
      "\<forall>x. contents x (m_os b') = contents x (m_os b)
          @ (if x = log_key m_transaction_log b then log_text (restart_entries txns b) else [])"
  shows "log_inv N (restart_ledger txns b) b'"
proof -
  have key: "data_key f b' = data_key f b" for f by (simp add: b')
  have s: "site N b" by (rule goodD(2) [OF g])
  have ok: "entry_ok x \<and> fst (snd x) \<in> N" if x: "x \<in> set (restart_entries txns b)" for x
  proof -
    obtain i f z where xz: "x = (i, f, z)" by (cases x)
    with x have "(i, f) \<in> set txns" "z = int (length (contents (data_key f b) (m_os b)))"
      by (simp_all add: restart_entries_mem)
    with txns siteD(4) [OF s] show ?thesis by (auto simp: xz llong_min_def)
  qed
  have "contents (log_key l b) (m_os b') = log_text (restart_ledger txns b l)" if "l \<in> set log_order" for l
    using b'(4) logs that log_key_distinct [OF s _ that, of m_transaction_log] by (simp add: restart_ledger_def)
  then have "logs_hold N (restart_ledger txns b) b'"
    using ok by (simp add: logs_hold_def key restart_ledger_def)
  moreover have "odd (length (entries_of i (restart_entries txns b))) \<longleftrightarrow> m_txns b' i \<noteq> None" for i
    by (simp add: entries_of_restart [OF dist] b'(1) split: option.split)
  moreover have "fst (snd x) = sp_file_attributes t"
    if "m_txns b' i = Some t" "x \<in> set (entries_of i (restart_entries txns b))" for i t x
    using that by (auto simp: entries_of_restart [OF dist] b'(1) getNewTransactionAttributes_def split: option.splits)
  moreover have "Max (set (sizes_of f (restart_entries txns b))) = int (length (contents (data_key f b') (m_os b')))"
    if ne: "sizes_of f (restart_entries txns b) \<noteq> []" for f
  proof -
    let ?z = "int (length (contents (data_key f b) (m_os b)))"
    from ne obtain y where y: "y \<in> set (sizes_of f (restart_entries txns b))" by (meson last_in_set)
    then obtain i where "(i, f, y) \<in> set (restart_entries txns b)" by (auto simp: sizes_of_set)
    then have "f \<in> N" using ok by force
    then have "contents (data_key f b') (m_os b') = contents (data_key f b) (m_os b)"
      using b'(4) site_key_log [OF s, of f m_transaction_log] by (simp add: key)
    moreover have "Max (set (sizes_of f (restart_entries txns b))) = ?z"
      using y by (intro Max_eqI) (auto simp: sizes_of_set restart_entries_mem)
    ultimately show ?thesis by simp
  qed
  ultimately show ?thesis by (simp add: log_inv_def all_entries_restart)
qed

text \<open>
  The systems a crash may leave behind: the logs are as they were, and a file on which a
  transaction is open may have grown by part of the data of a commit that never reached
  the log.
\<close>

definition crash_of :: "FileName set \<Rightarrow> ServerBackend \<Rightarrow> os \<Rightarrow> bool" where
  "crash_of N b s \<longleftrightarrow> os_resolve s = os_resolve (m_os b) \<and> os_denied s = os_denied (m_os b)
     \<and> os_frozen s = os_frozen (m_os b) \<and> quiet s
     \<and> (\<forall>l \<in> set log_order. contents (log_key l b) s = contents (log_key l b) (m_os b))
     \<and> (\<forall>f \<in> N. \<exists>extra. contents (data_key f b) s = contents (data_key f b) (m_os b) @ extra
          \<and> (extra \<noteq> [] \<longrightarrow> (\<exists>i t. m_txns b i = Some t \<and> sp_file_attributes t = f)))"

lemma log_inv_size:
  assumes li: "log_inv N es b" and z: "map_of (fst (load_entries (all_entries es))) f = Some z"
  shows "f \<in> N" "z = int (length (contents (data_key f b) (m_os b)))" "z \<le> llong_max" "0 \<le> z"
proof -
  from z have ne: "sizes_of f (all_entries es) \<noteq> []" and zm: "z = Max (set (sizes_of f (all_entries es)))"
    by (auto simp: load_entries_sizes split: if_splits)
  then have "z \<in> set (sizes_of f (all_entries es))" using Max_in [of "set (sizes_of f (all_entries es))"] by simp
  then obtain i where "(i, f, z) \<in> set (all_entries es)" by (auto simp: sizes_of_set)
  then have "entry_ok (i, f, z) \<and> f \<in> N"
    using li unfolding log_inv_def logs_hold_def all_entries_def by fastforce
  then show "f \<in> N" "z \<le> llong_max" by simp_all
  show "z = int (length (contents (data_key f b) (m_os b)))" using li ne zm by (simp add: log_inv_def)
  then show "0 \<le> z" by simp
qed

lemma log_inv_open:
  assumes li: "log_inv N es b"
  shows "map_of (snd (load_entries (all_entries es))) i = map_option sp_file_attributes (m_txns b i)"
    and "m_txns b i = Some t \<Longrightarrow> map_of (fst (load_entries (all_entries es))) (sp_file_attributes t) \<noteq> None"
proof -
  have "fst (snd (last (entries_of i (all_entries es)))) = sp_file_attributes t \<and>
      map_of (fst (load_entries (all_entries es))) (sp_file_attributes t) \<noteq> None" if t: "m_txns b i = Some t" for t
  proof -
    have "odd (length (entries_of i (all_entries es)))" using li t by (simp add: log_inv_def)
    then have mem: "last (entries_of i (all_entries es)) \<in> set (entries_of i (all_entries es))"
      by (intro last_in_set) auto
    then have eq: "fst (snd (last (entries_of i (all_entries es)))) = sp_file_attributes t"
      using li t unfolding log_inv_def by metis
    obtain j f z where l: "last (entries_of i (all_entries es)) = (j, f, z)" by (metis prod_cases3)
    with mem have "(j, f, z) \<in> set (all_entries es)" by (auto simp: entries_of_def)
    with eq l sizes_of_entry show ?thesis by (auto simp: load_entries_sizes)
  qed
  then show "map_of (snd (load_entries (all_entries es))) i = map_option sp_file_attributes (m_txns b i)"
    "m_txns b i = Some t \<Longrightarrow> map_of (fst (load_entries (all_entries es))) (sp_file_attributes t) \<noteq> None"
    using li by (auto simp: load_entries_txns log_inv_def)
qed

lemma truncate_recovers:
  assumes g: "good N b" and li: "log_inv N es b" and cr: "crash_of N b s"
  defines "s1 \<equiv> without_files (os_resolve s ` set log_order) s"
  obtains fs where "truncateFiles (fst (load_entries (all_entries es))) s1 = (Inr (), s1\<lparr>os_files := fs\<rparr>)"
    and "\<forall>f \<in> N. contents (data_key f b) (s1\<lparr>os_files := fs\<rparr>) = contents (data_key f b) (m_os b)"
    and "\<forall>l \<in> set log_order. contents (log_key l b) (s1\<lparr>os_files := fs\<rparr>) = []"
proof -
  let ?szs = "fst (load_entries (all_entries es))"
  let ?k = "\<lambda>(f :: FileName, z :: FileSize). os_resolve s1 (c_str f)"
  have site: "site N b" by (rule goodD(2) [OF g])
  have res: "os_resolve s1 = os_resolve (m_os b)" "os_frozen s1 = os_frozen (m_os b)"
    using cr by (simp_all add: s1_def crash_of_def)
  have sz: "f \<in> N \<and> z = int (length (contents (data_key f b) (m_os b)))
      \<and> os_resolve s1 (c_str f) = data_key f b" if "(f, z) \<in> set ?szs" for f z
    using that log_inv_size(1,2) [OF li, of f z] load_entries_distinct(1) [of "all_entries es"] site_resolve [OF site, of f]
    by (simp add: res)
  have logs: "os_resolve s ` set log_order = (\<lambda>l. log_key l b) ` set log_order"
    using siteD(9) [OF site] cr by (auto simp: crash_of_def image_iff)
  have c1: "contents (data_key f b) s1 = contents (data_key f b) s" if "f \<in> N" for f
    using site_key_log [OF site that] by (auto simp: s1_def logs contents_def)
  have ext: "\<exists>extra. contents (data_key f b) s = contents (data_key f b) (m_os b) @ extra
      \<and> (extra \<noteq> [] \<longrightarrow> (\<exists>i t. m_txns b i = Some t \<and> sp_file_attributes t = f))" if "f \<in> N" for f
    using cr that by (simp add: crash_of_def)
  have "inj_on ?k (set ?szs)"
  proof (rule inj_onI)
    fix x y assume xy: "x \<in> set ?szs" "y \<in> set ?szs" "?k x = ?k y"
    obtain f z h w where eq: "x = (f, z)" "y = (h, w)" by (metis surj_pair)
    with xy sz [of f z] sz [of h w] siteD(10) [OF site, of f h] show "x = y" by simp
  qed
  then have "distinct (map ?k ?szs)"
    using load_entries_distinct(1) [of "all_entries es"] by (simp add: distinct_map)
  moreover have "\<forall>(f, z) \<in> set ?szs. \<not> os_frozen s1 (os_resolve s1 (c_str f)) \<and> 0 \<le> z
           \<and> z \<le> int (length (contents (os_resolve s1 (c_str f)) s1))"
  proof safe
    fix f z assume fz: "(f, z) \<in> set ?szs"
    note f = sz [OF fz]
    from f show "os_frozen s1 (os_resolve s1 (c_str f)) \<Longrightarrow> False" using siteD(8) [OF site, of f] by (simp add: res)
    from f show "0 \<le> z" by simp
    from f ext [of f] show "z \<le> int (length (contents (os_resolve s1 (c_str f)) s1))" by (auto simp: c1)
  qed
  ultimately obtain fs where fs: "truncateFiles ?szs s1 = (Inr (), s1\<lparr>os_files := fs\<rparr>)"
    "\<forall>(f, z) \<in> set ?szs. contents (os_resolve s1 (c_str f)) (s1\<lparr>os_files := fs\<rparr>)
           = take (nat z) (contents (os_resolve s1 (c_str f)) s1)"
    "\<forall>k. k \<notin> ?k ` set ?szs \<longrightarrow> fs k = os_files s1 k"
    using truncateFiles_contents [of s1 ?szs] by auto
  have "contents (data_key f b) (s1\<lparr>os_files := fs\<rparr>) = contents (data_key f b) (m_os b)" if f: "f \<in> N" for f
  proof (cases "map_of ?szs f")
    case (Some z)
    then have m: "(f, z) \<in> set ?szs" by (rule map_of_SomeD)
    from ext [OF f] obtain extra where "contents (data_key f b) s1 = contents (data_key f b) (m_os b) @ extra"
      using c1 [OF f] by auto
    moreover have "contents (data_key f b) (s1\<lparr>os_files := fs\<rparr>) = take (nat z) (contents (data_key f b) s1)"
      using fs(2) m sz [OF m] by auto
    ultimately show ?thesis using sz [OF m] by simp
  next
    case None
    with log_inv_open(2) [OF li] ext [OF f] have "contents (data_key f b) s = contents (data_key f b) (m_os b)"
      by (metis append_Nil2)
    moreover have "data_key f b \<notin> ?k ` set ?szs"
    proof
      assume "data_key f b \<in> ?k ` set ?szs"
      then obtain h y where "(h, y) \<in> set ?szs" "data_key f b = os_resolve s1 (c_str h)" by auto
      with sz [of h y] siteD(10) [OF site, of f h] f None show False
        by (metis UnI1 image_eqI fst_conv map_of_eq_None_iff)
    qed
    ultimately show ?thesis using fs(3) c1 [OF f] by (simp add: contents_def)
  qed
  moreover have "contents (log_key l b) (s1\<lparr>os_files := fs\<rparr>) = []" if l: "l \<in> set log_order" for l
  proof -
    have "log_key l b \<notin> ?k ` set ?szs"
    proof
      assume "log_key l b \<in> ?k ` set ?szs"
      then obtain h y where "(h, y) \<in> set ?szs" "log_key l b = os_resolve s1 (c_str h)" by auto
      with sz [of h y] site_key_log [OF site _ l, of h] show False by auto
    qed
    moreover have "os_files s1 (log_key l b) = None" using l by (auto simp: s1_def logs)
    ultimately show ?thesis using fs(3) by (simp add: contents_def)
  qed
  ultimately show ?thesis using fs(1) by (intro that) auto
qed

lemma crash_loads:
  assumes g: "good N b" and li: "log_inv N es b" and cr: "crash_of N b s"
  shows "loadFilesAndTransactions s
    = (Inr (load_entries (all_entries es)), without_files (os_resolve s ` set log_order) s)"
proof -
  have site: "site N b" by (rule goodD(2) [OF g])
  have res: "os_resolve s = os_resolve (m_os b)" "os_denied s = os_denied (m_os b)" "os_frozen s = os_frozen (m_os b)"
    using cr by (simp_all add: crash_of_def)
  have "load_logs log_order ([], []) s
    = (Inr (foldl load_entry ([], []) (concat (map es log_order))), without_files (os_resolve s ` set log_order) s)"
  proof (rule load_logs_text)
    show "distinct (map (os_resolve s) log_order)"
      using siteD(9,10) [OF site] distinct_log_order by (auto simp: distinct_map res intro!: inj_onI)
    show "\<forall>l \<in> set log_order. \<not> os_denied s (os_resolve s l) \<and> \<not> os_frozen s (os_resolve s l) \<and> nul_free l
       \<and> contents (os_resolve s l) s = log_text (es l) \<and> (\<forall>e \<in> set (es l). entry_ok e)"
      using siteD(7,8,9) [OF site] li cr nul_free_log by (auto simp: res log_inv_def logs_hold_def crash_of_def)
  qed
  then show ?thesis unfolding loadFilesAndTransactions_def load_entries_def all_entries_def log_order_def .
qed

text \<open>What the logs have as open is open, on a file whose size they have.\<close>

lemma logged_open:
  assumes li: "log_inv N es b" and m: "(i, f) \<in> set (snd (load_entries (all_entries es)))"
  obtains t z where "m_txns b i = Some t" "sp_file_attributes t = f" "map_of (fst (load_entries (all_entries es))) f = Some z"
proof -
  have "map_of (snd (load_entries (all_entries es))) i = Some f"
    using m load_entries_distinct(2) [of "all_entries es"] by simp
  then obtain t where t: "m_txns b i = Some t" "sp_file_attributes t = f"
    using log_inv_open(1) [OF li, of i] by (cases "m_txns b i") simp_all
  with log_inv_open(2) [OF li t(1)] that show ?thesis by auto
qed


definition demo_crashed :: os where
  "demo_crashed = demo_os\<lparr>os_files := [''f'' \<mapsto> ''oldab'', ''.transactionlog.txt'' \<mapsto> ''7 f 3\<newline>'']\<rparr>"

lemma demo_crash_of: "crash_of {''f''} demo_logged demo_crashed"
proof -
  have "contents x demo_crashed = contents x (m_os demo_logged) @ (if x = ''f'' then ''ab'' else [])" for x
    by (simp add: demo_crashed_def demo_logged_def contents_def)
  moreover have "data_key ''f'' demo_logged = ''f''" "log_key l demo_logged \<noteq> ''f''" if "l \<in> set log_order" for l
    using that by (auto simp: demo_logged_def demo_backend_def demo_os_def demo_resolve_def c_str_def NUL_def consts_simps log_order_def)
  moreover have "\<exists>i t. m_txns demo_logged i = Some t \<and> sp_file_attributes t = ''f''"
    by (auto simp: demo_logged_def demo_backend_def demo_txn_def getNewTransactionAttributes_def)
  ultimately show ?thesis
    unfolding crash_of_def
    by (simp add: log_order_def) (simp add: demo_crashed_def demo_logged_def demo_backend_def demo_os_def quiet_def)
qed


end
