(* ===== verification/Rollback.thy ===== *)
theory Rollback
  imports Command_Properties Recovery_Facts
begin

text \<open>
  A commit that fails in the middle. The size an attribute object carries is the size of
  its file between requests, so the truncation in COMMIT's handler takes back exactly
  what the failed commit wrote. Nothing is assumed of the results of the system calls, only
  that the server runs in its own directory and the names it uses name different files.
\<close>

definition home :: "FileName set \<Rightarrow> ServerBackend \<Rightarrow> bool" where
  "home N b \<longleftrightarrow> (\<forall>f \<in> N. nul_free f \<and> os_resolve (m_os b) f = data_key f b \<and> \<not> os_frozen (m_os b) (data_key f b)
        \<and> (\<forall>l \<in> {m_transaction_log, m_timeout_log, m_commit_log, m_abort_log}. data_key f b \<noteq> log_key l b))
     \<and> inj_on (\<lambda>f. data_key f b) N"

definition sizes_in_step :: "FileName set \<Rightarrow> ServerBackend \<Rightarrow> bool" where
  "sizes_in_step N b \<longleftrightarrow>
     (\<forall>f fa. m_files b f = Some fa \<longrightarrow> f \<in> N \<and> m_file_size fa = int (length (contents (data_key f b) (m_os b))))"

lemma homeD:
  assumes "home N b" "f \<in> N"
  shows "nul_free f" "os_resolve (m_os b) (c_str f) = data_key f b" "\<not> os_frozen (m_os b) (data_key f b)"
    "data_key f b \<noteq> log_key m_transaction_log b" "data_key f b \<noteq> log_key m_timeout_log b"
    "data_key f b \<noteq> log_key m_commit_log b" "data_key f b \<noteq> log_key m_abort_log b"
    "g \<in> N \<Longrightarrow> data_key g b = data_key f b \<Longrightarrow> g = f"
  using assms by (auto simp: home_def dest: inj_onD)

lemma home_cong:
  "m_directory b' = m_directory b \<Longrightarrow> os_resolve (m_os b') = os_resolve (m_os b) \<Longrightarrow>
   os_frozen (m_os b') = os_frozen (m_os b) \<Longrightarrow> home N b' = home N b"
  by (simp add: home_def)

lemma touches_contents: "touches ks s s' \<Longrightarrow> x \<notin> ks \<Longrightarrow> contents x s' = contents x s"
  by (simp add: touches_def contents_def)

lemma touches_env: "touches ks s s' \<Longrightarrow> os_resolve s' = os_resolve s \<and> os_frozen s' = os_frozen s"
  by (simp add: touches_def)

subsection \<open>The state after removing a transaction\<close>

lemma removeTransaction_files:
  "m_files (removeTransaction i b) f = Some fa \<Longrightarrow> \<exists>fa0. m_files b f = Some fa0 \<and> m_file_size fa0 = m_file_size fa"
  by (auto simp: removeTransaction_def release_file_attributes_def split: option.splits if_splits)

lemma sizes_in_step_removed:
  assumes "sizes_in_step N b"
  shows "sizes_in_step N (removeTransaction i b)"
proof -
  have "f \<in> N \<and> m_file_size fa = int (length (contents (data_key f b) (m_os b)))"
    if "m_files (removeTransaction i b) f = Some fa" for f fa
    using removeTransaction_files [OF that] assms unfolding sizes_in_step_def by metis
  then show ?thesis by (simp add: sizes_in_step_def)
qed

lemma sizes_in_step_os:
  assumes "sizes_in_step N b" "os_resolve s = os_resolve (m_os b)"
    and "\<And>f. f \<in> N \<Longrightarrow> contents (data_key f b) s = contents (data_key f b) (m_os b)"
  shows "sizes_in_step N (b\<lparr>m_os := s\<rparr>)"
  using assms by (auto simp: sizes_in_step_def)

subsection \<open>A failed commit\<close>

lemma sys_truncate_back:
  assumes h: "home N b" and f: "f \<in> N" and s: "touches {data_key f b} (m_os b) s"
    and c: "os_files s (data_key f b) = Some (contents (data_key f b) (m_os b) @ d)"
    and z: "z = int (length (contents (data_key f b) (m_os b)))"
  shows "snd (sys_truncate f z s) = s\<lparr>os_files := (os_files s)(data_key f b \<mapsto> contents (data_key f b) (m_os b))\<rparr>"
proof -
  have "os_resolve s (c_str f) = data_key f b" "\<not> os_frozen s (data_key f b)"
    using homeD(2,3) [OF h f] touches_env [OF s] by simp_all
  moreover have "contents (data_key f b) s = contents (data_key f b) (m_os b) @ d" using c by (simp add: contents_def)
  ultimately show ?thesis using c z by (simp add: sys_truncate_def Let_def)
qed


definition demo_failing :: ServerBackend where
  "demo_failing = demo_full\<lparr>m_os := demo_os\<lparr>os_writes := [Some 1, None]\<rparr>\<rparr>"

lemma demo_failing_facts:
  "backend_inv demo_failing" "home {''f''} demo_failing" "sizes_in_step {''f''} demo_failing"
proof -
  show "backend_inv demo_failing" using demo_full_inv by (simp add: demo_failing_def)
  show "home {''f''} demo_failing"
    by (simp add: home_def demo_failing_def demo_full_rest demo_os_def demo_resolve_def c_str_def NUL_def consts_simps)
  show "sizes_in_step {''f''} demo_failing"
    by (auto simp: sizes_in_step_def demo_failing_def demo_full_def demo_backend_def demo_txn_def demo_env_def
        getNewTransactionAttributes_def command_defs WRITE_locked_def reply_simps demo_os_def demo_resolve_def
        c_str_def NUL_def contents_def consts_simps split: if_splits)
qed


subsection \<open>The sizes stay in step\<close>

lemma sizes_in_step_with_txn: "sizes_in_step N (with_txn i t b) = sizes_in_step N b"
  by (simp add: sizes_in_step_def)

lemma COMMIT_sizes:
  assumes inv: "backend_inv b" and k: "is_int k" and h: "home N b" and sz: "sizes_in_step N b"
    and com: "COMMIT (c, i, k, n, d) e p b = (r, b')"
  shows "sizes_in_step N b'"
  using inv
proof (cases rule: COMMIT_cases [of b i c k n d e p])
  case (full t fa)
  let ?t = "closed_at k (now e) t" and ?b = "with_txn i (closed_at k (now e) t) b" and ?f = "sp_file_attributes t"
  note fl = full(7) [unfolded com, symmetric]
  have fm: "first_missing (buffers ?t) (initial_seq_num + 1) (max_seq_num ?t) = None"
    "m_file_name fa = sp_file_attributes ?t" using full by simp_all
  have ti: "txn_inv ?t" by (rule commit_flush_facts [OF inv k full(2,3)])
  have f: "?f \<in> N" and z: "m_file_size fa = int (length (contents (data_key ?f b) (m_os b)))"
    using sz full(5) by (auto simp: sizes_in_step_def)
  have szb: "sizes_in_step N ?b" using sz by (simp add: sizes_in_step_with_txn)
  from fm ti show ?thesis
  proof (cases rule: COMMIT_flush_cases [of ?t fa ?b i k p])
    case denied
    then show ?thesis using fl szb by (simp add: reply_simps)
  next
    case (failed s w)
    let ?s = "s\<lparr>os_files := (os_files s)(data_key ?f b \<mapsto> contents (data_key ?f b) (m_os b))\<rparr>"
    have "snd (sys_truncate ?f (m_file_size fa) s) = ?s"
      by (rule sys_truncate_back [OF h f, of s w]) (use failed z in simp_all)
    then have b': "b' = ?b\<lparr>m_os := ?s\<rparr>" using failed(5) fl by (simp add: reply_simps)
    have "contents (data_key g b) ?s = contents (data_key g b) (m_os b)" if g: "g \<in> N" for g
      using touches_contents [OF failed(2)] homeD(8) [OF h f g] by (cases "g = ?f") (auto simp: contents_def)
    then show ?thesis unfolding b'
      using touches_env [OF failed(2)] by (intro sizes_in_step_os [OF szb]) simp_all
  next
    case (flushed s w)
    let ?b2 = "?b\<lparr>m_files := (m_files b)(?f := map_option (m_file_size_update (\<lambda>_. int (length w))) (m_files b ?f)),
        m_commits := insert i (m_commits b), m_os := s\<rparr>"
    have res: "os_resolve s = os_resolve (m_os b)" using touches_env [OF flushed(2)] by simp
    have "g \<in> N \<and> m_file_size ga = int (length (contents (data_key g b) s))" if ga: "m_files ?b2 g = Some ga" for g ga
    proof (cases "g = ?f")
      case True
      with ga full(5) f flushed(3) show ?thesis by (auto simp: contents_def)
    next
      case False
      with ga sz have g: "g \<in> N" "m_file_size ga = int (length (contents (data_key g b) (m_os b)))"
        by (auto simp: sizes_in_step_def)
      moreover have "contents (data_key g b) s = contents (data_key g b) (m_os b)"
        using touches_contents [OF flushed(2)] homeD(6) [OF h g(1)] homeD(8) [OF h f g(1)] False by auto
      ultimately show ?thesis by simp
    qed
    then have "sizes_in_step N ?b2" by (simp add: sizes_in_step_def res)
    moreover have "b' = removeTransaction i ?b2" using flushed(6) fl by (simp add: reply_simps committed_state_def)
    ultimately show ?thesis by (simp add: sizes_in_step_removed)
  qed
qed (use com sz in \<open>auto simp: reply_simps sizes_in_step_with_txn\<close>)



end
