(* ===== verification/Lifecycle.thy ===== *)
theory Lifecycle
  imports Command_Properties
begin

text \<open>
  The life of a transaction: how it starts, how it can end, and that it ends. The whole
  backend, requests and timer threads together, is a state machine; its invariant is proved
  over the reachable states.
\<close>

subsection \<open>Starting\<close>

text \<open>
  NEW\_TXN with sequence number 0 opens an empty transaction on the named file under an
  identifier that no open transaction has, the first such one that \<open>rand\<close> delivers, and
  answers with it; the identifier is in \<open>[0, INT_MAX)\<close>.
\<close>

theorem NEW_TXN_opens_fresh:
  assumes f: "nul_free f" and j: "\<exists>n. m_txns b (int (rands e n mod INT32_MAX)) = None"
  shows "\<exists>j n' b'. NEW_TXN (c, i, 0, n, f) e p b = (Inr ((ack_cmd, j, 0, nil, []), p), b')
    \<and> j = int (rands e n' mod INT32_MAX) \<and> (\<forall>l < n'. m_txns b (int (rands e l mod INT32_MAX)) \<noteq> None)
    \<and> m_txns b j = None \<and> 0 \<le> j \<and> j < int_max
    \<and> m_txns b' = (m_txns b)(j \<mapsto> getNewTransactionAttributes f (now e))"
proof -
  from j candidate_id_returns [of "m_txns b" "rands e" 0] obtain j where
    c: "candidate_id (rands e) 0 (m_txns b) = Some j" by auto
  from candidate_id_Some [OF c] obtain n' where
    n': "j = int (rands e n' mod INT32_MAX)" "\<forall>l < n'. m_txns b (int (rands e l mod INT32_MAX)) \<noteq> None" by auto
  obtain s where "NEW_TXN (c, i, 0, n, f) e p b = SET_NEW_TXN j p (started_state j f (now e) s b)"
    by (rule NEW_TXN_cases [OF f, of 0 c i n e p b]) (use c in auto)
  with n' candidate_id_range [OF c] show ?thesis
    by (intro exI [of _ j] exI [of _ n'] exI [of _ "started_state j f (now e) s b"]) (simp add: reply_simps consts_simps)
qed

theorem NEW_TXN_opens_fresh_witness:
  "\<exists>j b'. NEW_TXN (new_txn_cmd, -1, 0, 1, ''g'') demo_env True demo_backend = (Inr ((ack_cmd, j, 0, nil, []), True), b')"
proof -
  have "m_txns demo_backend (int (rands demo_env 0 mod INT32_MAX)) = None"
    by (simp add: demo_backend_def demo_env_def INT32_MAX_def)
  with NEW_TXN_opens_fresh [of "''g''" demo_backend demo_env new_txn_cmd "-1" 1 True] show ?thesis by auto
qed

subsection \<open>Ending\<close>

text \<open>
  A transaction without writes cannot be committed: COMMIT answers with an error or asks
  for write number 1.
\<close>

theorem empty_transaction_not_committed:
  assumes "backend_inv b" "m_txns b i = Some t" "buffers t = Map.empty" "i \<notin> m_commits b" "1 \<le> max_seq_num t"
  shows "\<exists>b'. COMMIT (c, i, k, n, d) e p b = (if k < max_seq_num t
      then (Inr ((error_cmd, i, k, CommitWithInvalidSequenceNumber, getErrorMessage CommitWithInvalidSequenceNumber), False), b')
      else (Inr ((ask_resend_cmd, i, 1, nil, []), p), b')) \<and> i \<notin> m_commits b'"
  using assms(1)
proof (cases rule: COMMIT_cases [of b i c k n d e p])
  case (missing t' m)
  have "first_missing (buffers t) (initial_seq_num + 1) k = Some 1" if "1 \<le> k"
    using assms(3) that by (subst first_missing.simps) (simp add: consts_simps)
  with missing assms show ?thesis by (auto simp: reply_simps)
next
  case (full t' fa)
  then show ?thesis using assms(2,3,5) first_missing_None [of "buffers t" 1 k] by (auto simp: consts_simps)
qed (use assms in \<open>auto simp: reply_simps\<close>)

theorem empty_transaction_not_committed_witness:
  "\<exists>b'. COMMIT (commit_cmd, 7, 1, 0, []) demo_env True demo_backend = (Inr ((ask_resend_cmd, 7, 1, nil, []), True), b')"
  using empty_transaction_not_committed [OF demo_backend_inv, of 7 demo_txn commit_cmd 1 0 "[]" demo_env True]
  by (simp add: demo_backend_def demo_txn_def getNewTransactionAttributes_def consts_simps) blast

text \<open>
  ABORT discards a transaction: it is gone, no file but the abort log has changed, and
  any later write, commit or abort of it is refused as naming no transaction.
\<close>

theorem ABORT_discards:
  assumes inv: "backend_inv b" and t: "m_txns b i = Some t" "i \<notin> m_commits b"
  shows "\<exists>b'. ABORT (c, i, k, n, d) p b = (Inr ((ack_cmd, i, k, nil, []), False), b') \<and> m_txns b' = (m_txns b)(i := None)
    \<and> (\<forall>x. x \<noteq> log_key m_abort_log b \<longrightarrow> os_files (m_os b') x = os_files (m_os b) x)
    \<and> WRITE (c', i, k', n', d') e p' b' = SET_ERROR InvalidTransactionId i k' b'
    \<and> COMMIT (c', i, k', n', d') e p' b' = SET_ERROR InvalidTransactionId i k' b'
    \<and> ABORT (c', i, k', n', d') p' b' = SET_ERROR InvalidTransactionId i k' b'"
proof (cases rule: ABORT_cases [OF inv, of i c k n d p])
  case (3 t' s)
  let ?b = "removeTransaction i (b\<lparr>m_os := s\<rparr>)"
  have "m_txns ?b i = None" "i \<notin> m_commits ?b" using t by simp_all
  with 3 show ?thesis
    by (intro exI [of _ ?b]) (auto simp: reply_simps touches_def command_defs)
qed (use t in simp_all)

theorem ABORT_discards_witness:
  "\<exists>b'. ABORT (abort_cmd, 7, 0, 0, []) True demo_full = (Inr ((ack_cmd, 7, 0, nil, []), False), b')
    \<and> COMMIT (commit_cmd, 7, 2, 0, []) demo_env True b' = SET_ERROR InvalidTransactionId 7 2 b'"
proof -
  obtain t where "m_txns demo_full 7 = Some t" using demo_full_txn by blast
  from ABORT_discards [OF demo_full_inv this, of abort_cmd 0 0 "[]" True commit_cmd 2 0 "[]" demo_env True]
  show ?thesis by (auto simp: demo_full_rest)
qed

text \<open>
  C24. The timer removes a transaction exactly when its last activity is 15 seconds or more in
  the past; otherwise it sleeps until 15 seconds after that activity and changes nothing.
\<close>

theorem timer_turn_spec:
  assumes nul: "nul_free (timer_file_name tm)" and t: "m_txns b (timer_txn_id tm) = Some t"
  shows "if woken_at \<ge> curr_timestamp t + 15000000000
    then \<exists>b'. txn_timer_turn tm woken_at b = (Inr None, b') \<and> m_txns b' = (m_txns b)(timer_txn_id tm := None)
        \<and> (\<forall>x. x \<noteq> log_key m_timeout_log b \<longrightarrow> os_files (m_os b') x = os_files (m_os b) x)
    else txn_timer_turn tm woken_at b = (Inr (Some (tm\<lparr>timer_latest_timestamp := curr_timestamp t\<rparr>)), b)"
  using nul
proof (cases rule: txn_timer_turn_cases [of tm b woken_at])
  case (expired t' s)
  with t show ?thesis by (auto simp: txn_timeout_def consts_simps touches_def)
qed (use t in \<open>auto simp: txn_timeout_def consts_simps\<close>)

theorem timer_turn_spec_witness:
  "\<exists>b'. txn_timer_turn (new_timer 7 ''f'' 0) 15000000000 demo_backend = (Inr None, b') \<and> m_txns b' 7 = None"
proof -
  have "m_txns demo_backend 7 = Some demo_txn" "curr_timestamp demo_txn = 0"
    by (simp_all add: demo_backend_def demo_txn_def getNewTransactionAttributes_def)
  with timer_turn_spec [of "new_timer 7 ''f'' 0" demo_backend demo_txn 15000000000] show ?thesis
    by (auto simp: new_timer_def)
qed

subsection \<open>Requests and timers together\<close>

inductive server_step :: "ServerBackend \<Rightarrow> ServerBackend \<Rightarrow> bool" where
  request: "processCommand (getClientRequestAsTuple (Some h) (Some pl)) e p b = (Inr x, b') \<Longrightarrow> server_step b b'"
| timer_ends: "tm \<in> set (m_timers b) \<Longrightarrow> w \<ge> timer_latest_timestamp tm + txn_timeout \<Longrightarrow>
    txn_timer_turn tm w b = (Inr None, b') \<Longrightarrow> server_step b (b'\<lparr>m_timers := remove1 tm (m_timers b')\<rparr>)"
| timer_sleeps: "tm \<in> set (m_timers b) \<Longrightarrow> w \<ge> timer_latest_timestamp tm + txn_timeout \<Longrightarrow>
    txn_timer_turn tm w b = (Inr (Some tm'), b') \<Longrightarrow> server_step b (b'\<lparr>m_timers := tm' # remove1 tm (m_timers b')\<rparr>)"

inductive reachable :: "ServerBackend \<Rightarrow> ServerBackend \<Rightarrow> bool" for b0 where
  start: "reachable b0 b0"
| step: "reachable b0 b \<Longrightarrow> server_step b b' \<Longrightarrow> reachable b0 b'"

text \<open>Every open transaction has a timer, so none can stay open for ever without activity.\<close>

definition timers_inv :: "ServerBackend \<Rightarrow> bool" where
  "timers_inv b \<longleftrightarrow> (\<forall>i \<in> dom (m_txns b). \<exists>tm \<in> set (m_timers b). timer_txn_id tm = i)
     \<and> (\<forall>tm \<in> set (m_timers b). nul_free (timer_file_name tm))"

lemma processCommand_timers:
  assumes inv: "backend_inv b" and ok: "request_ok req" and pc: "processCommand req e p b = (r, b')" and ti: "timers_inv b"
  shows "timers_inv b'"
proof -
  obtain c i k n f where req: "req = (c, i, k, n, f)" by (cases req)
  with ok have k: "is_int k" "nul_free f" by simp_all
  have less: "timers_inv b'" if "m_timers b' = m_timers b" "dom (m_txns b') \<subseteq> dom (m_txns b)" for b'
    using that ti by (auto simp: timers_inv_def)
  have "timers_inv b'" if r: "READ req p b = (r, b')"
    by (rule less) (use r READ_frame [of req p b] in auto)
  moreover have "timers_inv b'" if r: "WRITE req e p b = (r, b')"
    by (rule WRITE_cases [of i b c k n f e p]; rule less)
       (use r in \<open>auto simp: req reply_simps split: if_splits\<close>)
  moreover have "timers_inv b'" if r: "ABORT req p b = (r, b')"
    by (rule ABORT_cases [OF inv, of i c k n f p]; rule less)
       (use r in \<open>auto simp: req reply_simps split: if_splits\<close>)
  moreover have "timers_inv b'" if r: "NEW_TXN req e p b = (r, b')"
    using k(2)
  proof (cases rule: NEW_TXN_cases [of f k c i n e p b])
    case (started j s)
    with r ti k(2) show ?thesis by (auto simp: req reply_simps timers_inv_def new_timer_def)
  qed (use r ti in \<open>auto simp: req reply_simps\<close>)
  moreover have "timers_inv b'" if r: "COMMIT req e p b = (r, b')"
    using inv
  proof (cases rule: COMMIT_cases [of b i c k n f e p])
    case (full t fa)
    let ?t = "closed_at k (now e) t" and ?b = "with_txn i (closed_at k (now e) t) b"
    note fl = full(7) [unfolded r [unfolded req], symmetric]
    have fm: "first_missing (buffers ?t) (initial_seq_num + 1) (max_seq_num ?t) = None"
      "m_file_name fa = sp_file_attributes ?t" using full by simp_all
    have ti: "txn_inv ?t" by (rule commit_flush_facts [OF inv k(1) full(2,3)])
    show ?thesis
      by (rule COMMIT_flush_cases [OF fm ti, of ?b i k p]; rule less)
         (use fl full(2) in \<open>auto simp: reply_simps split: if_splits\<close>)
  qed (use r in \<open>auto simp: req reply_simps intro!: less split: if_splits\<close>)
  ultimately show ?thesis
    using pc ti by (auto simp: req processCommand_def reply_simps split: if_splits)
qed

lemma server_step_inv:
  assumes "server_step b b'" "backend_inv b" "timers_inv b"
  shows "backend_inv b' \<and> timers_inv b'"
  using assms(1)
proof (cases rule: server_step.cases)
  case (request h pl e p x)
  show ?thesis
    using processCommand_inv(1) [OF assms(2) request_ok_parsed request]
      processCommand_timers [OF assms(2) request_ok_parsed request assms(3)] by blast
next
  case (timer_ends tm w b1)
  then have nul: "nul_free (timer_file_name tm)" using assms(3) by (simp add: timers_inv_def)
  have inv: "backend_inv b1" using txn_timer_turn_safe [OF assms(2) nul timer_ends(4)] by blast
  have "m_timers b1 = m_timers b \<and> dom (m_txns b1) = dom (m_txns b) - {timer_txn_id tm}"
    by (cases rule: txn_timer_turn_cases [OF nul, of b w]) (use timer_ends(4) in auto)
  then have t1: "m_timers b1 = m_timers b" "dom (m_txns b1) = dom (m_txns b) - {timer_txn_id tm}" by auto
  have "\<exists>u \<in> set (remove1 tm (m_timers b1)). timer_txn_id u = i" if i: "i \<in> dom (m_txns b1)" for i
  proof -
    from i t1(2) have "i \<in> dom (m_txns b)" "i \<noteq> timer_txn_id tm" by auto
    with assms(3) obtain u where "u \<in> set (m_timers b)" "timer_txn_id u = i" "u \<noteq> tm" unfolding timers_inv_def by blast
    then show ?thesis unfolding t1(1) by (intro bexI [of _ u]) simp_all
  qed
  moreover have "set (remove1 tm (m_timers b1)) \<subseteq> set (m_timers b)" unfolding t1(1) by (rule set_remove1_subset)
  then have "\<forall>u \<in> set (remove1 tm (m_timers b1)). nul_free (timer_file_name u)"
    using assms(3) unfolding timers_inv_def by blast
  ultimately show ?thesis using timer_ends(1) inv by (simp add: timers_inv_def)
next
  case (timer_sleeps tm w tm' b1)
  then have nul: "nul_free (timer_file_name tm)" using assms(3) by (simp add: timers_inv_def)
  have "b1 = b \<and> timer_txn_id tm' = timer_txn_id tm \<and> timer_file_name tm' = timer_file_name tm"
    by (cases rule: txn_timer_turn_cases [OF nul, of b w]) (use timer_sleeps(4) in auto)
  then have t1: "b1 = b" "timer_txn_id tm' = timer_txn_id tm" "timer_file_name tm' = timer_file_name tm" by auto
  have "\<exists>u \<in> set (tm' # remove1 tm (m_timers b)). timer_txn_id u = i" if i: "i \<in> dom (m_txns b)" for i
  proof -
    from i assms(3) obtain u where "u \<in> set (m_timers b)" "timer_txn_id u = i" unfolding timers_inv_def by blast
    then show ?thesis using t1(2) by (cases "u = tm") (auto intro: in_set_remove1 [THEN iffD2])
  qed
  moreover have "set (remove1 tm (m_timers b)) \<subseteq> set (m_timers b)" by (rule set_remove1_subset)
  then have "\<forall>u \<in> set (tm' # remove1 tm (m_timers b)). nul_free (timer_file_name u)"
    using assms(3) nul t1(3) unfolding timers_inv_def by auto
  ultimately show ?thesis using timer_sleeps(1) assms(2) t1(1) by (simp add: timers_inv_def)
qed

text \<open>
  C12. In every state the backend can reach, through requests of any content and timer
  threads waking up in any order, the data structures are consistent and every open
  transaction has a timer thread of its own.
\<close>

theorem reachable_invariant:
  assumes "reachable b0 b" "backend_inv b0" "timers_inv b0"
  shows "backend_inv b \<and> timers_inv b"
  using assms by (induction rule: reachable.induct) (auto dest: server_step_inv)

lemma new_backend_inv: "backend_inv (ServerBackend_new d s)" "timers_inv (ServerBackend_new d s)"
  by (simp_all add: backend_inv_def timers_inv_def ServerBackend_new_def file_inv_def)

theorem reachable_invariant_witness:
  "backend_inv (snd (processCommand (getClientRequestAsTuple (Some ''READ -1 0 1'') (Some ''f'')) demo_env True
      (ServerBackend_new ''d'' demo_os)))"
proof -
  let ?b = "ServerBackend_new ''d'' demo_os" and ?req = "getClientRequestAsTuple (Some ''READ -1 0 1'') (Some ''f'')"
  have "fst (processCommand ?req demo_env True ?b) = Inr ((ack_cmd, -1, 0, nil, ''old''), True)" by code_simp
  then obtain x where "processCommand ?req demo_env True ?b = (Inr x, snd (processCommand ?req demo_env True ?b))"
    by (metis prod.collapse)
  then have "reachable ?b (snd (processCommand ?req demo_env True ?b))"
    by (intro reachable.step [OF reachable.start] server_step.request)
  from reachable_invariant [OF this new_backend_inv] show ?thesis by blast
qed

end
