(* ===== verification/Arguments.thy ===== *)
theory Arguments
  imports Regex
begin

text \<open>
  argument-helper.h: extraction and validation of the command line arguments of the server and
  of the test program, and the help messages. \<open>argv\<close> is the list of arguments, \<open>argc\<close> its
  length. The supported arguments are an association list from a prefix to the value of the
  variable it refers to, in the order in which the unordered map is iterated; the order is shown
  not to matter. \<open>exit(EXIT_FAILURE)\<close> is \<open>Inl ExitFailure\<close>, and what is written to the error
  stream is left out.
\<close>

definition server_ipv4_addr_arg_prefix :: string where
  "server_ipv4_addr_arg_prefix = ''--server_ipv4_addr=''"

definition server_port_arg_prefix :: string where
  "server_port_arg_prefix = ''--server_port=''"

definition server_directory_arg_prefix :: string where
  "server_directory_arg_prefix = ''--server_directory=''"

definition help_arg_prefix :: string where
  "help_arg_prefix = ''--help''"

definition argument_indent :: string where
  "argument_indent = ''  ''"

definition description_indent :: string where
  "description_indent = ''      ''"

lemmas prefix_defs = server_ipv4_addr_arg_prefix_def server_port_arg_prefix_def server_directory_arg_prefix_def

subsection \<open>Extraction\<close>

type_synonym supported = "(string \<times> string) list"

text \<open>The inner loop: the first supported prefix of the argument takes the rest of it; \<open>None\<close> if there is none.\<close>

fun assign_argument :: "string \<Rightarrow> supported \<Rightarrow> supported option" where
  "assign_argument arg [] = None"
| "assign_argument arg ((pre, var) # supp) =
     (if take (length pre) arg = pre then Some ((pre, drop (length pre) arg) # supp)
      else map_option (Cons (pre, var)) (assign_argument arg supp))"

text \<open>The outer loop; an argument that was taken is replaced by a null pointer, here \<open>None\<close>.\<close>

fun extract_arguments_loop :: "string list \<Rightarrow> supported \<Rightarrow> string option list \<times> supported" where
  "extract_arguments_loop [] supp = ([], supp)"
| "extract_arguments_loop (arg # args) supp =
     (case assign_argument arg supp of
        Some supp \<Rightarrow> (case extract_arguments_loop args supp of (argv, supp) \<Rightarrow> (None # argv, supp))
      | None \<Rightarrow> (case extract_arguments_loop args supp of (argv, supp) \<Rightarrow> (Some arg # argv, supp)))"

definition extractArguments :: "string list \<Rightarrow> supported \<Rightarrow> string option list \<times> supported" where
  "extractArguments in_argv supp =
     (case in_argv of
        [] \<Rightarrow> ([], supp)
      | program # args \<Rightarrow> (case extract_arguments_loop args supp of (argv, supp) \<Rightarrow> (Some program # argv, supp)))"

definition hasHelpArgument :: "string list \<Rightarrow> bool" where
  "hasHelpArgument in_argv = list_ex (\<lambda>arg. arg = help_arg_prefix) (tl in_argv)"

subsection \<open>Help messages\<close>

definition printClientHelpMessage :: string where
  "printClientHelpMessage = concat
    [''\<newline>'',
     ''Required Arguments:'', ''\<newline>'',
     argument_indent, server_ipv4_addr_arg_prefix, ''[IPV4_ADDRESS]'', ''\<newline>'',
     description_indent, ''The IPv4 address of the server to connect to for running the tests.'', ''\<newline>'',
     argument_indent, server_port_arg_prefix, ''[NUMBER]'', ''\<newline>'',
     description_indent, ''The port number the server file system is listening on.'', ''\<newline>'',
     ''\<newline>'',
     ''Optional Arguments:'', ''\<newline>'',
     argument_indent, server_directory_arg_prefix, ''[DIRECTORY_PATH]'', ''\<newline>'',
     description_indent, ''The path to the directory where the server is writing files. This\<newline>'',
     description_indent, ''argument can be used when the client and server are running on the\<newline>'',
     description_indent, ''same machine to enable deletion of test created files.'', ''\<newline>'',
     ''\<newline>'']"

definition printServerHelpMessage :: string where
  "printServerHelpMessage = concat
    [''\<newline>'',
     ''Required Arguments:'', ''\<newline>'',
     argument_indent, server_ipv4_addr_arg_prefix, ''[IPV4_ADDRESS]'', ''\<newline>'',
     description_indent, ''The IPv4 address of the server.'', ''\<newline>'',
     argument_indent, server_port_arg_prefix, ''[NUMBER]'', ''\<newline>'',
     description_indent, ''The port number the server is to listen on.'', ''\<newline>'',
     argument_indent, server_directory_arg_prefix, ''[DIRECTORY_PATH]'', ''\<newline>'',
     description_indent, ''The path to the directory where the server is to write files.'', ''\<newline>'',
     ''\<newline>'']"

subsection \<open>Validation\<close>

text \<open>What \<open>opendir\<close> tells about a path.\<close>

datatype opendir_result = Dir_opened | Dir_ENOENT | Dir_failed

definition validateDirectory :: "(string \<Rightarrow> opendir_result) \<Rightarrow> string \<Rightarrow> string outcome" where
  "validateDirectory opendir in_directory =
     (if in_directory = [] then Inl ExitFailure
      else (case opendir (c_str in_directory) of
              Dir_opened \<Rightarrow>
                Inr (if last in_directory \<noteq> CHR ''/'' then in_directory @ ''/'' else in_directory)
            | Dir_ENOENT \<Rightarrow> Inl ExitFailure
            | Dir_failed \<Rightarrow> Inl ExitFailure))"

text \<open>The bracket expression \<open>[lo-hi]\<close> for digits.\<close>

definition digit_range :: "nat \<Rightarrow> nat \<Rightarrow> rexp" where
  "digit_range lo hi = Bracket (map digit_char [lo..<Suc hi])"

text \<open>\<open>[0-9]|[1-9][0-9]|1[0-9]{2}|2[0-4][0-9]|25[0-5]\<close>\<close>

definition octet_format :: rexp where
  "octet_format =
     Either (digit_range 0 9)
    (Either (Concat (digit_range 1 9) (digit_range 0 9))
    (Either (Concat (digit_range 1 1) (Times 2 (digit_range 0 9)))
    (Either (Concat (digit_range 2 2) (Concat (digit_range 0 4) (digit_range 0 9)))
            (Concat (digit_range 2 2) (Concat (digit_range 5 5) (digit_range 0 5))))))"

definition ipv4_address_format :: rexp where
  "ipv4_address_format = Concat (Times 3 (Concat octet_format (Literal ''.''))) octet_format"

text \<open>\<open>[1-9][0-9]{0,3}|[1-5][0-9]{4}|6[0-4][0-9]{3}|65[0-4][0-9]{2}|655[0-2][0-9]|6553[0-5]\<close>\<close>

definition port_format :: rexp where
  "port_format =
     Either (Concat (digit_range 1 9) (Up_to 3 (digit_range 0 9)))
    (Either (Concat (digit_range 1 5) (Times 4 (digit_range 0 9)))
    (Either (Concat (digit_range 6 6) (Concat (digit_range 0 4) (Times 3 (digit_range 0 9))))
    (Either (Concat (digit_range 6 6) (Concat (digit_range 5 5) (Concat (digit_range 0 4) (Times 2 (digit_range 0 9)))))
    (Either (Concat (digit_range 6 6) (Concat (digit_range 5 5) (Concat (digit_range 5 5)
              (Concat (digit_range 0 2) (digit_range 0 9)))))
            (Concat (digit_range 6 6) (Concat (digit_range 5 5) (Concat (digit_range 5 5)
              (Concat (digit_range 3 3) (digit_range 0 5)))))))))"

definition validateIPv4Address :: "string \<Rightarrow> unit outcome" where
  "validateIPv4Address in_ipv4_address =
     (if in_ipv4_address = [] then Inl ExitFailure
      else if \<not> regex_match in_ipv4_address ipv4_address_format then Inl ExitFailure
      else Inr ())"

definition validatePortNumber :: "string \<Rightarrow> unit outcome" where
  "validatePortNumber in_portno =
     (if in_portno = [] then Inl ExitFailure
      else if \<not> regex_match in_portno port_format then Inl ExitFailure
      else Inr ())"

text \<open>\<open>std::stoi\<close>: both exceptions it throws are uncaught where the program calls it.\<close>

definition stoi :: "string \<Rightarrow> int outcome" where
  "stoi s = (case extract_cint 0 (istringstream s) of (v, st) \<Rightarrow> if failbit st then Inl Terminate else Inr v)"

subsection \<open>Decimal numerals\<close>

text \<open>A numeral without superfluous leading zeros is the one \<open>to_string\<close> prints.\<close>

definition is_numeral :: "string \<Rightarrow> bool" where
  "is_numeral w \<longleftrightarrow> w \<noteq> [] \<and> list_all is_digit w \<and> (length w = 1 \<or> digit_val (hd w) \<noteq> 0)"

lemma digits_value_pos: "list_all is_digit w \<Longrightarrow> w \<noteq> [] \<Longrightarrow> digit_val (hd w) \<noteq> 0 \<Longrightarrow> 0 < digits_value w"
  by (induction w rule: rev_induct) (auto simp: digits_value_def hd_append split: if_splits)

lemma to_string_nat_digits_value: "is_numeral w \<Longrightarrow> to_string_nat (digits_value w) = w"
proof (induction w rule: rev_induct)
  case (snoc c w)
  then have c: "is_digit c" by (simp add: is_numeral_def)
  show ?case
  proof (cases "w = []")
    case True
    with c show ?thesis by (subst to_string_nat.simps) (simp add: digits_value_def)
  next
    case False
    with snoc.prems have w: "is_numeral w" "0 < digits_value w"
      by (auto simp: is_numeral_def intro: digits_value_pos)
    with snoc.IH c show ?thesis by (subst to_string_nat.simps) simp
  qed
qed (simp add: is_numeral_def)

lemma numeral_to_string_nat: "is_numeral (to_string_nat n)"
proof -
  have "0 < n \<Longrightarrow> digit_val (hd (to_string_nat n)) \<noteq> 0"
  proof (induction n rule: to_string_nat.induct)
    case (1 n)
    then show ?case by (subst to_string_nat.simps) (auto simp: hd_append)
  qed
  moreover have "length (to_string_nat 0) = 1" by (subst to_string_nat.simps) simp
  ultimately show ?thesis
    by (cases "n = 0") (auto simp: is_numeral_def list_all_iff dest: to_string_nat_digits)
qed

lemma numeral_iff: "is_numeral w \<longleftrightarrow> w = to_string_nat (digits_value w)"
  using to_string_nat_digits_value numeral_to_string_nat by metis

subsection \<open>The formats, character by character\<close>

lemma in_digit_range:
  assumes "hi < 10"
  shows "c \<in> set (map digit_char [lo..<Suc hi]) \<longleftrightarrow> is_digit c \<and> lo \<le> digit_val c \<and> digit_val c \<le> hi"
proof
  assume "is_digit c \<and> lo \<le> digit_val c \<and> digit_val c \<le> hi"
  then have "c = digit_char (digit_val c)" "digit_val c \<in> set [lo..<Suc hi]" by auto
  then show "c \<in> set (map digit_char [lo..<Suc hi])" by (metis image_eqI set_map)
qed (use assms in auto)

lemma lang_digit_range:
  "hi < 10 \<Longrightarrow> w \<in> lang (digit_range lo hi) \<longleftrightarrow> (\<exists>c. w = [c] \<and> is_digit c \<and> lo \<le> digit_val c \<and> digit_val c \<le> hi)"
  unfolding digit_range_def lang.simps mem_Collect_eq by (metis in_digit_range)

lemma lang_Concat_digit_range:
  "hi < 10 \<Longrightarrow> w \<in> lang (Concat (digit_range lo hi) q) \<longleftrightarrow>
     (\<exists>c v. w = c # v \<and> is_digit c \<and> lo \<le> digit_val c \<and> digit_val c \<le> hi \<and> v \<in> lang q)"
  unfolding digit_range_def Concat_Bracket_iff by (metis in_digit_range)

lemma lang_Optional_iff: "w \<in> lang (Optional r) \<longleftrightarrow> w = [] \<or> w \<in> lang r"
  by simp

lemma lang_Either_iff: "w \<in> lang (Either r q) \<longleftrightarrow> w \<in> lang r \<or> w \<in> lang q"
  by simp

lemma lang_Eps_iff: "w \<in> lang Eps \<longleftrightarrow> w = []"
  by simp

lemma counted_unfold:
  "Times 2 r = Concat r (Concat r Eps)" "Times 3 r = Concat r (Concat r (Concat r Eps))"
  "Times 4 r = Concat r (Concat r (Concat r (Concat r Eps)))"
  "Up_to 3 r = Optional (Concat r (Optional (Concat r (Optional (Concat r Eps)))))"
  by (simp_all add: numeral_eq_Suc)

lemmas digit_format_simps = lang_digit_range lang_Concat_digit_range lang_Optional_iff lang_Either_iff lang_Eps_iff
  counted_unfold

lemma short_list_cases:
  assumes "length w \<le> 5"
  obtains "w = []" | a where "w = [a]" | a b where "w = [a, b]" | a b c where "w = [a, b, c]"
    | a b c d where "w = [a, b, c, d]" | a b c d e where "w = [a, b, c, d, e]"
proof -
  have "w = [] \<or> (\<exists>a. w = [a]) \<or> (\<exists>a b. w = [a, b]) \<or> (\<exists>a b c. w = [a, b, c])
      \<or> (\<exists>a b c d. w = [a, b, c, d]) \<or> (\<exists>a b c d e. w = [a, b, c, d, e])"
    using assms by (auto simp: numeral_eq_Suc le_Suc_eq length_Suc_conv)
  then show ?thesis using that by metis
qed

lemma is_numeral_short: "is_numeral w \<Longrightarrow> digits_value w < 100000 \<Longrightarrow> length w \<le> 5"
  using length_to_string_nat [of "digits_value w" 5] to_string_nat_digits_value [of w] by simp

lemma port_bound:
  fixes a b c d e :: nat
  assumes "a \<le> 9" "b \<le> 9" "c \<le> 9" "d \<le> 9" "e \<le> 9"
  shows "10 * (10 * (10 * (10 * a + b) + c) + d) + e \<le> 65535 \<longleftrightarrow>
     a \<le> 5 \<or> a = 6 \<and> (b \<le> 4 \<or> b = 5 \<and> (c \<le> 4 \<or> c = 5 \<and> (d \<le> 2 \<or> d = 3 \<and> e \<le> 5)))"
proof -
  have lex: "10 * x + y \<le> 10 * p + q \<longleftrightarrow> x < p \<or> x = p \<and> y \<le> q"
    and pos: "10 * x + y = 10 * p + q \<longleftrightarrow> x = p \<and> y = q" if "y \<le> 9" "q \<le> 9" for x y p q :: nat
    using that by (cases x p rule: linorder_cases; auto)+
  let ?x = "10 * (10 * (10 * a + b) + c) + d" and ?y = "10 * (10 * a + b) + c" and ?z = "10 * a + b"
  have "10 * ?x + e \<le> 65535 \<longleftrightarrow> ?x \<le> 6552 \<or> ?x = 6553 \<and> e \<le> 5"
    using lex [of e 5 ?x 6553] assms by (simp add: less_eq_Suc_le [symmetric] le_less_Suc_eq) linarith
  moreover have "?x \<le> 6552 \<longleftrightarrow> ?y \<le> 654 \<or> ?y = 655 \<and> d \<le> 2"
    using lex [of d 2 ?y 655] assms by simp linarith
  moreover have "?y \<le> 654 \<longleftrightarrow> ?z \<le> 64 \<or> ?z = 65 \<and> c \<le> 4"
    using lex [of c 4 ?z 65] assms by simp linarith
  moreover have "?z \<le> 64 \<longleftrightarrow> a \<le> 5 \<or> a = 6 \<and> b \<le> 4"
    using lex [of b 4 a 6] assms by simp linarith
  moreover have "?x = 6553 \<longleftrightarrow> ?y = 655 \<and> d = 3" "?y = 655 \<longleftrightarrow> ?z = 65 \<and> c = 5" "?z = 65 \<longleftrightarrow> a = 6 \<and> b = 5"
    using pos [of d 3 ?y 655] pos [of c 5 ?z 65] pos [of b 5 a 6] assms by simp_all
  ultimately show ?thesis by blast
qed

lemma lang_port_format:
  "w \<in> lang port_format \<longleftrightarrow> is_numeral w \<and> 1 \<le> digits_value w \<and> digits_value w \<le> 65535"
proof (cases "length w \<le> 5")
  case False
  then have "\<not> (is_numeral w \<and> digits_value w \<le> 65535)" using is_numeral_short [of w] by auto
  moreover have "w \<notin> lang port_format"
    using False unfolding port_format_def by (auto simp: digit_format_simps simp del: lang.simps)
  ultimately show ?thesis by blast
next
  case True
  have lt: "is_digit x \<Longrightarrow> digit_val x \<le> 9" for x by (drule digit_val_less) linarith
  from True show ?thesis
  proof (cases rule: short_list_cases)
    case 1
    then show ?thesis unfolding port_format_def
      by (simp add: digit_format_simps is_numeral_def del: lang.simps)
  next
    case (2 a)
    show ?thesis using lt [of a] unfolding port_format_def 2
      by (auto simp: digit_format_simps is_numeral_def digits_value_def simp del: lang.simps)
  next
    case (3 a b)
    show ?thesis using lt [of a] lt [of b] unfolding port_format_def 3
      by (auto simp: digit_format_simps is_numeral_def digits_value_def simp del: lang.simps)
  next
    case (4 a b c)
    show ?thesis using lt [of a] lt [of b] lt [of c] unfolding port_format_def 4
      by (auto simp: digit_format_simps is_numeral_def digits_value_def simp del: lang.simps)
  next
    case (5 a b c d)
    show ?thesis using lt [of a] lt [of b] lt [of c] lt [of d] unfolding port_format_def 5
      by (auto simp: digit_format_simps is_numeral_def digits_value_def simp del: lang.simps)
  next
    case (6 a b c d e)
    show ?thesis
    proof (cases "is_digit a \<and> is_digit b \<and> is_digit c \<and> is_digit d \<and> is_digit e")
      case True
      then have le: "digit_val a \<le> 9" "digit_val b \<le> 9" "digit_val c \<le> 9" "digit_val d \<le> 9" "digit_val e \<le> 9"
        by (simp_all add: lt)
      have same: "n \<le> x \<and> x \<le> n \<and> Q \<longleftrightarrow> x = n \<and> Q" for n x :: nat and Q by auto
      have "is_numeral w \<and> 1 \<le> digits_value w \<and> digits_value w \<le> 65535 \<longleftrightarrow>
          digit_val a \<noteq> 0 \<and> 10 * (10 * (10 * (10 * digit_val a + digit_val b) + digit_val c) + digit_val d) + digit_val e \<le> 65535"
        using True by (auto simp: 6 is_numeral_def digits_value_def)
      moreover have "w \<in> lang port_format \<longleftrightarrow> digit_val a \<noteq> 0 \<and> (digit_val a \<le> 5 \<or> digit_val a = 6 \<and>
          (digit_val b \<le> 4 \<or> digit_val b = 5 \<and> (digit_val c \<le> 4 \<or> digit_val c = 5 \<and>
          (digit_val d \<le> 2 \<or> digit_val d = 3 \<and> digit_val e \<le> 5))))"
        unfolding port_format_def 6
        by (simp add: digit_format_simps True le same del: lang.simps) (cases "digit_val a = 6"; auto)
      ultimately show ?thesis unfolding port_bound [OF le] by blast
    next
      case False
      then show ?thesis unfolding port_format_def 6
        by (auto simp: digit_format_simps is_numeral_def simp del: lang.simps)
    qed
  qed
qed

lemma lang_octet_format: "w \<in> lang octet_format \<longleftrightarrow> is_numeral w \<and> digits_value w \<le> 255"
proof (cases "length w \<le> 3")
  case False
  have "is_numeral w \<Longrightarrow> digits_value w \<le> 255 \<Longrightarrow> length w \<le> 3"
    using length_to_string_nat [of "digits_value w" 3] to_string_nat_digits_value [of w] by simp
  moreover have "w \<notin> lang octet_format"
    using False unfolding octet_format_def by (auto simp: digit_format_simps simp del: lang.simps)
  ultimately show ?thesis using False by blast
next
  case True
  have lt: "is_digit x \<Longrightarrow> digit_val x \<le> 9" for x by (drule digit_val_less) linarith
  from True have "w = [] \<or> (\<exists>a. w = [a]) \<or> (\<exists>a b. w = [a, b]) \<or> (\<exists>a b c. w = [a, b, c])"
    by (auto simp: numeral_eq_Suc le_Suc_eq length_Suc_conv)
  then consider "w = []" | a where "w = [a]" | a b where "w = [a, b]" | a b c where "w = [a, b, c]" by metis
  then show ?thesis
  proof cases
    case 1
    then show ?thesis unfolding octet_format_def by (simp add: digit_format_simps is_numeral_def del: lang.simps)
  next
    case (2 a)
    show ?thesis using lt [of a] unfolding octet_format_def 2
      by (auto simp: digit_format_simps is_numeral_def digits_value_def simp del: lang.simps)
  next
    case (3 a b)
    show ?thesis using lt [of a] lt [of b] unfolding octet_format_def 3
      by (auto simp: digit_format_simps is_numeral_def digits_value_def simp del: lang.simps)
  next
    case (4 a b c)
    show ?thesis using lt [of a] lt [of b] lt [of c] unfolding octet_format_def 4
      by (auto simp: digit_format_simps is_numeral_def digits_value_def simp del: lang.simps)
  qed
qed

lemma lang_Concat_assoc: "lang (Concat (Concat p q) r) = lang (Concat p (Concat q r))"
  unfolding set_eq_iff Concat_iff by (metis append_assoc)

lemma lang_Concat_Eps: "lang (Concat Eps r) = lang r"
  by auto

lemma octet_iff: "w \<in> lang octet_format \<longleftrightarrow> (\<exists>n \<le> 255. w = to_string_nat n)"
  unfolding lang_octet_format numeral_iff by (metis digits_value_to_string_nat)

lemma lang_ipv4_address_format:
  "w \<in> lang ipv4_address_format \<longleftrightarrow> (\<exists>a \<le> 255. \<exists>b \<le> 255. \<exists>c \<le> 255. \<exists>d \<le> 255.
     w = to_string_nat a @ ''.'' @ to_string_nat b @ ''.'' @ to_string_nat c @ ''.'' @ to_string_nat d)"
proof -
  have part: "u \<in> lang (Concat (Concat octet_format (Literal ''.'')) q) \<longleftrightarrow>
      (\<exists>n \<le> 255. \<exists>v. u = to_string_nat n @ ''.'' @ v \<and> v \<in> lang q)" for u q
    unfolding lang_Concat_assoc Concat_iff [of u octet_format] Concat_iff [of _ "Literal _"] octet_iff lang_Literal by blast
  show ?thesis
    unfolding ipv4_address_format_def counted_unfold lang_Concat_assoc [of "Concat octet_format (Literal ''.'')"]
      part lang_Concat_Eps octet_iff by blast
qed

subsection \<open>Properties\<close>

lemma port_accepted:
  "(validatePortNumber s = Inr () \<longleftrightarrow> (\<exists>n::nat. 1 \<le> n \<and> n \<le> 65535 \<and> s = to_string (int n) \<and> stoi s = Inr (int n)))
   \<and> (validatePortNumber s = Inr () \<or> validatePortNumber s = Inl ExitFailure)"
proof -
  have lang: "s \<in> lang port_format \<longleftrightarrow> (\<exists>n. 1 \<le> n \<and> n \<le> 65535 \<and> s = to_string_nat n)"
    unfolding lang_port_format numeral_iff by (metis digits_value_to_string_nat)
  have "stoi (to_string (int n)) = Inr (int n)" if "n \<le> 65535" for n
    using extract_int_to_string [of int_min "int n" int_max "[]" "[]" 0] that
    by (simp add: stoi_def istringstream_def int_range_defs)
  moreover have "to_string (int n) = to_string_nat n" for n by (simp add: to_string_def)
  moreover have "to_string_nat n \<noteq> []" for n by simp
  ultimately show ?thesis unfolding validatePortNumber_def regex_match_lang lang by auto
qed

text \<open>
  C31. The port format accepts exactly the decimal numerals of 1 to 65535, and \<open>stoi\<close> reads the
  number back.
\<close>

theorem validatePortNumber_iff:
  "(validatePortNumber s = Inr () \<longleftrightarrow> (\<exists>n::nat. 1 \<le> n \<and> n \<le> 65535 \<and> s = to_string (int n) \<and> stoi s = Inr (int n)))
   \<and> (validatePortNumber s = Inr () \<or> validatePortNumber s = Inl ExitFailure)"
  by (rule port_accepted)

text \<open>
  The address format accepts exactly four decimal numerals of 0 to 255, separated by dots and
  without leading zeros.
\<close>

theorem validateIPv4Address_iff:
  "validateIPv4Address s = (if \<exists>a b c d. a \<le> 255 \<and> b \<le> 255 \<and> c \<le> 255 \<and> d \<le> 255
       \<and> s = to_string a @ ''.'' @ to_string b @ ''.'' @ to_string c @ ''.'' @ to_string d
       \<and> 0 \<le> a \<and> 0 \<le> b \<and> 0 \<le> c \<and> 0 \<le> d
     then Inr () else Inl ExitFailure)"
proof -
  have "(\<exists>a b c d :: int. a \<le> 255 \<and> b \<le> 255 \<and> c \<le> 255 \<and> d \<le> 255
       \<and> s = to_string a @ ''.'' @ to_string b @ ''.'' @ to_string c @ ''.'' @ to_string d
       \<and> 0 \<le> a \<and> 0 \<le> b \<and> 0 \<le> c \<and> 0 \<le> d) \<longleftrightarrow> s \<in> lang ipv4_address_format" (is "?l \<longleftrightarrow> ?r")
  proof
    assume ?l
    then obtain a b c d :: int where n: "a \<le> 255" "b \<le> 255" "c \<le> 255" "d \<le> 255" "0 \<le> a" "0 \<le> b" "0 \<le> c" "0 \<le> d"
      and s: "s = to_string a @ ''.'' @ to_string b @ ''.'' @ to_string c @ ''.'' @ to_string d" by blast
    have "s = to_string_nat (nat a) @ ''.'' @ to_string_nat (nat b) @ ''.'' @ to_string_nat (nat c) @ ''.'' @ to_string_nat (nat d)"
      using s n by (simp add: to_string_def)
    moreover have "nat a \<le> 255" "nat b \<le> 255" "nat c \<le> 255" "nat d \<le> 255" using n by auto
    ultimately show ?r unfolding lang_ipv4_address_format by blast
  next
    assume ?r
    then obtain a b c d where n: "a \<le> 255" "b \<le> 255" "c \<le> 255" "d \<le> 255"
      and s: "s = to_string_nat a @ ''.'' @ to_string_nat b @ ''.'' @ to_string_nat c @ ''.'' @ to_string_nat d"
      unfolding lang_ipv4_address_format by blast
    have "s = to_string (int a) @ ''.'' @ to_string (int b) @ ''.'' @ to_string (int c) @ ''.'' @ to_string (int d)"
      using s by (simp add: to_string_def)
    with n show ?l by (intro exI [of _ "int a"] exI [of _ "int b"] exI [of _ "int c"] exI [of _ "int d"]) simp
  qed
  moreover have "\<not> nullable ipv4_address_format"
    by (simp add: ipv4_address_format_def octet_format_def digit_range_def counted_unfold)
  ultimately show ?thesis unfolding validateIPv4Address_def by (auto simp: regex_match_lang nullable_iff)
qed

text \<open>The prefixes both programs support. No argument begins with two of them.\<close>

definition known_prefixes :: "string set" where
  "known_prefixes = {server_ipv4_addr_arg_prefix, server_port_arg_prefix, server_directory_arg_prefix}"

abbreviation begins :: "string \<Rightarrow> string \<Rightarrow> bool" where
  "begins p arg \<equiv> take (length p) arg = p"

definition assigned :: "string \<Rightarrow> string \<times> string \<Rightarrow> string \<times> string" where
  "assigned arg pv = (fst pv, if begins (fst pv) arg then drop (length (fst pv)) arg else snd pv)"

lemma begins_prefix: "begins p arg \<longleftrightarrow> (\<exists>r. arg = p @ r)"
  by (metis append_eq_conv_conj append_take_drop_id)

lemma known_prefixes_unique:
  assumes "p \<in> known_prefixes" "q \<in> known_prefixes" "begins p arg" "begins q arg"
  shows "p = q"
  using assms by (auto simp: known_prefixes_def begins_prefix prefix_defs)

lemma assign_argument_spec:
  assumes "distinct (map fst supp)" "set (map fst supp) \<subseteq> known_prefixes"
  shows "assign_argument arg supp =
     (if \<exists>p \<in> set (map fst supp). begins p arg then Some (map (assigned arg) supp) else None)"
  using assms
proof (induction supp)
  case (Cons pv supp)
  obtain p v where pv: "pv = (p, v)" by (cases pv)
  show ?case
  proof (cases "begins p arg")
    case True
    have "assigned arg qv = qv" if "qv \<in> set supp" for qv
    proof -
      have "fst qv \<noteq> p" "fst qv \<in> known_prefixes" "p \<in> known_prefixes" using that Cons.prems pv by auto
      with True known_prefixes_unique show ?thesis by (auto simp: assigned_def)
    qed
    then have "map (assigned arg) supp = supp" by (simp add: map_idI)
    with True pv show ?thesis by (simp add: assigned_def)
  next
    case False
    with Cons pv show ?thesis by (auto simp: assigned_def)
  qed
qed simp

lemma extractArguments_eq:
  assumes "distinct (map fst supp)" "set (map fst supp) \<subseteq> known_prefixes"
  shows "extractArguments (program # args) supp =
    (Some program # map (\<lambda>arg. if \<exists>p \<in> set (map fst supp). begins p arg then None else Some arg) args,
     map (\<lambda>(p, v). (p, foldl (\<lambda>v arg. if begins p arg then drop (length p) arg else v) v args)) supp)"
proof -
  have "extract_arguments_loop args supp =
    (map (\<lambda>arg. if \<exists>p \<in> set (map fst supp). begins p arg then None else Some arg) args,
     map (\<lambda>(p, v). (p, foldl (\<lambda>v arg. if begins p arg then drop (length p) arg else v) v args)) supp)"
    using assms
  proof (induction args arbitrary: supp)
    case (Cons arg args)
    have fst: "map fst (map (assigned arg) supp) = map fst supp" by (simp add: assigned_def)
    have same: "\<not> (\<exists>p \<in> set (map fst supp). begins p arg) \<Longrightarrow> map (assigned arg) supp = supp"
      by (rule map_idI) (auto simp: assigned_def)
    have step: "extract_arguments_loop (arg # args) supp =
      ((if \<exists>p \<in> set (map fst supp). begins p arg then None else Some arg) # fst (extract_arguments_loop args (map (assigned arg) supp)),
       snd (extract_arguments_loop args (map (assigned arg) supp)))"
      using assign_argument_spec [OF Cons.prems, of arg] same by (simp split: prod.split)
    have IH: "extract_arguments_loop args (map (assigned arg) supp) =
      (map (\<lambda>arg. if \<exists>p \<in> set (map fst supp). begins p arg then None else Some arg) args,
       map (\<lambda>(p, v). (p, foldl (\<lambda>v arg. if begins p arg then drop (length p) arg else v) v args)) (map (assigned arg) supp))"
      using Cons.IH [of "map (assigned arg) supp"] Cons.prems unfolding fst by blast
    show ?case unfolding step IH by (auto simp: assigned_def cong: if_cong)
  qed simp
  then show ?thesis by (simp add: extractArguments_def)
qed

text \<open>
  In whatever order the supported prefixes are iterated, each variable ends with what
  follows its prefix in the last argument that has it, or keeps its value if none has; exactly
  the arguments with a supported prefix are replaced by null pointers, for the test library
  that sees the rest.
\<close>

theorem extractArguments_spec:
  assumes "distinct (map fst supp)" "set (map fst supp) \<subseteq> known_prefixes"
  shows "extractArguments (program # args) supp =
    (Some program # map (\<lambda>arg. if \<exists>p \<in> set (map fst supp). begins p arg then None else Some arg) args,
     map (\<lambda>(p, v). (p, foldl (\<lambda>v arg. if begins p arg then drop (length p) arg else v) v args)) supp)"
  by (rule extractArguments_eq [OF assms])

theorem extractArguments_spec_witness:
  "snd (extractArguments [''server'', ''--server_port=80'', ''--server_port=443'']
     [(server_port_arg_prefix, []), (server_directory_arg_prefix, [])])
   = [(server_port_arg_prefix, ''443''), (server_directory_arg_prefix, [])]"
  using extractArguments_spec [of "[(server_port_arg_prefix, []), (server_directory_arg_prefix, [])]" "''server''"
      "[''--server_port=80'', ''--server_port=443'']"]
  by (simp add: known_prefixes_def prefix_defs)

text \<open>
  A directory that passes validation is one that \<open>opendir\<close> opens, and it comes back with a
  slash at its end and otherwise unchanged; validating the result again changes nothing more.
\<close>

theorem validateDirectory_ok:
  assumes "validateDirectory opendir d = Inr d'"
  shows "opendir (c_str d) = Dir_opened \<and> last d' = CHR ''/'' \<and> d' \<in> {d, d @ ''/''}
     \<and> (\<forall>opendir'. opendir' (c_str d') = Dir_opened \<longrightarrow> validateDirectory opendir' d' = Inr d')"
  using assms by (auto simp: validateDirectory_def split: if_splits opendir_result.splits)

theorem validateDirectory_ok_witness:
  "validateDirectory (\<lambda>d. if d = ''srv'' then Dir_opened else Dir_ENOENT) ''srv'' = Inr ''srv/'' \<and> last ''srv/'' = CHR ''/''"
proof -
  have v: "validateDirectory (\<lambda>d. if d = ''srv'' then Dir_opened else Dir_ENOENT) ''srv'' = Inr ''srv/''"
    by (simp add: validateDirectory_def c_str_def NUL_def)
  from validateDirectory_ok [OF v] v show ?thesis by blast
qed

end
