(* ===== verification/Signal_Handler.thy ===== *)
theory Signal_Handler
  imports Posix_File
begin

text \<open>
  signal-handler.h: the handler of the interrupt signal, which asks twice and then removes
  everything in the server's directory. Standard input is the list of the words still to be
  read; an extraction from an exhausted stream leaves the variable as it is. \<open>entries\<close> is what
  \<open>opendir\<close> and \<open>readdir\<close> deliver: \<open>None\<close> a null pointer, which \<open>readdir\<close> must not be given. The
  prompts are left out.
\<close>

record SignalHandler =
  s_directory :: string
  sa_installed :: bool

definition SignalHandler_new :: "string \<Rightarrow> SignalHandler" where
  "SignalHandler_new in_directory = \<lparr>s_directory = in_directory, sa_installed = True\<rparr>"

text \<open>The loop over the directory; \<open>sprintf\<close> writes the path and its terminator into 256 bytes.\<close>

fun erase_entries :: "string \<Rightarrow> string list \<Rightarrow> os \<Rightarrow> os outcome" where
  "erase_entries dir [] s = Inr s"
| "erase_entries dir (d_name # ds) s =
     (let filepath = c_str dir @ ''/'' @ d_name in
      if 256 < length filepath + 1 then Inl Undefined
      else erase_entries dir ds (snd (sys_remove filepath s)))"

definition erase_directory :: "string \<Rightarrow> string list option \<Rightarrow> os \<Rightarrow> os outcome" where
  "erase_directory dir entries s =
     (case entries of None \<Rightarrow> Inl Undefined | Some ds \<Rightarrow> erase_entries dir ds s)"

text \<open>The inner loop. When the words are used up the same value is tested again, for ever unless it ends the loop.\<close>

fun confirm_loop :: "string \<Rightarrow> string list option \<Rightarrow> string \<Rightarrow> string list \<Rightarrow> os \<Rightarrow> os outcome" where
  "confirm_loop dir entries input [] s =
     (if input = ''Y'' then erase_directory dir entries s
      else if input = ''N'' then Inr s else Inl Diverges)"
| "confirm_loop dir entries input (w # ws) s =
     (if w = ''Y'' then erase_directory dir entries s
      else if w = ''N'' then Inr s else confirm_loop dir entries w ws s)"

text \<open>The outer loop; after the inner loop the answer is \<open>Y\<close> or \<open>N\<close>, so it ends.\<close>

fun ctrlc_loop :: "string \<Rightarrow> string list option \<Rightarrow> string \<Rightarrow> string list \<Rightarrow> os \<Rightarrow> os outcome" where
  "ctrlc_loop dir entries input [] s =
     (if input = ''Y'' then confirm_loop dir entries input [] s
      else if input = ''N'' then Inr s else Inl Diverges)"
| "ctrlc_loop dir entries input (w # ws) s =
     (if w = ''Y'' then confirm_loop dir entries w ws s
      else if w = ''N'' then Inr s else ctrlc_loop dir entries w ws s)"

text \<open>\<open>Inr\<close>: the process exits with success and leaves this system behind.\<close>

definition ctrlc :: "SignalHandler \<Rightarrow> string list option \<Rightarrow> string list \<Rightarrow> os \<Rightarrow> os outcome" where
  "ctrlc h entries words s = ctrlc_loop (s_directory h) entries [] words s"

subsection \<open>What is asked and what is removed\<close>

text \<open>The first answer among the words, and what follows it.\<close>

fun answered :: "string list \<Rightarrow> (string \<times> string list) option" where
  "answered [] = None"
| "answered (w # ws) = (if w = ''Y'' \<or> w = ''N'' then Some (w, ws) else answered ws)"

lemma answered_YN: "answered ws = Some (w, r) \<Longrightarrow> w = ''Y'' \<or> w = ''N''"
  by (induction ws rule: answered.induct) (auto split: if_splits)

lemma confirm_loop_answered:
  "confirm_loop dir entries input ws s =
     (case answered ws of
        Some (w, _) \<Rightarrow> if w = ''Y'' then erase_directory dir entries s else Inr s
      | None \<Rightarrow> if ws = [] \<and> input = ''Y'' then erase_directory dir entries s
                else if ws = [] \<and> input = ''N'' then Inr s else Inl Diverges)"
proof (induction ws arbitrary: input)
  case (Cons w ws)
  then show ?case by (cases "answered ws") auto
qed simp

lemma ctrlc_loop_answered:
  assumes "input \<noteq> ''Y''" "input \<noteq> ''N''"
  shows "ctrlc_loop dir entries input ws s =
     (case answered ws of
        None \<Rightarrow> Inl Diverges
      | Some (w, ws) \<Rightarrow> if w = ''Y'' then confirm_loop dir entries w ws s else Inr s)"
  using assms by (induction ws arbitrary: input) auto

text \<open>
  C32. The first answer decides whether there is a second question, and the second answer whether
  the directory is erased; words that are no answer are skipped. Without a first answer the
  handler never returns. When the input ends right after the first \<open>Y\<close>, the second question is
  taken to be answered by it and the directory is erased.
\<close>

theorem ctrlc_spec:
  "ctrlc h entries words s =
     (case answered words of
        None \<Rightarrow> Inl Diverges
      | Some (first, ws) \<Rightarrow>
          if first = ''N'' then Inr s
          else (case answered ws of
                  Some (second, _) \<Rightarrow> if second = ''N'' then Inr s else erase_directory (s_directory h) entries s
                | None \<Rightarrow> if ws = [] then erase_directory (s_directory h) entries s else Inl Diverges))"
  unfolding ctrlc_def
  by (subst ctrlc_loop_answered) (auto simp: confirm_loop_answered split: option.splits dest: answered_YN)

lemma erase_entries_files:
  assumes "erase_entries dir ds s = Inr s'"
  shows "os_resolve s' = os_resolve s \<and> os_frozen s' = os_frozen s \<and>
    os_files s' k = (if \<not> os_frozen s k \<and> (\<exists>d \<in> set ds. k = os_resolve s (c_str (c_str dir @ ''/'' @ d))) then None else os_files s k)"
  using assms
proof (induction ds arbitrary: s)
  case (Cons d ds)
  let ?s = "snd (sys_remove (c_str dir @ ''/'' @ d) s)"
  have "erase_entries dir ds ?s = Inr s'" using Cons.prems by (simp add: Let_def split: if_splits)
  moreover have "os_resolve ?s = os_resolve s" "os_frozen ?s = os_frozen s"
    "os_files ?s k = (if \<not> os_frozen s k \<and> k = os_resolve s (c_str (c_str dir @ ''/'' @ d)) then None else os_files s k)"
    by (auto simp: sys_remove_def Let_def)
  ultimately show ?case using Cons.IH [of ?s] by auto
qed simp

text \<open>
  When the handler exits, every file is as it was or is gone, and only files that are
  entries of the server's directory can be gone; if the first or the second answer is \<open>N\<close>,
  nothing is gone.
\<close>

theorem ctrlc_removes_only_entries:
  assumes "ctrlc h (Some ds) words s = Inr s'"
  shows "os_files s' k = os_files s k \<or>
     (os_files s' k = None \<and> (\<exists>d \<in> set ds. k = os_resolve s (c_str (c_str (s_directory h) @ ''/'' @ d)))
      \<and> (\<exists>ws. answered words = Some (''Y'', ws) \<and> (ws = [] \<or> (\<exists>ws'. answered ws = Some (''Y'', ws')))))"
proof (cases "s' = s")
  case False
  from assms False obtain ws where ws: "answered words = Some (''Y'', ws)" "ws = [] \<or> (\<exists>ws'. answered ws = Some (''Y'', ws'))"
    and er: "erase_entries (s_directory h) ds s = Inr s'"
    unfolding ctrlc_spec by (auto simp: erase_directory_def split: option.splits if_splits) (use answered_YN in blast)+
  from erase_entries_files [OF er] ws show ?thesis by auto
qed simp

definition demo_tree :: os where
  "demo_tree = \<lparr>os_resolve = (\<lambda>p. p), os_files = [''d//a'' \<mapsto> ''x'', ''e'' \<mapsto> ''y''], os_durable = Map.empty,
     os_denied = (\<lambda>_. False), os_frozen = (\<lambda>_. False), os_reads = [], os_writes = []\<rparr>"

theorem ctrlc_removes_only_entries_witness:
  "\<exists>s'. ctrlc (SignalHandler_new ''d/'') (Some [''.'', ''a'']) [''y'', ''Y'', ''Y''] demo_tree = Inr s'
     \<and> os_files s' ''d//a'' = None \<and> os_files s' ''e'' = Some ''y''"
proof -
  obtain s' where s': "ctrlc (SignalHandler_new ''d/'') (Some [''.'', ''a'']) [''y'', ''Y'', ''Y''] demo_tree = Inr s'"
    "os_files s' ''d//a'' = None"
    by (simp add: ctrlc_spec erase_directory_def SignalHandler_new_def sys_remove_def demo_tree_def c_str_def NUL_def Let_def)
  from ctrlc_removes_only_entries [OF s'(1), of "''e''"] have "os_files s' ''e'' = Some ''y''"
    by (simp add: demo_tree_def SignalHandler_new_def c_str_def NUL_def)
  with s' show ?thesis by blast
qed

end
