(* ===== verification/Socket.thy ===== *)
theory Socket
  imports Read_Write_Helper "HOL-Library.Word"
begin

text \<open>
  One end of a connected stream socket, as the dispatcher and the client see it. The bytes
  the peer has sent and this end has not read yet are \<open>inbound\<close>, the bytes this end has
  written are \<open>outbound\<close>. How the stream is cut into pieces, which calls fail and which waits
  time out is scripted, as for files; a script that is used up means calls that move
  everything. A read of an empty stream returns 0, the peer having closed its end.
\<close>

text \<open>
  A socket address: the argument of \<open>inet_addr\<close> and the port, which \<open>htons\<close> narrows to 16 bits.
  The byte order is the network's and is left out.
\<close>

record sockaddr_in =
  s_addr :: string
  sin_port :: "16 word"

definition htons :: "int \<Rightarrow> 16 word" where
  "htons portno = word_of_int portno"

record socket =
  inbound :: string
  outbound :: string
  recv_script :: "nat option list"
  send_script :: "nat option list"
  wait_script :: "bool list"

definition socket_read :: "socket sys_read" where
  "socket_read k n =
     (case recv_script k of
        [] \<Rightarrow> (Some (take n (inbound k)), k\<lparr>inbound := drop n (inbound k)\<rparr>)
      | None # sc \<Rightarrow> (None, k\<lparr>recv_script := sc\<rparr>)
      | Some m # sc \<Rightarrow> (Some (take (min n (Suc m)) (inbound k)),
                         k\<lparr>inbound := drop (min n (Suc m)) (inbound k), recv_script := sc\<rparr>))"

definition socket_wait :: "socket wait_for" where
  "socket_wait k =
     (case wait_script k of [] \<Rightarrow> (False, k) | t # sc \<Rightarrow> (t, k\<lparr>wait_script := sc\<rparr>))"

definition socket_write :: "socket sys_write" where
  "socket_write k s =
     (case send_script k of
        [] \<Rightarrow> (Some (length s), k\<lparr>outbound := outbound k @ s\<rparr>)
      | None # sc \<Rightarrow> (None, k\<lparr>send_script := sc\<rparr>)
      | Some n # sc \<Rightarrow> (Some (min n (length s)), k\<lparr>outbound := outbound k @ take n s, send_script := sc\<rparr>))"

definition connected :: "string \<Rightarrow> socket" where
  "connected bytes = \<lparr>inbound = bytes, outbound = [], recv_script = [], send_script = [], wait_script = []\<rparr>"

text \<open>No failures and no timeouts ahead; the pieces may have any size.\<close>

definition reliable :: "socket \<Rightarrow> bool" where
  "reliable k \<longleftrightarrow> None \<notin> set (recv_script k) \<and> None \<notin> set (send_script k) \<and> True \<notin> set (wait_script k)"

text \<open>
  What reading leaves alone is what has been sent, and the other way round. (The scripts are
  the system's, not the program's.)
\<close>

interpretation sock_rd: reliable_reader socket_read socket_wait inbound outbound reliable
proof
  fix k k' :: socket and n d r b
  show "length d \<le> n \<and> inbound k = d @ inbound k'" if "socket_read k n = (Some d, k')"
    using that by (auto simp: socket_read_def split: list.splits option.splits)
  show "inbound k' = inbound k" if "socket_read k n = (None, k')"
    using that by (auto simp: socket_read_def split: list.splits option.splits)
  show "outbound k' = outbound k" if "socket_read k n = (r, k')"
    using that by (auto simp: socket_read_def split: list.splits option.splits)
  show "inbound k' = inbound k \<and> outbound k' = outbound k" if "socket_wait k = (b, k')"
    using that by (auto simp: socket_wait_def split: list.splits)
  show "\<exists>d k'. socket_read k n = (Some d, k') \<and> d \<noteq> [] \<and> reliable k'" if "reliable k" "inbound k \<noteq> []" "0 < n"
    using that by (auto simp: socket_read_def reliable_def split: list.splits option.splits)
  show "\<exists>k'. socket_wait k = (False, k') \<and> reliable k'" if "reliable k"
    using that by (auto simp: socket_wait_def reliable_def split: list.splits)
qed

interpretation sock_wr: reliable_writer socket_write "\<lambda>k. Some (outbound k)" inbound "\<lambda>k. length (send_script k)" reliable
proof
  fix k k' :: socket and n s r
  show "n \<le> length s \<and> Some (outbound k') = map_option (\<lambda>c. c @ take n s) (Some (outbound k))"
    if "socket_write k s = (Some n, k')"
    using that by (auto simp: socket_write_def min_def split: list.splits option.splits if_splits)
  show "Some (outbound k') = Some (outbound k)" if "socket_write k s = (None, k')"
    using that by (auto simp: socket_write_def split: list.splits option.splits)
  show "inbound k' = inbound k" if "socket_write k s = (r, k')"
    using that by (auto simp: socket_write_def split: list.splits option.splits)
  show "length (send_script k') < length (send_script k)" if "socket_write k s = (Some 0, k')" "s \<noteq> []"
    using that by (auto simp: socket_write_def split: list.splits option.splits)
  show "length (send_script k') \<le> length (send_script k)" if "socket_write k s = (r, k')"
    using that by (auto simp: socket_write_def split: list.splits option.splits)
  show "\<exists>n k'. socket_write k s = (Some n, k') \<and> reliable k'" if "reliable k"
    using that by (auto simp: socket_write_def reliable_def split: list.splits option.splits)
qed

subsection \<open>A two-way connection\<close>

text \<open>
  Reading does not disturb what has been sent and writing does not disturb what is still to
  be read; this is what the code on both ends of the connection relies on.
\<close>

locale duplex = rd: reliable_reader sys_read wait_for src sent ok
    + wr: reliable_writer sys_write "\<lambda>k. Some (sent k)" src budget ok
  for sys_read :: "'k sys_read" and wait_for :: "'k wait_for" and src :: "'k \<Rightarrow> string"
    and sent :: "'k \<Rightarrow> string" and ok :: "'k \<Rightarrow> bool" and sys_write :: "'k sys_write" and budget :: "'k \<Rightarrow> nat"
begin

lemma send_exact:
  assumes "ok k" "nul_free s"
  shows "\<exists>k'. writeFileDescriptor sys_write s k = (Inr True, k') \<and> sent k' = sent k @ s \<and> src k' = src k \<and> ok k'"
  using wr.write_exact [OF assms] by auto

lemma send_returns:
  assumes "nul_free s"
  shows "\<exists>m k'. writeFileDescriptor sys_write s k = (Inr (m = length s), k') \<and> m \<le> length s
     \<and> sent k' = sent k @ take m s \<and> src k' = src k"
  using wr.writeFileDescriptor_returns [OF assms, of k] by auto

end

interpretation sock: duplex socket_read socket_wait inbound outbound reliable socket_write "\<lambda>k. length (send_script k)"
  by unfold_locales

end
