(* ===== verification/Accept_Loop.thy ===== *)
theory Accept_Loop
  imports Socket
begin

text \<open>
  The rest of \<open>ServerDispatcher\<close> (server-dispatcher.h): construction, the accept loop of \<open>start\<close>,
  the notifier thread and the end of a connection thread, as operations on the dispatcher's
  members. The results of \<open>socket\<close>, \<open>accept\<close> and \<open>select\<close> are arguments, as is \<open>bind\<close>, a function
  of the address. The two vectors are represented by their lengths, and \<open>handlers\<close> is the set of
  sockets that have a connection thread. The client's address, which \<open>accept\<close> stores and nothing
  reads, is left out, and the backend is an argument of the connection thread (Dispatcher).
\<close>

record ServerDispatcher =
  m_backlog :: int
  m_listenfd :: int
  m_portno :: int
  m_sockfd :: int
  m_max_sockfd :: int
  m_connection_timeout_seconds :: int
  m_ipv4_addr :: string
  m_fd_cvs :: nat
  m_fd_mtxs :: nat
  m_rfds :: "int set"
  handlers :: "int set"

definition initializeConditionVariablesAndMutexes :: "ServerDispatcher \<Rightarrow> ServerDispatcher" where
  "initializeConditionVariablesAndMutexes d =
     d\<lparr>m_fd_cvs := nat (m_max_sockfd d + 1), m_fd_mtxs := nat (m_max_sockfd d + 1)\<rparr>"

text \<open>
  \<open>FD_SET\<close> comes before the check of the descriptor; on a negative descriptor it writes outside
  the set. The result of \<open>listen\<close> is not used.
\<close>

definition initializeSocket :: "int \<Rightarrow> (sockaddr_in \<Rightarrow> int) \<Rightarrow> ServerDispatcher \<Rightarrow> ServerDispatcher outcome" where
  "initializeSocket socket_result bind d =
     (if socket_result < 0 then Inl Undefined
      else (let d = d\<lparr>m_listenfd := socket_result, m_rfds := insert socket_result (m_rfds d)\<rparr>;
                serv_addr = \<lparr>s_addr = m_ipv4_addr d, sin_port = htons (m_portno d)\<rparr> in
            if bind serv_addr < 0 then Inl ExitFailure else Inr d))"

definition ServerDispatcher_new ::
  "string \<Rightarrow> int \<Rightarrow> int \<Rightarrow> int \<Rightarrow> int \<Rightarrow> int \<Rightarrow> (sockaddr_in \<Rightarrow> int) \<Rightarrow> ServerDispatcher outcome" where
  "ServerDispatcher_new in_ipv4_addr in_portno in_backlog in_max_sockfd in_timeout socket_result bind =
     initializeSocket socket_result bind
       (initializeConditionVariablesAndMutexes
         \<lparr>m_backlog = in_backlog, m_listenfd = 0, m_portno = in_portno, m_sockfd = 0, m_max_sockfd = in_max_sockfd,
          m_connection_timeout_seconds = in_timeout, m_ipv4_addr = in_ipv4_addr, m_fd_cvs = 0, m_fd_mtxs = 0,
          m_rfds = {}, handlers = {}\<rparr>)"

text \<open>One turn of the loop of \<open>start\<close>, from the wait on the listening socket's condition variable.\<close>

definition accept_turn :: "int \<Rightarrow> ServerDispatcher \<Rightarrow> ServerDispatcher outcome" where
  "accept_turn sockfd d =
     (if \<not> (0 \<le> m_listenfd d \<and> nat (m_listenfd d) < m_fd_mtxs d \<and> nat (m_listenfd d) < m_fd_cvs d) then Inl Undefined
      else if sockfd < 0 then Inl ExitFailure
      else if sockfd > m_max_sockfd d then Inr (d\<lparr>m_sockfd := sockfd\<rparr>)
      else Inr (d\<lparr>m_sockfd := sockfd, m_rfds := insert sockfd (m_rfds d), handlers := insert sockfd (handlers d)\<rparr>))"

text \<open>The loop of \<open>start\<close>, for the descriptors that \<open>accept\<close> returns one after the other.\<close>

fun dispatcher_start :: "int list \<Rightarrow> ServerDispatcher \<Rightarrow> ServerDispatcher outcome" where
  "dispatcher_start [] d = Inr d"
| "dispatcher_start (sockfd # sockfds) d =
     (case accept_turn sockfd d of Inl x \<Rightarrow> Inl x | Inr d \<Rightarrow> dispatcher_start sockfds d)"

text \<open>The end of a connection thread: close and \<open>FD_CLR\<close>, with the global lock held.\<close>

definition connection_end :: "int \<Rightarrow> ServerDispatcher \<Rightarrow> ServerDispatcher" where
  "connection_end sockfd d = d\<lparr>m_rfds := m_rfds d - {sockfd}, handlers := handlers d - {sockfd}\<rparr>"

text \<open>The notifier's loop over the descriptors: the ones whose condition variable is notified.\<close>

function notify_loop :: "int \<Rightarrow> int \<Rightarrow> int \<Rightarrow> int set \<Rightarrow> int list" where
  "notify_loop fd numReady m_max rfds =
     (if numReady > 0 \<and> fd \<le> m_max then
        (if fd \<in> rfds then fd # notify_loop (fd + 1) (numReady - 1) m_max rfds
         else notify_loop (fd + 1) numReady m_max rfds)
      else [])"
  by pat_completeness auto
termination
  by (relation "measure (\<lambda>(fd, n, mx, r). nat (mx + 1 - fd))") auto

declare notify_loop.simps [simp del]

text \<open>One turn of the notifier: \<open>ready\<close> is what \<open>select\<close> leaves in the set, -1 its failure.\<close>

definition notifier_turn :: "int set option \<Rightarrow> ServerDispatcher \<Rightarrow> int list" where
  "notifier_turn selected d =
     (case selected of
        None \<Rightarrow> notify_loop (m_listenfd d) (-1) (m_max_sockfd d) (m_rfds d)
      | Some ready \<Rightarrow> notify_loop (m_listenfd d) (int (card ready)) (m_max_sockfd d) ready)"

subsection \<open>The invariant\<close>

definition dispatcher_inv :: "ServerDispatcher \<Rightarrow> bool" where
  "dispatcher_inv d \<longleftrightarrow> 0 \<le> m_listenfd d \<and> m_listenfd d \<le> m_max_sockfd d \<and> m_listenfd d \<notin> handlers d
     \<and> (\<forall>fd \<in> handlers d. 0 \<le> fd \<and> fd \<le> m_max_sockfd d) \<and> m_rfds d = insert (m_listenfd d) (handlers d)
     \<and> m_fd_cvs d = nat (m_max_sockfd d + 1) \<and> m_fd_mtxs d = nat (m_max_sockfd d + 1)"

text \<open>
  What threads of the dispatcher do next to one another. A descriptor that \<open>accept\<close> returns is not
  one that is open already.
\<close>

inductive dispatcher_step :: "ServerDispatcher \<Rightarrow> ServerDispatcher \<Rightarrow> bool" where
  accepts: "fd \<notin> insert (m_listenfd d) (handlers d) \<Longrightarrow> accept_turn fd d = Inr d' \<Longrightarrow> dispatcher_step d d'"
| ends: "fd \<in> handlers d \<Longrightarrow> dispatcher_step d (connection_end fd d)"

inductive dispatcher_reach :: "ServerDispatcher \<Rightarrow> ServerDispatcher \<Rightarrow> bool" for d0 where
  here: "dispatcher_reach d0 d0"
| more: "dispatcher_reach d0 d \<Longrightarrow> dispatcher_step d d' \<Longrightarrow> dispatcher_reach d0 d'"

lemma dispatcher_step_inv:
  assumes "dispatcher_step d d'" "dispatcher_inv d"
  shows "dispatcher_inv d'"
  using assms by (cases rule: dispatcher_step.cases)
    (auto simp: dispatcher_inv_def accept_turn_def connection_end_def split: if_splits)

lemma notify_loop_spec:
  assumes "rfds \<inter> {fd..} \<subseteq> {fd..mx}" "numReady = int (card (rfds \<inter> {fd..}))"
  shows "set (notify_loop fd numReady mx rfds) = rfds \<inter> {fd..} \<and> distinct (notify_loop fd numReady mx rfds)"
  using assms
proof (induction fd numReady mx rfds rule: notify_loop.induct)
  case (1 fd n mx rfds)
  have fin: "finite (rfds \<inter> {fd..})" by (rule finite_subset [OF 1(3)]) simp
  have step: "{fd..} = insert fd {fd + 1..}" by auto
  show ?case
  proof (cases "n > 0 \<and> fd \<le> mx")
    case False
    have "rfds \<inter> {fd..} = {}"
    proof (cases "fd \<le> mx")
      case True
      with False 1(4) fin show ?thesis by auto
    next
      case False
      then show ?thesis using 1(3) by auto
    qed
    then show ?thesis using 1(4) by (subst (1 2) notify_loop.simps) simp
  next
    case True
    have sub: "rfds \<inter> {fd + 1..} \<subseteq> {fd + 1..mx}" using 1(3) by fastforce
    show ?thesis
    proof (cases "fd \<in> rfds")
      case in_set: True
      then have eq: "rfds \<inter> {fd..} = insert fd (rfds \<inter> {fd + 1..})" using step by auto
      then have "n - 1 = int (card (rfds \<inter> {fd + 1..}))" using 1(4) fin by (simp add: card_insert_if)
      from 1(1) [OF True in_set sub this] eq in_set True show ?thesis
        by (subst (1 2) notify_loop.simps) auto
    next
      case False
      then have eq: "rfds \<inter> {fd..} = rfds \<inter> {fd + 1..}" using step by auto
      from 1(2) [OF True False sub] 1(4) eq False True show ?thesis
        by (subst (1 2) notify_loop.simps) auto
    qed
  qed
qed

text \<open>
  C28. However connections are accepted and ended, the descriptors the notifier watches are
  the listening socket and the sockets that have a connection thread, all within the bounds of
  the two vectors, so there are never more than \<open>max_sockfd\<close> connections.
\<close>

theorem dispatcher_reachable_inv:
  assumes new: "ServerDispatcher_new ip port backlog mx t fd bind = Inr d0" and fd: "fd \<le> mx"
    and reach: "dispatcher_reach d0 d"
  shows "dispatcher_inv d \<and> card (handlers d) \<le> nat (m_max_sockfd d)"
proof -
  have "dispatcher_inv d0"
    using new fd by (auto simp: ServerDispatcher_new_def initializeSocket_def dispatcher_inv_def
        initializeConditionVariablesAndMutexes_def Let_def split: if_splits)
  with reach have inv: "dispatcher_inv d"
    by (induction rule: dispatcher_reach.induct) (auto dest: dispatcher_step_inv)
  then have "handlers d \<subseteq> {0..m_max_sockfd d} - {m_listenfd d}" by (auto simp: dispatcher_inv_def)
  from card_mono [OF _ this] inv show ?thesis by (simp add: dispatcher_inv_def card_Diff_singleton_if)
qed

definition demo_dispatcher :: ServerDispatcher where
  "demo_dispatcher = \<lparr>m_backlog = 1000, m_listenfd = 3, m_portno = 80, m_sockfd = 0, m_max_sockfd = 255,
     m_connection_timeout_seconds = 10, m_ipv4_addr = ''127.0.0.1'', m_fd_cvs = 256, m_fd_mtxs = 256,
     m_rfds = {3}, handlers = {}\<rparr>"

lemma demo_dispatcher_new: "ServerDispatcher_new ''127.0.0.1'' 80 1000 255 10 3 (\<lambda>_. 0) = Inr demo_dispatcher"
  by (simp add: ServerDispatcher_new_def initializeSocket_def initializeConditionVariablesAndMutexes_def demo_dispatcher_def)

theorem dispatcher_reachable_inv_witness:
  "dispatcher_inv (demo_dispatcher\<lparr>m_sockfd := 4, m_rfds := {4, 3}, handlers := {4}\<rparr>)"
proof -
  have "accept_turn 4 demo_dispatcher = Inr (demo_dispatcher\<lparr>m_sockfd := 4, m_rfds := {4, 3}, handlers := {4}\<rparr>)"
    by (simp add: accept_turn_def demo_dispatcher_def)
  then have "dispatcher_reach demo_dispatcher (demo_dispatcher\<lparr>m_sockfd := 4, m_rfds := {4, 3}, handlers := {4}\<rparr>)"
    by (intro dispatcher_reach.more [OF dispatcher_reach.here] dispatcher_step.accepts) (simp_all add: demo_dispatcher_def)
  from dispatcher_reachable_inv [OF demo_dispatcher_new _ this] show ?thesis by simp
qed

text \<open>
  C29. The notifier wakes exactly the threads whose descriptors \<open>select\<close> reports ready, each
  once, although its loop stops after the number of ready descriptors \<open>select\<close> returned.
\<close>

theorem notifier_wakes_ready:
  assumes "dispatcher_inv d" "ready \<subseteq> m_rfds d" "\<forall>fd \<in> ready. m_listenfd d \<le> fd"
  shows "set (notifier_turn (Some ready) d) = ready \<and> distinct (notifier_turn (Some ready) d)"
proof -
  have "ready \<inter> {m_listenfd d..} = ready" using assms(3) by auto
  moreover have "ready \<subseteq> {m_listenfd d..m_max_sockfd d}" using assms by (fastforce simp: dispatcher_inv_def)
  ultimately show ?thesis
    using notify_loop_spec [of ready "m_listenfd d" "m_max_sockfd d" "int (card ready)"] by (simp add: notifier_turn_def)
qed

theorem notifier_wakes_ready_witness:
  "set (notifier_turn (Some {4}) (demo_dispatcher\<lparr>m_sockfd := 4, m_rfds := {4, 3}, handlers := {4}\<rparr>)) = {4}"
  using notifier_wakes_ready [of "demo_dispatcher\<lparr>m_sockfd := 4, m_rfds := {4, 3}, handlers := {4}\<rparr>" "{4}"]
  by (simp add: dispatcher_inv_def demo_dispatcher_def insert_commute)

end
