(* ===== verification/Server_Main.thy ===== *)
theory Server_Main
  imports Arguments Signal_Handler Accept_Loop Backend_State "HOL-Library.Multiset"
begin

text \<open>
  The two programs' \<open>main\<close> functions (Server/main.cpp, ClientServerTest/main.cpp) and the class
  \<open>Server\<close> (server.h, server.cpp), which puts the dispatcher and the backend together. \<open>srand\<close>
  is left out: the random numbers are arguments where they are used.
\<close>

record Server =
  m_up_dispatcher :: ServerDispatcher
  m_up_backend :: ServerBackend

definition Server_new ::
  "string \<Rightarrow> int \<Rightarrow> string \<Rightarrow> int \<Rightarrow> (sockaddr_in \<Rightarrow> int) \<Rightarrow> os \<Rightarrow> Server outcome" where
  "Server_new in_ipv4_address in_portno in_directory socket_result bind s =
     (case ServerDispatcher_new in_ipv4_address in_portno server_backlog max_sockfd connection_timeout_seconds
             socket_result bind of
        Inl x \<Rightarrow> Inl x
      | Inr d \<Rightarrow> Inr \<lparr>m_up_dispatcher = d, m_up_backend = ServerBackend_new in_directory s\<rparr>)"

definition Server_start :: "int list \<Rightarrow> Server \<Rightarrow> Server outcome" where
  "Server_start accepted srv =
     (case dispatcher_start accepted (m_up_dispatcher srv) of
        Inl x \<Rightarrow> Inl x
      | Inr d \<Rightarrow> Inr (srv\<lparr>m_up_dispatcher := d\<rparr>))"

definition supported_arguments :: supported where
  "supported_arguments =
     [(server_ipv4_addr_arg_prefix, []), (server_port_arg_prefix, []), (server_directory_arg_prefix, [])]"

definition argument_value :: "string \<Rightarrow> supported \<Rightarrow> string" where
  "argument_value p supp = (case map_of supp p of None \<Rightarrow> [] | Some v \<Rightarrow> v)"

text \<open>\<open>Inl\<close>: the help message is printed and the program ends; \<open>Inr\<close>: \<open>start\<close> is called.\<close>

definition server_main ::
  "string list \<Rightarrow> (string \<Rightarrow> opendir_result) \<Rightarrow> int \<Rightarrow> (sockaddr_in \<Rightarrow> int) \<Rightarrow> os
   \<Rightarrow> (string + SignalHandler \<times> Server) outcome" where
  "server_main argv opendir socket_result bind s =
     (if 3 \<ge> length argv \<or> hasHelpArgument argv then Inr (Inl printServerHelpMessage)
      else
        (let supp = snd (extractArguments argv supported_arguments);
             server_ipv4_addr = argument_value server_ipv4_addr_arg_prefix supp;
             server_port = argument_value server_port_arg_prefix supp;
             server_directory = argument_value server_directory_arg_prefix supp in
         case validateIPv4Address server_ipv4_addr of
           Inl x \<Rightarrow> Inl x
         | Inr _ \<Rightarrow>
        (case validatePortNumber server_port of
           Inl x \<Rightarrow> Inl x
         | Inr _ \<Rightarrow>
        (case validateDirectory opendir server_directory of
           Inl x \<Rightarrow> Inl x
         | Inr server_directory \<Rightarrow>
        (case stoi server_port of
           Inl x \<Rightarrow> Inl x
         | Inr portno \<Rightarrow>
        (case Server_new server_ipv4_addr portno server_directory socket_result bind s of
           Inl x \<Rightarrow> Inl x
         | Inr server \<Rightarrow> Inr (Inr (SignalHandler_new server_directory, server))))))))"

text \<open>
  The test program: the globals the tests use and the argument vector that is handed to the test
  library. With a help argument the library gets the vector as it is.
\<close>

record test_globals =
  g_server_ipv4_addr :: string
  g_server_port :: string
  g_server_directory :: string

definition client_main :: "string list \<Rightarrow> (string \<Rightarrow> opendir_result) \<Rightarrow> (string option list \<times> test_globals) outcome" where
  "client_main argv opendir =
     (let help = hasHelpArgument argv in
      if 2 \<ge> length argv \<or> help then
        (if \<not> help then Inl ExitFailure
         else Inr (map Some argv, \<lparr>g_server_ipv4_addr = [], g_server_port = [], g_server_directory = []\<rparr>))
      else
        (case extractArguments argv supported_arguments of (argv, supp) \<Rightarrow>
         let ipv4_addr = argument_value server_ipv4_addr_arg_prefix supp;
             port = argument_value server_port_arg_prefix supp;
             directory = argument_value server_directory_arg_prefix supp in
         case validateIPv4Address ipv4_addr of
           Inl x \<Rightarrow> Inl x
         | Inr _ \<Rightarrow>
        (case validatePortNumber port of
           Inl x \<Rightarrow> Inl x
         | Inr _ \<Rightarrow>
        (case (if directory \<noteq> [] then validateDirectory opendir directory else Inr directory) of
           Inl x \<Rightarrow> Inl x
         | Inr directory \<Rightarrow>
             Inr (argv, \<lparr>g_server_ipv4_addr = ipv4_addr, g_server_port = port, g_server_directory = directory\<rparr>)))))"

subsection \<open>What a running server has been given\<close>

lemma htons_port:
  assumes "validatePortNumber port = Inr ()" "stoi port = Inr n"
  shows "uint (htons n) = n" "1 \<le> n" "n \<le> 65535" "port = to_string n"
proof -
  from port_accepted [of port] assms obtain m :: nat where
    m: "1 \<le> m" "m \<le> 65535" "port = to_string (int m)" "n = int m" by auto
  then show "1 \<le> n" "n \<le> 65535" "port = to_string n" by simp_all
  then show "uint (htons n) = n" by (simp add: htons_def uint_word_of_int take_bit_int_eq_self)
qed

text \<open>
  C30. Whatever the command line, a server that gets as far as \<open>start\<close> listens at a well-formed
  address, on the port the argument names (which survives the narrowing to 16 bits), serves an
  existing directory under a path that ends in a slash, and erases that same directory on an
  interrupt; and its dispatcher satisfies its invariant.
\<close>

theorem server_main_configured:
  assumes main: "server_main argv opendir fd bind s = Inr (Inr (h, srv))" and fd: "fd \<le> max_sockfd"
  shows "\<exists>n. validateIPv4Address (m_ipv4_addr (m_up_dispatcher srv)) = Inr ()
    \<and> 1 \<le> n \<and> n \<le> 65535 \<and> m_portno (m_up_dispatcher srv) = n
    \<and> uint (sin_port \<lparr>s_addr = m_ipv4_addr (m_up_dispatcher srv), sin_port = htons n\<rparr>) = n
    \<and> 0 \<le> bind \<lparr>s_addr = m_ipv4_addr (m_up_dispatcher srv), sin_port = htons n\<rparr>
    \<and> s_directory h = m_directory (m_up_backend srv) \<and> last (s_directory h) = CHR ''/''
    \<and> (\<exists>d. opendir (c_str d) = Dir_opened \<and> s_directory h \<in> {d, d @ ''/''})
    \<and> m_initialize (m_up_backend srv) \<and> dispatcher_inv (m_up_dispatcher srv)"
proof -
  from main obtain ip port dir n dir' where
    a: "validateIPv4Address ip = Inr ()" "validatePortNumber port = Inr ()" "validateDirectory opendir dir = Inr dir'"
      "stoi port = Inr n" "Server_new ip n dir' fd bind s = Inr srv" "h = SignalHandler_new dir'"
    by (auto simp: server_main_def Let_def split: if_splits sum.splits)
  from a(5) have srv: "m_ipv4_addr (m_up_dispatcher srv) = ip" "m_portno (m_up_dispatcher srv) = n"
    "0 \<le> bind \<lparr>s_addr = ip, sin_port = htons n\<rparr>" "m_up_backend srv = ServerBackend_new dir' s"
    "dispatcher_inv (m_up_dispatcher srv)"
    using fd by (auto simp: Server_new_def ServerDispatcher_new_def initializeSocket_def Let_def dispatcher_inv_def
        initializeConditionVariablesAndMutexes_def split: if_splits sum.splits)
  from a(3) have d: "opendir (c_str dir) = Dir_opened" "last dir' = CHR ''/''" "dir' \<in> {dir, dir @ ''/''}"
    by (auto simp: validateDirectory_def split: if_splits opendir_result.splits)
  note n = htons_port [OF a(2,4)]
  have dir: "m_directory (m_up_backend srv) = dir'" "m_initialize (m_up_backend srv)" "s_directory h = dir'"
    using d(2) by (simp_all add: srv a(6) ServerBackend_new_def SignalHandler_new_def)
  show ?thesis
    by (rule exI [of _ n]) (use a(1) srv n(1-3) d dir in auto)
qed

text \<open>The values of the three arguments, in whatever order they are given.\<close>

lemma argument_values:
  assumes "mset args = {#server_ipv4_addr_arg_prefix @ ip, server_port_arg_prefix @ port, server_directory_arg_prefix @ dir#}"
  shows "argument_value server_ipv4_addr_arg_prefix (snd (extractArguments (program # args) supported_arguments)) = ip"
    "argument_value server_port_arg_prefix (snd (extractArguments (program # args) supported_arguments)) = port"
    "argument_value server_directory_arg_prefix (snd (extractArguments (program # args) supported_arguments)) = dir"
    "length args = 3" "\<not> hasHelpArgument (program # args)"
proof -
  let ?a = "server_ipv4_addr_arg_prefix @ ip" and ?b = "server_port_arg_prefix @ port"
    and ?c = "server_directory_arg_prefix @ dir"
  show l: "length args = 3" using assms by (metis size_mset size_add_mset size_empty numeral_3_eq_3)
  then obtain x y z where args: "args = [x, y, z]" by (auto simp: numeral_3_eq_3 length_Suc_conv)
  have xyz: "(x, y, z) \<in> {(?a, ?b, ?c), (?a, ?c, ?b), (?b, ?a, ?c), (?b, ?c, ?a), (?c, ?a, ?b), (?c, ?b, ?a)}"
    using assms unfolding args by (auto simp: add_eq_conv_ex)
  moreover have snd: "snd (extractArguments (program # args) supported_arguments) =
     map (\<lambda>(p, v). (p, foldl (\<lambda>v arg. if begins p arg then drop (length p) arg else v) v args)) supported_arguments"
    by (subst extractArguments_eq) (simp_all add: supported_arguments_def known_prefixes_def prefix_defs)
  moreover have b: "begins p (q @ r) \<longleftrightarrow> p = q" if "p \<in> known_prefixes" "q \<in> known_prefixes" for p q r
    using that known_prefixes_unique [of p q "q @ r"] by auto
  moreover have k: "server_ipv4_addr_arg_prefix \<in> known_prefixes" "server_port_arg_prefix \<in> known_prefixes"
    "server_directory_arg_prefix \<in> known_prefixes" by (simp_all add: known_prefixes_def)
  moreover have ne: "server_ipv4_addr_arg_prefix \<noteq> server_port_arg_prefix" "server_port_arg_prefix \<noteq> server_ipv4_addr_arg_prefix"
    "server_ipv4_addr_arg_prefix \<noteq> server_directory_arg_prefix" "server_directory_arg_prefix \<noteq> server_ipv4_addr_arg_prefix"
    "server_port_arg_prefix \<noteq> server_directory_arg_prefix" "server_directory_arg_prefix \<noteq> server_port_arg_prefix"
    by (simp_all add: prefix_defs)
  ultimately show "argument_value server_ipv4_addr_arg_prefix (snd (extractArguments (program # args) supported_arguments)) = ip"
    "argument_value server_port_arg_prefix (snd (extractArguments (program # args) supported_arguments)) = port"
    "argument_value server_directory_arg_prefix (snd (extractArguments (program # args) supported_arguments)) = dir"
    unfolding snd by (auto simp: args argument_value_def supported_arguments_def)
  show "\<not> hasHelpArgument (program # args)"
    using xyz by (auto simp: args hasHelpArgument_def help_arg_prefix_def prefix_defs)
qed

text \<open>
  Given an address, a port and a directory that are valid, in any order, both programs
  accept the command line: the server calls \<open>start\<close> if the system gives it a socket and lets it
  bind the address, and the test program runs its tests against the same address and port.
\<close>

theorem mains_accept_arguments:
  assumes args: "mset args = {#server_ipv4_addr_arg_prefix @ ip, server_port_arg_prefix @ port, server_directory_arg_prefix @ dir#}"
    and ip: "validateIPv4Address ip = Inr ()" and port: "validatePortNumber port = Inr ()"
    and dir: "dir \<noteq> []" "opendir (c_str dir) = Dir_opened"
    and sys: "0 \<le> fd" "\<forall>a. 0 \<le> bind a"
  shows "(\<exists>h srv. server_main (program # args) opendir fd bind s = Inr (Inr (h, srv)))
    \<and> (\<exists>argv' g. client_main (program # args) opendir = Inr (argv', g)
        \<and> g_server_ipv4_addr g = ip \<and> g_server_port g = port \<and> stoi (g_server_port g) \<noteq> Inl Terminate)"
proof -
  obtain argv' supp where e: "extractArguments (program # args) supported_arguments = (argv', supp)" by fastforce
  have av: "argument_value server_ipv4_addr_arg_prefix supp = ip" "argument_value server_port_arg_prefix supp = port"
    "argument_value server_directory_arg_prefix supp = dir" "length args = 3" "\<not> hasHelpArgument (program # args)"
    using argument_values(1-3) [OF args, of program] argument_values(4) [OF args] argument_values(5) [OF args, of program] by (simp_all add: e)
  obtain dir' where d: "validateDirectory opendir dir = Inr dir'" using dir by (simp add: validateDirectory_def)
  from port_accepted [of port] port obtain n where n: "stoi port = Inr n" by auto
  have "bind a < 0 \<longleftrightarrow> False" for a using sys(2) by (simp add: not_less)
  then obtain srv where srv: "Server_new ip n dir' fd bind s = Inr srv"
    using sys(1) by (simp add: Server_new_def ServerDispatcher_new_def initializeSocket_def Let_def)
  have "server_main (program # args) opendir fd bind s = Inr (Inr (SignalHandler_new dir', srv))"
    using av ip port d n srv by (simp add: server_main_def e Let_def)
  moreover have "client_main (program # args) opendir =
      Inr (argv', \<lparr>g_server_ipv4_addr = ip, g_server_port = port, g_server_directory = dir'\<rparr>)"
    using av ip port d dir(1) by (simp add: client_main_def e Let_def)
  ultimately show ?thesis using n by auto
qed

definition demo_args :: "string list" where
  "demo_args = [server_port_arg_prefix @ ''8080'', server_directory_arg_prefix @ ''d'', server_ipv4_addr_arg_prefix @ ''127.0.0.1'']"

lemma demo_args_valid:
  "validateIPv4Address ''127.0.0.1'' = Inr ()" "validatePortNumber ''8080'' = Inr ()"
  by code_simp+

theorem mains_accept_arguments_witness:
  "\<exists>h srv. server_main (''server'' # demo_args) (\<lambda>_. Dir_opened) 3 (\<lambda>_. 0) demo_tree = Inr (Inr (h, srv))"
  using mains_accept_arguments [of demo_args "''127.0.0.1''" "''8080''" "''d''" "\<lambda>_. Dir_opened" 3 "\<lambda>_. 0" "''server''"]
    demo_args_valid by (simp add: demo_args_def)

theorem server_main_configured_witness:
  "\<exists>h srv. server_main (''server'' # demo_args) (\<lambda>_. Dir_opened) 3 (\<lambda>_. 0) demo_tree = Inr (Inr (h, srv))
     \<and> last (s_directory h) = CHR ''/'' \<and> dispatcher_inv (m_up_dispatcher srv)"
proof -
  have "argument_value p (snd (extractArguments (''server'' # demo_args) supported_arguments)) =
      (if p = server_port_arg_prefix then ''8080'' else if p = server_directory_arg_prefix then ''d''
       else if p = server_ipv4_addr_arg_prefix then ''127.0.0.1'' else [])" for p
    by (simp add: extractArguments_def demo_args_def supported_arguments_def argument_value_def prefix_defs)
  moreover have "validateDirectory (\<lambda>_. Dir_opened) ''d'' = Inr ''d/''" by (simp add: validateDirectory_def)
  moreover have "stoi ''8080'' = Inr 8080" by code_simp
  ultimately obtain h srv where m: "server_main (''server'' # demo_args) (\<lambda>_. Dir_opened) 3 (\<lambda>_. 0) demo_tree = Inr (Inr (h, srv))"
    using demo_args_valid
    by (simp add: server_main_def Server_new_def ServerDispatcher_new_def initializeSocket_def Let_def hasHelpArgument_def
        help_arg_prefix_def demo_args_def prefix_defs)
  from server_main_configured [OF m] m show ?thesis by (auto simp: consts_simps)
qed

end
