(* ===== verification/Dispatcher.thy ===== *)
theory Dispatcher
  imports Socket Command_Properties
begin

text \<open>
  The class template \<open>ServerDispatcher\<close> (server-dispatcher.h): the thread of one connection,
  and the accept loop with the descriptor set. As the template is written for any backend with
  \<open>getRequestHeaderLength\<close>, \<open>getContentLength\<close> and \<open>processRequest\<close>, the definitions take
  these as arguments, and the locale \<open>dispatch\<close> states what a backend must promise; the
  interpretation at the end shows that \<open>ServerBackend\<close> does.
\<close>

type_synonym content_length_op = "string \<Rightarrow> bool \<Rightarrow> (int \<times> string \<times> bool) outcome"
type_synonym 'b process_op = "string \<Rightarrow> string \<Rightarrow> bool \<Rightarrow> 'b \<Rightarrow> (string \<times> bool) outcome \<times> 'b"

subsection \<open>One connection\<close>

text \<open>\<open>None\<close> is the return value false. The timeout is a member of the dispatcher.\<close>

definition readSocket :: "'k sys_read \<Rightarrow> 'k wait_for \<Rightarrow> int \<Rightarrow> nat \<Rightarrow> 'k \<Rightarrow> string option \<times> 'k" where
  "readSocket sys_read wait_for m_connection_timeout_seconds in_buffer_len k =
     readFileDescriptor sys_read wait_for in_buffer_len m_connection_timeout_seconds k"

text \<open>A failed write is reported only in debug builds; the loop goes on.\<close>

definition send_response :: "'k sys_write \<Rightarrow> string \<Rightarrow> 'k \<Rightarrow> unit outcome \<times> 'k" where
  "send_response sys_write server_response k =
     (if 0 < length server_response then
        (case writeFileDescriptor sys_write server_response k of
           (Inl x, k) \<Rightarrow> (Inl x, k)
         | (Inr _, k) \<Rightarrow> (Inr (), k))
      else (Inr (), k))"

text \<open>
  The body of the \<open>do\<close> loop: \<open>None\<close> is \<open>break\<close>, \<open>Some\<close> carries \<open>transaction_in_progress\<close>. The
  payload buffer has \<open>content_len + 1\<close> bytes, an addition on \<open>int\<close>.
\<close>

definition connection_turn ::
  "nat \<Rightarrow> content_length_op \<Rightarrow> 'b process_op \<Rightarrow> 'k sys_read \<Rightarrow> 'k wait_for \<Rightarrow> 'k sys_write \<Rightarrow> int
   \<Rightarrow> bool \<Rightarrow> 'b \<times> 'k \<Rightarrow> (bool option) outcome \<times> 'b \<times> 'k" where
  "connection_turn hlen content_length process sys_read wait_for sys_write timeout in_progress st =
     (case st of (b, k) \<Rightarrow>
      case readSocket sys_read wait_for timeout hlen k of
        (None, k) \<Rightarrow> (Inr None, b, k)
      | (Some header, k) \<Rightarrow>
          (case content_length header in_progress of
             Inl x \<Rightarrow> (Inl x, b, k)
           | Inr (content_len, server_response, in_progress) \<Rightarrow>
               if content_len < 0 then
                 (case send_response sys_write server_response k of
                    (Inl x, k) \<Rightarrow> (Inl x, b, k)
                  | (Inr _, k) \<Rightarrow> (Inr (Some in_progress), b, k))
               else if int_max < content_len + 1 then (Inl Undefined, b, k)
               else
                 (case readSocket sys_read wait_for timeout (nat content_len) k of
                    (None, k) \<Rightarrow> (Inr None, b, k)
                  | (Some payload, k) \<Rightarrow>
                      (case process header payload in_progress b of
                         (Inl x, b) \<Rightarrow> (Inl x, b, k)
                       | (Inr (server_response, in_progress), b) \<Rightarrow>
                           (case send_response sys_write server_response k of
                              (Inl x, k) \<Rightarrow> (Inl x, b, k)
                            | (Inr _, k) \<Rightarrow> (Inr (Some in_progress), b, k))))))"

partial_function (option) connection_loop ::
  "nat \<Rightarrow> content_length_op \<Rightarrow> 'b process_op \<Rightarrow> 'k sys_read \<Rightarrow> 'k wait_for \<Rightarrow> 'k sys_write \<Rightarrow> int
   \<Rightarrow> bool \<Rightarrow> 'b \<times> 'k \<Rightarrow> (unit outcome \<times> 'b \<times> 'k) option" where
  "connection_loop hlen content_length process sys_read wait_for sys_write timeout in_progress st =
     (case connection_turn hlen content_length process sys_read wait_for sys_write timeout in_progress st of
        (Inl x, st) \<Rightarrow> Some (Inl x, st)
      | (Inr None, st) \<Rightarrow> Some (Inr (), st)
      | (Inr (Some in_progress), st) \<Rightarrow>
          if in_progress
          then connection_loop hlen content_length process sys_read wait_for sys_write timeout in_progress st
          else Some (Inr (), st))"

declare connection_loop.simps [code]

subsection \<open>ServerBackend as a backend of the dispatcher\<close>

text \<open>The clock readings and random numbers of successive requests are part of the state.\<close>

definition backend_content_length :: content_length_op where
  "backend_content_length header in_progress =
     (case getContentLength header of
        Inr n \<Rightarrow> Inr (n, [], in_progress)
      | Inl reply \<Rightarrow>
          (case generateResponse reply of
             None \<Rightarrow> Inl Terminate
           | Some response \<Rightarrow> Inr (-1, response, False)))"

definition backend_process :: "((nat \<Rightarrow> env) \<times> ServerBackend) process_op" where
  "backend_process header payload in_progress st =
     (case st of (es, b) \<Rightarrow>
        (case processRequest (es 0) header payload in_progress b of (r, b) \<Rightarrow> (r, (es \<circ> Suc, b))))"

subsection \<open>What a connection should do\<close>

text \<open>The responses to a sequence of messages: until one ends the connection, each is processed in turn.\<close>

fun answers :: "'b process_op \<Rightarrow> (string \<times> string) list \<Rightarrow> 'b \<Rightarrow> string list \<times> 'b" where
  "answers process [] b = ([], b)"
| "answers process ((h, pl) # ms) b =
     (case process h pl True b of
        (Inl x, b) \<Rightarrow> ([], b)
      | (Inr (resp, True), b) \<Rightarrow> (case answers process ms b of (rs, b) \<Rightarrow> (resp # rs, b))
      | (Inr (resp, False), b) \<Rightarrow> ([resp], b))"

text \<open>Messages as they are framed on the wire, all of which the backend can answer when their turn comes.\<close>

fun answerable :: "nat \<Rightarrow> content_length_op \<Rightarrow> 'b process_op \<Rightarrow> (string \<Rightarrow> string \<Rightarrow> 'b \<Rightarrow> bool)
    \<Rightarrow> (string \<times> string) list \<Rightarrow> 'b \<Rightarrow> bool" where
  "answerable hlen content_length process fits [] b = True"
| "answerable hlen content_length process fits ((h, pl) # ms) b =
     (length h = hlen \<and> (\<exists>resp. content_length h True = Inr (int (length pl), resp, True))
      \<and> int (length pl) < int_max \<and> fits h pl b
      \<and> answerable hlen content_length process fits ms (snd (process h pl True b)))"

subsection \<open>What the dispatcher relies on\<close>

text \<open>
  \<open>good\<close> is the backend's invariant; \<open>fits h p b\<close> says that the request \<open>h\<close>, \<open>p\<close> is one the
  backend can answer in state \<open>b\<close>.
\<close>

locale dispatch = duplex sys_read wait_for src sent ok sys_write budget
  for sys_read :: "'k sys_read" and wait_for :: "'k wait_for" and src :: "'k \<Rightarrow> string"
    and sent :: "'k \<Rightarrow> string" and ok :: "'k \<Rightarrow> bool" and sys_write :: "'k sys_write" and budget :: "'k \<Rightarrow> nat" +
  fixes hlen :: nat and content_length :: content_length_op and process :: "'b process_op"
    and good :: "'b \<Rightarrow> bool" and fits :: "string \<Rightarrow> string \<Rightarrow> 'b \<Rightarrow> bool"
  assumes header_length: "0 < hlen"
    and content_length_returns: "\<exists>n resp p'. content_length h p = Inr (n, resp, p') \<and> nul_free resp
          \<and> (if n < 0 then resp \<noteq> [] \<and> \<not> p' else p' = p)"
    and process_answers: "good b \<Longrightarrow> fits h pl b \<Longrightarrow> process h pl p b = (r, b') \<Longrightarrow>
          good b' \<and> (\<exists>resp p'. r = Inr (resp, p') \<and> resp \<noteq> [] \<and> nul_free resp)"
begin

abbreviation turn :: "int \<Rightarrow> bool \<Rightarrow> 'b \<times> 'k \<Rightarrow> (bool option) outcome \<times> 'b \<times> 'k" where
  "turn \<equiv> connection_turn hlen content_length process sys_read wait_for sys_write"

abbreviation connection :: "int \<Rightarrow> bool \<Rightarrow> 'b \<times> 'k \<Rightarrow> (unit outcome \<times> 'b \<times> 'k) option" where
  "connection \<equiv> connection_loop hlen content_length process sys_read wait_for sys_write"

lemma readSocket_src:
  assumes "readSocket sys_read wait_for t n k = (r, k')"
  shows "\<exists>used. src k = used @ src k' \<and> (r \<noteq> None \<longrightarrow> r = Some used \<and> length used = n)" "sent k' = sent k"
  using assms rd.read_success [of n t k _ k'] rd.read_failure [of n t k k']
  by (cases r; auto simp: readSocket_def)+

lemma send_response_src:
  assumes "send_response sys_write r k = (x, k')"
  shows "src k' = src k"
proof (cases "r \<noteq> [] \<and> nul_free r")
  case True
  then obtain m k1 where "writeFileDescriptor sys_write r k = (Inr (m = length r), k1)" "src k1 = src k"
    using send_returns [of r k] by blast
  with True assms show ?thesis by (simp add: send_response_def)
next
  case False
  with assms show ?thesis
    by (auto simp: send_response_def writeFileDescriptor_def split: if_splits)
qed

text \<open>A turn after which the loop goes on has consumed a header.\<close>

lemma turn_progress:
  assumes "turn t p (b, k) = (Inr (Some p'), b', k')"
  shows "length (src k') < length (src k)"
proof -
  obtain r k1 where 1: "readSocket sys_read wait_for t hlen k = (r, k1)" by fastforce
  with assms obtain h where h: "r = Some h" by (cases r) (auto simp: connection_turn_def)
  have "length (src k1) + hlen = length (src k)" using readSocket_src(1) [OF 1] h by auto
  then have lt: "length (src k1) < length (src k)" using header_length by simp
  obtain n resp q where c: "content_length h p = Inr (n, resp, q)" using content_length_returns by blast
  show ?thesis
  proof (cases "n < 0")
    case True
    obtain x k2 where "send_response sys_write resp k1 = (x, k2)" by fastforce
    with assms 1 h c True lt send_response_src [of resp k1 x k2] show ?thesis
      by (auto simp: connection_turn_def split: sum.splits)
  next
    case False
    obtain r2 k2 where 2: "readSocket sys_read wait_for t (nat n) k1 = (r2, k2)" by fastforce
    have le: "length (src k2) \<le> length (src k1)" using readSocket_src(1) [OF 2] by auto
    from assms 1 h c False 2 obtain pl where pl: "r2 = Some pl"
      by (cases r2) (auto simp: connection_turn_def split: if_splits)
    obtain y b2 where 3: "process h pl q b = (y, b2)" by fastforce
    with assms 1 h c False 2 pl obtain resp2 q2 where y: "y = Inr (resp2, q2)"
      by (cases y) (auto simp: connection_turn_def split: if_splits)
    obtain x k3 where "send_response sys_write resp2 k2 = (x, k3)" by fastforce
    with assms 1 h c False 2 pl 3 y lt le send_response_src [of resp2 k2 x k3] show ?thesis
      by (auto simp: connection_turn_def split: if_splits sum.splits)
  qed
qed

lemma connection_returns: "\<exists>r st'. connection t p st = Some (r, st')"
proof (induction "length (src (snd st))" arbitrary: p st rule: less_induct)
  case less
  obtain b k where st: "st = (b, k)" by (cases st)
  obtain r b' k' where t: "turn t p st = (r, b', k')" by (metis prod_cases3)
  show ?case
  proof (cases "r = Inr (Some True)")
    case True
    have "length (src k') < length (src k)" using turn_progress [of t p b k True b' k'] t True st by simp
    then obtain r2 st2 where "connection t True (b', k') = Some (r2, st2)"
      using less.hyps [of "(b', k')" True] st by auto
    with t True show ?thesis by (subst connection_loop.simps) simp
  next
    case False
    with t show ?thesis
      by (subst connection_loop.simps) (auto split: sum.splits option.splits)
  qed
qed

text \<open>One message on a connection that does not fail: processed, answered, and out of the stream.\<close>

lemma turn_message:
  assumes k: "ok k" "src k = h @ pl @ rest" and b: "good b" "fits h pl b"
    and h: "length h = hlen" "content_length h True = Inr (int (length pl), resp, True)" "int (length pl) < int_max"
  obtains resp p' b' k' where "process h pl True b = (Inr (resp, p'), b')" "good b'"
    and "turn t True (b, k) = (Inr (Some p'), b', k')"
    and "ok k'" "src k' = rest" "sent k' = sent k @ resp"
proof -
  from rd.read_exact [OF k(1), of hlen t] k(2) h(1) obtain k1 where
    1: "readSocket sys_read wait_for t hlen k = (Some h, k1)" "src k1 = pl @ rest" "sent k1 = sent k" "ok k1"
    by (auto simp: readSocket_def)
  from rd.read_exact [OF 1(4), of "length pl" t] 1(2,3) obtain k2 where
    2: "readSocket sys_read wait_for t (length pl) k1 = (Some pl, k2)" "src k2 = rest" "sent k2 = sent k" "ok k2"
    by (auto simp: readSocket_def)
  obtain r b' where 3: "process h pl True b = (r, b')" by fastforce
  from process_answers [OF b 3] obtain resp2 p' where
    r: "r = Inr (resp2, p')" "resp2 \<noteq> []" "nul_free resp2" and g: "good b'" by blast
  from send_exact [OF 2(4) r(3)] obtain k3 where
    4: "writeFileDescriptor sys_write resp2 k2 = (Inr True, k3)" "sent k3 = sent k2 @ resp2" "src k3 = src k2" "ok k3" by blast
  have "turn t True (b, k) = (Inr (Some p'), b', k3)"
    using 1(1) 2(1) 3 4(1) r h by (simp add: connection_turn_def send_response_def)
  with 2 3 4 r g show ?thesis by (intro that) simp_all
qed

text \<open>A header that is rejected: answered, and the connection is given up.\<close>

lemma turn_rejected:
  assumes k: "ok k" "src k = h @ rest" "length h = hlen" and c: "content_length h p = Inr (n, resp, q)" "n < 0"
  obtains k' where "turn t p (b, k) = (Inr (Some q), b, k')" "ok k'" "src k' = rest" "sent k' = sent k @ resp"
proof -
  from rd.read_exact [OF k(1), of hlen t] k(2,3) obtain k1 where
    1: "readSocket sys_read wait_for t hlen k = (Some h, k1)" "src k1 = rest" "sent k1 = sent k" "ok k1"
    by (auto simp: readSocket_def)
  have r: "resp \<noteq> []" "nul_free resp" using content_length_returns [of h p] c by auto
  from send_exact [OF 1(4) r(2)] obtain k2 where
    "writeFileDescriptor sys_write resp k1 = (Inr True, k2)" "sent k2 = sent k1 @ resp" "src k2 = src k1" "ok k2" by blast
  with 1 r c show ?thesis by (intro that [of k2]) (simp_all add: connection_turn_def send_response_def)
qed

lemma turn_end_of_stream:
  assumes "src k = []"
  shows "\<exists>k'. turn t p (b, k) = (Inr None, b, k') \<and> sent k' = sent k"
proof -
  obtain r k1 where 1: "readSocket sys_read wait_for t hlen k = (r, k1)" by fastforce
  with readSocket_src [OF 1] assms header_length have "r = None" "sent k1 = sent k" by auto
  with 1 show ?thesis by (simp add: connection_turn_def)
qed

lemma connection_answers:
  assumes "ok k" "good b" "answerable hlen content_length process fits ms b"
    and "src k = concat (map (\<lambda>(h, pl). h @ pl) ms)"
  shows "\<exists>k'. connection t True (b, k) = Some (Inr (), snd (answers process ms b), k')
     \<and> sent k' = sent k @ concat (fst (answers process ms b)) \<and> good (snd (answers process ms b))"
  using assms
proof (induction ms arbitrary: b k)
  case Nil
  with turn_end_of_stream [of k t True b] obtain k' where "turn t True (b, k) = (Inr None, b, k')" "sent k' = sent k" by auto
  with Nil show ?case by (subst connection_loop.simps) simp
next
  case (Cons m ms)
  obtain h pl where m: "m = (h, pl)" by (cases m)
  let ?rest = "concat (map (\<lambda>(h, pl). h @ pl) ms)"
  from Cons.prems(3) obtain resp0 where h: "length h = hlen" "content_length h True = Inr (int (length pl), resp0, True)"
    "int (length pl) < int_max" "fits h pl b" by (auto simp: m)
  have src: "src k = h @ pl @ ?rest" using Cons.prems(4) by (simp add: m)
  obtain resp p' b' k' where t: "process h pl True b = (Inr (resp, p'), b')" "good b'"
    "turn t True (b, k) = (Inr (Some p'), b', k')" "ok k'" "src k' = ?rest" "sent k' = sent k @ resp"
    by (rule turn_message [OF Cons.prems(1) src Cons.prems(2) h(4,1,2,3)])
  show ?case
  proof (cases p')
    case True
    have "answerable hlen content_length process fits ms b'" using Cons.prems(3) t(1) by (simp add: m)
    from Cons.IH [OF t(4,2) this t(5)] t True show ?thesis
      by (subst connection_loop.simps) (auto simp: m split: prod.splits)
  next
    case False
    with t show ?thesis by (subst connection_loop.simps) (simp add: m)
  qed
qed

end

subsection \<open>ServerBackend keeps the promises\<close>

fun server_good :: "(nat \<Rightarrow> env) \<times> ServerBackend \<Rightarrow> bool" where
  "server_good (es, b) = (backend_inv b \<and> \<not> m_initialize b)"

fun server_fits :: "string \<Rightarrow> string \<Rightarrow> (nat \<Rightarrow> env) \<times> ServerBackend \<Rightarrow> bool" where
  "server_fits h pl (es, b) =
     ((fst (getClientRequestAsTuple (Some h) (Some pl)) = read_cmd \<longrightarrow> \<not> unreadable (c_str pl) b)
      \<and> (fst (getClientRequestAsTuple (Some h) (Some pl)) = new_txn_cmd \<longrightarrow>
           candidate_id (rands (es 0)) 0 (m_txns b) \<noteq> None))"

lemma processRequest_response:
  assumes inv: "backend_inv b" "\<not> m_initialize b" and fits: "server_fits h pl (es, b)"
    and pr: "processRequest (es 0) h pl p b = (r, b')"
  shows "backend_inv b' \<and> \<not> m_initialize b' \<and> (\<exists>resp p'. r = Inr (resp, p') \<and> resp \<noteq> [] \<and> nul_free resp)"
proof -
  let ?req = "getClientRequestAsTuple (Some h) (Some pl)"
  obtain r1 b1 where pc: "processCommand ?req (es 0) p b = (r1, b1)" by fastforce
  have pl: "snd (snd (snd (snd ?req))) = c_str pl"
    by (simp add: getClientRequestAsTuple_def split: prod.split)
  obtain c i k n d where t: "?req = (c, i, k, n, d)" by (cases ?req)
  note ok = request_ok_parsed [of "Some h" "Some pl"]
  have "\<exists>x. r1 = Inr x"
    using processCommand_inv(2) [OF inv(1) ok pc] fits pl by (auto simp: t)
  then obtain reply p' where r1: "r1 = Inr (reply, p')" by auto
  have wf: "reply_wf reply"
    using processCommand_reply_wf [OF inv(1) ok pc [unfolded r1]] fits pl by simp
  from response_codec.encode_decode [OF wf] obtain hd bd where
    g: "generateResponse reply = Some (hd @ bd)" "length hd = response_header_len" "nul_free (hd @ bd)" by blast
  have "m_initialize b1 = m_initialize b" by (rule processCommand_members(1) [OF inv(1) ok pc])
  moreover have "r = Inr (hd @ bd, p')" "b' = b1"
    using pr inv(2) pc r1 g(1) by (simp_all add: processRequest_def initializeFunctionsAndTransactions_def)
  moreover have "hd @ bd \<noteq> []" using g(2) by (auto simp: consts_simps)
  ultimately show ?thesis using g(3) inv(2) processCommand_inv(1) [OF inv(1) ok pc] by blast
qed

lemma formatting_error_response:
  obtains resp where "generateResponse SET_FORMATTING_ERROR = Some resp" "nul_free resp" "resp \<noteq> []"
proof -
  have "reply_wf SET_FORMATTING_ERROR"
    unfolding SET_FORMATTING_ERROR_def
    by (rule reply_wf_error) (simp_all add: consts_simps int_range_defs)
  from response_codec.encode_decode [OF this] obtain h p where
    "generateResponse SET_FORMATTING_ERROR = Some (h @ p)" "length h = response_header_len" "nul_free (h @ p)" by blast
  then show ?thesis by (intro that [of "h @ p"]) (auto simp: consts_simps)
qed

interpretation server: dispatch socket_read socket_wait inbound outbound reliable socket_write
  "\<lambda>k. length (send_script k)" getRequestHeaderLength backend_content_length backend_process server_good server_fits
proof
  show "0 < getRequestHeaderLength" by (simp add: getRequestHeaderLength_def consts_simps)
  fix h pl :: string and p r b b'
  show "\<exists>n resp p'. backend_content_length h p = Inr (n, resp, p') \<and> nul_free resp
      \<and> (if n < 0 then resp \<noteq> [] \<and> \<not> p' else p' = p)"
  proof (cases "isValidRequestFormat h")
    case True
    then have "backend_content_length h p = Inr (request_content_len h, [], p)"
      by (simp add: backend_content_length_def getContentLength_def getClientRequestAsTuple_def split: prod.splits)
    with request_content_len_range(1) [OF True] show ?thesis by simp
  next
    case False
    obtain resp where "generateResponse SET_FORMATTING_ERROR = Some resp" "nul_free resp" "resp \<noteq> []"
      by (rule formatting_error_response)
    with False show ?thesis by (intro exI [of _ "-1"] exI [of _ resp] exI [of _ False])
      (simp add: backend_content_length_def getContentLength_def)
  qed
  assume g: "server_good b" "server_fits h pl b" and pr: "backend_process h pl p b = (r, b')"
  obtain es b0 where b: "b = (es, b0)" by (cases b)
  obtain r1 b1 where 1: "processRequest (es 0) h pl p b0 = (r1, b1)" by fastforce
  then have "r = r1" "b' = (es \<circ> Suc, b1)" using pr by (simp_all add: backend_process_def b)
  with processRequest_response [of b0 h pl es p r1 b1] 1 g show "server_good b' \<and> (\<exists>resp p'. r = Inr (resp, p') \<and> resp \<noteq> [] \<and> nul_free resp)"
    by (simp add: b)
qed

subsection \<open>Properties of the server's connections\<close>

abbreviation server_turn :: "bool \<Rightarrow> ((nat \<Rightarrow> env) \<times> ServerBackend) \<times> socket
    \<Rightarrow> (bool option) outcome \<times> ((nat \<Rightarrow> env) \<times> ServerBackend) \<times> socket" where
  "server_turn \<equiv> connection_turn getRequestHeaderLength backend_content_length backend_process
     socket_read socket_wait socket_write connection_timeout_seconds"

abbreviation server_connection :: "bool \<Rightarrow> ((nat \<Rightarrow> env) \<times> ServerBackend) \<times> socket
    \<Rightarrow> (unit outcome \<times> ((nat \<Rightarrow> env) \<times> ServerBackend) \<times> socket) option" where
  "server_connection \<equiv> connection_loop getRequestHeaderLength backend_content_length backend_process
     socket_read socket_wait socket_write connection_timeout_seconds"


text \<open>
  C7. On a connection that does not fail, however the stream is cut into pieces, the
  framed requests are processed in the order of the stream and the responses are sent in
  that order, one per request and nothing else, until a response ends the connection.
\<close>

theorem requests_answered_in_order:
  assumes "reliable k" "server_good st"
    and "answerable getRequestHeaderLength backend_content_length backend_process server_fits ms st"
    and "inbound k = concat (map (\<lambda>(h, pl). h @ pl) ms)"
  shows "\<exists>k'. server_connection True (st, k) = Some (Inr (), snd (answers backend_process ms st), k')
     \<and> outbound k' = outbound k @ concat (fst (answers backend_process ms st))
     \<and> server_good (snd (answers backend_process ms st))"
  using server.connection_answers [OF assms(1-4)] .

definition demo_header :: string where
  "demo_header = the (request_header write_cmd 7 1 ''ab'')"

definition demo_socket :: socket where
  "demo_socket = \<lparr>inbound = demo_header @ ''ab'', outbound = [], recv_script = [Some 0, Some 9], send_script = [Some 3],
     wait_script = [False]\<rparr>"

theorem requests_answered_in_order_witness:
  "\<exists>k' st'. server_connection True (((\<lambda>_. demo_env), demo_backend), demo_socket) = Some (Inr (), st', k')
     \<and> outbound k' = concat (fst (answers backend_process [(demo_header, ''ab'')] ((\<lambda>_. demo_env), demo_backend)))"
proof -
  have "length demo_header = 64" "backend_content_length demo_header True = Inr (2, [], True)"
    "fst (getClientRequestAsTuple (Some demo_header) (Some ''ab'')) = write_cmd" by code_simp+
  then have a: "answerable getRequestHeaderLength backend_content_length backend_process server_fits [(demo_header, ''ab'')]
      ((\<lambda>_. demo_env), demo_backend)"
    by (simp add: getRequestHeaderLength_def consts_simps int_range_defs)
  have r: "reliable demo_socket" by (simp add: reliable_def demo_socket_def)
  have g: "server_good ((\<lambda>_. demo_env), demo_backend)" using demo_backend_inv by (simp add: demo_backend_def)
  have "inbound demo_socket = concat (map (\<lambda>(h, pl). h @ pl) [(demo_header, ''ab'')])" "outbound demo_socket = []"
    by (simp_all add: demo_socket_def)
  then show ?thesis using requests_answered_in_order [OF r g a] by (metis append_Nil)
qed

text \<open>
  C27. The content length of a header that passes the format check is between 0 and
  \<open>INT_MAX\<close>, whatever digits it carries; a header that fails the check is answered with the
  formatting error.
\<close>

theorem getContentLength_range:
  "if isValidRequestFormat h then \<exists>n. getContentLength h = Inr n \<and> 0 \<le> n \<and> n \<le> int_max
   else getContentLength h = Inl (error_cmd, -1, -1, InvalidMessageFormat, ''InvalidMessageFormat'')"
proof (cases "isValidRequestFormat h")
  case True
  then have "getContentLength h = Inr (request_content_len h)"
    by (simp add: getContentLength_def getClientRequestAsTuple_def split: prod.split)
  with True request_content_len_range [OF True] show ?thesis by simp
next
  case False
  then show ?thesis by (simp add: getContentLength_def SET_FORMATTING_ERROR_def consts_simps)
qed

text \<open>
  The upper bound is reached: a header with a content length of more than \<open>INT_MAX\<close> passes
  the check, the length saturates, and the size of the payload buffer overflows.
\<close>

definition huge_header :: string where
  "huge_header = ''WRITE 1 1 9999999999 '' @ replicate 43 (CHR ''0'')"

lemma huge_header_overflows:
  "isValidRequestFormat huge_header"
  "fst (server_turn True (st, connected (huge_header @ ''x''))) = Inl Undefined"
proof -
  show v: "isValidRequestFormat huge_header" by code_simp
  have "NUL \<notin> set huge_header" by (simp add: huge_header_def NUL_def)
  then have "getContentLength huge_header = Inr int_max"
    by (simp add: getContentLength_def v getClientRequestAsTuple_def extractRequestFields_def)
       (simp add: huge_header_def istringstream_def extract_string_def extract_int_def split_sign_def
         is_space_def is_digit_def digits_value_def digit_val_def int_range_defs)
  moreover have "length huge_header = 64" by (simp add: huge_header_def)
  moreover have "reliable (connected (huge_header @ ''x''))" by (simp add: reliable_def connected_def)
  ultimately obtain k' where "readSocket socket_read socket_wait connection_timeout_seconds getRequestHeaderLength
      (connected (huge_header @ ''x'')) = (Some huge_header, k')"
    using sock_rd.read_exact [of "connected (huge_header @ ''x'')" 64 connection_timeout_seconds]
    by (auto simp: readSocket_def getRequestHeaderLength_def request_header_len_def connected_def)
  with \<open>getContentLength huge_header = Inr int_max\<close>
  show "fst (server_turn True (st, connected (huge_header @ ''x''))) = Inl Undefined"
    by (cases st) (simp add: connection_turn_def backend_content_length_def int_range_defs)
qed

end
