(* ===== verification/Client.thy ===== *)
theory Client
  imports Dispatcher
begin

text \<open>
  The class \<open>Client\<close> (client.h, client.cpp) over a connected socket, and one remote call from
  end to end: what the client sends, the server's connection thread reads, processes and
  answers, and the client decodes. The check of the response format is a test expectation
  that does not stop the client; its result is returned beside the tuple.
\<close>

record Client =
  m_serv_ipv4_addr :: string
  m_serv_portno :: int
  m_sockfd :: int
  m_serv_addr :: sockaddr_in

text \<open>
  The result of \<open>socket\<close> is an argument, and \<open>connect\<close> is a function of the descriptor and the
  address. The operations after construction are on the connected socket.
\<close>

definition Client_initializeSocket :: "int \<Rightarrow> Client \<Rightarrow> Client outcome" where
  "Client_initializeSocket socket_result c =
     (if socket_result < 0 then Inl ExitFailure
      else Inr (c\<lparr>m_sockfd := socket_result,
                  m_serv_addr := \<lparr>s_addr = m_serv_ipv4_addr c, sin_port = htons (m_serv_portno c)\<rparr>\<rparr>))"

definition connectToServer :: "(int \<Rightarrow> sockaddr_in \<Rightarrow> int) \<Rightarrow> Client \<Rightarrow> unit outcome" where
  "connectToServer connect c = (if connect (m_sockfd c) (m_serv_addr c) < 0 then Inl ExitFailure else Inr ())"

definition Client_new :: "string \<Rightarrow> int \<Rightarrow> int \<Rightarrow> (int \<Rightarrow> sockaddr_in \<Rightarrow> int) \<Rightarrow> Client outcome" where
  "Client_new in_serv_ipv4_addr in_serv_portno socket_result connect =
     (case Client_initializeSocket socket_result
             \<lparr>m_serv_ipv4_addr = in_serv_ipv4_addr, m_serv_portno = in_serv_portno, m_sockfd = 0,
              m_serv_addr = \<lparr>s_addr = [], sin_port = 0\<rparr>\<rparr> of
        Inl x \<Rightarrow> Inl x
      | Inr c \<Rightarrow> (case connectToServer connect c of Inl x \<Rightarrow> Inl x | Inr _ \<Rightarrow> Inr c))"

definition getResponse :: "socket \<Rightarrow> (bool \<times> ResponseTuple) outcome \<times> socket" where
  "getResponse k =
     (case readFileDescriptor socket_read socket_wait response_header_len 0 k of
        (None, k) \<Rightarrow> (Inl ExitFailure, k)
      | (Some response_header, k) \<Rightarrow>
          (let content_len = response_content_len response_header in
           if content_len < 0 \<or> int_max < content_len + 1 then (Inl Undefined, k)
           else (case readFileDescriptor socket_read socket_wait (nat content_len) 0 k of
                   (None, k) \<Rightarrow> (Inl ExitFailure, k)
                 | (Some response_payload, k) \<Rightarrow>
                     (Inr (isValidResponseFormat response_header, getResponseTuple response_header response_payload), k))))"

definition printResponse :: "ResponseTuple \<Rightarrow> string" where
  "printResponse in_server_response_tuple =
     (case in_server_response_tuple of (command, txn_id, seq_num, error_code, content_len, data) \<Rightarrow>
        command @ '' '' @ to_string txn_id @ '' '' @ to_string seq_num @ '' '' @ to_string error_code @ '' ''
        @ to_string content_len @ '' '' @ data @ ''\<newline>'')"

text \<open>A header that is too long for its 64 bytes ends in an uncaught exception.\<close>

definition sendRequest_expect ::
  "string \<Rightarrow> int \<Rightarrow> int \<Rightarrow> string \<Rightarrow> bool \<Rightarrow> socket \<Rightarrow> (bool \<times> ResponseTuple) outcome \<times> socket" where
  "sendRequest_expect in_command in_txn_id in_seq_num in_data in_expectResponse k =
     (case request_header in_command in_txn_id in_seq_num in_data of
        None \<Rightarrow> (Inl Terminate, k)
      | Some header \<Rightarrow>
          (case writeFileDescriptor socket_write (header @ in_data) k of
             (Inl x, k) \<Rightarrow> (Inl x, k)
           | (Inr False, k) \<Rightarrow> (Inl ExitFailure, k)
           | (Inr True, k) \<Rightarrow>
               if in_expectResponse then getResponse k else (Inr (True, [], 0, 0, 0, 0, []), k)))"

definition sendRequest :: "string \<Rightarrow> int \<Rightarrow> int \<Rightarrow> string \<Rightarrow> socket \<Rightarrow> unit outcome \<times> socket" where
  "sendRequest in_command in_txn_id in_seq_num in_data k =
     (case sendRequest_expect in_command in_txn_id in_seq_num in_data False k of
        (Inl x, k) \<Rightarrow> (Inl x, k)
      | (Inr _, k) \<Rightarrow> (Inr (), k))"

definition sendRawRequestGetResponse :: "string \<Rightarrow> socket \<Rightarrow> (bool \<times> ResponseTuple) outcome \<times> socket" where
  "sendRawRequestGetResponse in_raw_request k =
     (if \<not> nul_free in_raw_request then (Inl AssertFailed, k)
      else (case writeFileDescriptor socket_write in_raw_request k of
              (Inl x, k) \<Rightarrow> (Inl x, k)
            | (Inr False, k) \<Rightarrow> (Inl ExitFailure, k)
            | (Inr True, k) \<Rightarrow> getResponse k))"

definition sendRequestGetResponse ::
  "string \<Rightarrow> int \<Rightarrow> int \<Rightarrow> string \<Rightarrow> socket \<Rightarrow> (bool \<times> ResponseTuple) outcome \<times> socket" where
  "sendRequestGetResponse in_command in_txn_id in_seq_num in_data k =
     sendRequest_expect in_command in_txn_id in_seq_num in_data True k"

subsection \<open>The client's half\<close>

lemma encode_request_parts:
  assumes "request_wf (cmd, txn, seq, data)"
  obtains header where "request_header cmd txn seq data = Some header" "encode_request (cmd, txn, seq, data) = Some (header @ data)"
    "length header = request_header_len" "nul_free (header @ data)" "isValidRequestFormat header"
    "request_content_len header = int (length data)"
    "getClientRequestAsTuple (Some header) (Some data) = (cmd, txn, seq, int (length data), data)"
proof -
  from request_codec.encode_decode [OF assms] obtain h p where
    e: "encode_request (cmd, txn, seq, data) = Some (h @ p)" "length h = request_header_len" "nul_free (h @ p)"
    "isValidRequestFormat h" "request_content_len h = int (length p)"
    "getClientRequestAsTuple (Some h) (Some p) = (cmd, txn, seq, int (length data), data)" by auto
  from e(6) have p: "int (length data) = request_content_len h"
    by (auto simp: getClientRequestAsTuple_def split: prod.splits)
  from e(1) obtain header where hd: "request_header cmd txn seq data = Some header" "header @ data = h @ p" by auto
  with e(5) p have "header = h" "data = p" by auto
  with hd(1) e show ?thesis by (intro that [of header]) auto
qed

lemma sendRequest_exact:
  assumes "request_wf (cmd, txn, seq, data)" "reliable k"
  shows "\<exists>k'. sendRequest cmd txn seq data k = (Inr (), k') \<and> reliable k' \<and> inbound k' = inbound k
    \<and> outbound k' = outbound k @ the (encode_request (cmd, txn, seq, data))"
proof -
  obtain header where h: "request_header cmd txn seq data = Some header"
    "encode_request (cmd, txn, seq, data) = Some (header @ data)" "nul_free (header @ data)"
    by (rule encode_request_parts [OF assms(1)])
  from sock.send_exact [OF assms(2) h(3)] obtain k' where
    "writeFileDescriptor socket_write (header @ data) k = (Inr True, k')" "outbound k' = outbound k @ header @ data"
    "inbound k' = inbound k" "reliable k'" by blast
  with h show ?thesis by (simp add: sendRequest_def sendRequest_expect_def del: encode_request.simps)
qed

lemma getResponse_exact:
  assumes wf: "reply_wf reply" and resp: "generateResponse reply = Some resp" and k: "reliable k" "inbound k = resp @ rest"
    and small: "int (length resp) < int_max"
  shows "\<exists>k'. getResponse k = (Inr (True, reply_view reply), k') \<and> reliable k' \<and> inbound k' = rest \<and> outbound k' = outbound k"
proof -
  from response_codec.encode_decode [OF wf] resp obtain h p where
    r: "resp = h @ p" "length h = response_header_len" "isValidResponseFormat h" "response_content_len h = int (length p)"
    "getResponseTuple h p = reply_view reply" by auto
  from sock_rd.read_exact [OF k(1), of response_header_len 0] k(2) r(1,2) obtain k1 where
    1: "readFileDescriptor socket_read socket_wait response_header_len 0 k = (Some h, k1)" "inbound k1 = p @ rest"
    "outbound k1 = outbound k" "reliable k1" by auto
  from sock_rd.read_exact [OF 1(4), of "length p" 0] 1(2,3) obtain k2 where
    2: "readFileDescriptor socket_read socket_wait (length p) 0 k1 = (Some p, k2)" "inbound k2 = rest"
    "outbound k2 = outbound k" "reliable k2" by auto
  have "int (length p) + 1 \<le> int_max" using small r(1,2) by (simp add: consts_simps)
  with 1 2 r show ?thesis by (simp add: getResponse_def)
qed

subsection \<open>One remote call\<close>

text \<open>The server's half: the bytes of one well-formed request, whatever follows them.\<close>

lemma server_turn_request:
  assumes wf: "request_wf (cmd, txn, seq, data)" and small: "int (length data) < int_max"
    and g: "server_good (es, b)" and fits: "server_fits (the (request_header cmd txn seq data)) data (es, b)"
    and ks: "reliable ks" "inbound ks = the (encode_request (cmd, txn, seq, data)) @ rest"
  obtains reply p' b' resp ks' where "processCommand (cmd, txn, seq, int (length data), data) (es 0) True b = (Inr (reply, p'), b')"
    and "generateResponse reply = Some resp" "reply_wf reply" "server_good (es \<circ> Suc, b')"
    and "server_turn True ((es, b), ks) = (Inr (Some p'), (es \<circ> Suc, b'), ks')"
    and "outbound ks' = outbound ks @ resp" "inbound ks' = rest" "reliable ks'"
proof -
  obtain header where h: "request_header cmd txn seq data = Some header" "encode_request (cmd, txn, seq, data) = Some (header @ data)"
    "length header = request_header_len" "isValidRequestFormat header" "request_content_len header = int (length data)"
    "getClientRequestAsTuple (Some header) (Some data) = (cmd, txn, seq, int (length data), data)"
    by (rule encode_request_parts [OF wf])
  have cl: "backend_content_length header True = Inr (int (length data), [], True)"
    using h(4,5) by (simp add: backend_content_length_def getContentLength_def getClientRequestAsTuple_def split: prod.splits)
  let ?req = "(cmd, txn, seq, int (length data), data)"
  have hl: "length header = getRequestHeaderLength" using h(3) by (simp add: getRequestHeaderLength_def)
  have src: "inbound ks = header @ data @ rest" using ks(2) h(2) by simp
  have ft: "server_fits header data (es, b)" using fits h(1) by simp
  obtain resp p' st' ks' where t: "backend_process header data True (es, b) = (Inr (resp, p'), st')" "server_good st'"
    "server_turn True ((es, b), ks) = (Inr (Some p'), st', ks')" "reliable ks'" "inbound ks' = rest" "outbound ks' = outbound ks @ resp"
    by (rule server.turn_message [OF ks(1) src g ft hl cl small])
  obtain r1 b1 where pc: "processCommand ?req (es 0) True b = (r1, b1)" by fastforce
  have init: "\<not> m_initialize b" and inv: "backend_inv b" using g by simp_all
  from t(1) init pc h(6) obtain reply where
    r: "r1 = Inr (reply, p')" "generateResponse reply = Some resp" "st' = (es \<circ> Suc, b1)"
    by (auto simp: backend_process_def processRequest_def initializeFunctionsAndTransactions_def
        split: sum.splits prod.splits option.splits)
  have ok: "request_ok ?req" using request_ok_parsed [of "Some header" "Some data"] h(6) by simp
  have "nul_free data" using wf by simp
  then have "reply_wf reply"
    using processCommand_reply_wf [OF inv ok pc [unfolded r(1)]] ft h(6) by simp
  with r t pc show ?thesis using that [of reply p' b1 resp ks'] by simp
qed

text \<open>
  C6. A remote call: the bytes the client sends for a well-formed request, arriving at the
  server in pieces of any size, are answered by the backend's reply to exactly that request,
  and the client decodes exactly that reply, with a format check that succeeds.
\<close>

theorem remote_call:
  assumes wf: "request_wf (cmd, txn, seq, data)" and kc: "reliable kc" "outbound kc = []" and small: "int (length data) < int_max"
    and g: "server_good (es, b)" and fits: "server_fits (the (request_header cmd txn seq data)) data (es, b)"
  shows "\<exists>kc'. sendRequest cmd txn seq data kc = (Inr (), kc')
    \<and> (\<forall>ks. reliable ks \<longrightarrow> inbound ks = outbound kc' \<longrightarrow> outbound ks = [] \<longrightarrow>
        (\<exists>reply p' b' ks'. processCommand (cmd, txn, seq, int (length data), data) (es 0) True b = (Inr (reply, p'), b')
          \<and> server_turn True ((es, b), ks) = (Inr (Some p'), (es \<circ> Suc, b'), ks')
          \<and> (\<forall>kr. reliable kr \<longrightarrow> inbound kr = outbound ks' \<longrightarrow> int (length (outbound ks')) < int_max \<longrightarrow>
               (\<exists>kr'. getResponse kr = (Inr (True, reply_view reply), kr') \<and> inbound kr' = []))))"
proof -
  from sendRequest_exact [OF wf kc(1)] kc(2) obtain kc' where
    sent: "sendRequest cmd txn seq data kc = (Inr (), kc')" "outbound kc' = the (encode_request (cmd, txn, seq, data))" by auto
  have "\<exists>reply p' b' ks'. processCommand (cmd, txn, seq, int (length data), data) (es 0) True b = (Inr (reply, p'), b')
          \<and> server_turn True ((es, b), ks) = (Inr (Some p'), (es \<circ> Suc, b'), ks')
          \<and> (\<forall>kr. reliable kr \<longrightarrow> inbound kr = outbound ks' \<longrightarrow> int (length (outbound ks')) < int_max \<longrightarrow>
               (\<exists>kr'. getResponse kr = (Inr (True, reply_view reply), kr') \<and> inbound kr' = []))"
    if ks: "reliable ks" "inbound ks = outbound kc'" "outbound ks = []" for ks
  proof -
    have src: "inbound ks = the (encode_request (cmd, txn, seq, data)) @ []" using ks(2) sent(2) by simp
    obtain reply p' b' resp ks' where t: "processCommand (cmd, txn, seq, int (length data), data) (es 0) True b = (Inr (reply, p'), b')"
      "generateResponse reply = Some resp" "reply_wf reply"
      "server_turn True ((es, b), ks) = (Inr (Some p'), (es \<circ> Suc, b'), ks')" "outbound ks' = outbound ks @ resp"
      by (rule server_turn_request [OF wf small g fits ks(1) src])
    have "\<exists>kr'. getResponse kr = (Inr (True, reply_view reply), kr') \<and> inbound kr' = []"
      if "reliable kr" "inbound kr = outbound ks'" "int (length (outbound ks')) < int_max" for kr
      using getResponse_exact [OF t(3,2) that(1), of "[]"] that t(5) ks(3) by auto
    with t(1,4) show ?thesis by blast
  qed
  with sent(1) show ?thesis by blast
qed

theorem remote_call_witness:
  "\<exists>kc'. sendRequest write_cmd 7 1 ''ab'' (connected []) = (Inr (), kc')
    \<and> (\<exists>reply p' b' ks'. processCommand (write_cmd, 7, 1, 2, ''ab'') demo_env True demo_backend = (Inr (reply, p'), b')
        \<and> server_turn True (((\<lambda>_. demo_env), demo_backend), connected (outbound kc')) = (Inr (Some p'), ((\<lambda>_. demo_env) \<circ> Suc, b'), ks'))"
proof -
  have wf: "request_wf (write_cmd, 7, 1, ''ab'')" by (simp add: consts_simps command_token_def upper_or_underscore_def int_range_defs)
  have r: "reliable (connected x)" "outbound (connected x) = []" "inbound (connected x) = x" for x
    by (simp_all add: connected_def reliable_def)
  have "fst (getClientRequestAsTuple (Some (the (request_header write_cmd 7 1 ''ab''))) (Some ''ab'')) = write_cmd" by code_simp
  then have f: "server_fits (the (request_header write_cmd 7 1 ''ab'')) ''ab'' ((\<lambda>_. demo_env), demo_backend)"
    by (simp add: consts_simps)
  have g: "server_good ((\<lambda>_. demo_env), demo_backend)" using demo_backend_inv by (simp add: demo_backend_def)
  have s: "int (length ''ab'') < int_max" by (simp add: int_range_defs)
  have l: "int (length ''ab'') = 2" by simp
  show ?thesis using remote_call [OF wf r(1,2) s g f, of "[]"] r unfolding l by metis
qed

end
