(* ===== verification/Test_Harness.thy ===== *)
theory Test_Harness
  imports Client Transaction_Spec "HOL-Library.State_Monad"
begin

text \<open>
  The world the repository's tests run in (client-server-test.cpp): a server, the connections
  the test's clients have opened, and the failures the test library has recorded. A test is a
  program of the state monad. A connection is the two byte streams between a client and its
  server thread; what the client sends goes through \<open>sendRequest\<close>, the server's thread takes a
  turn of \<open>connection_turn\<close>, and the client reads with \<open>getResponse\<close>. The program is over after a
  fatal failure or an abnormal end; what follows then has no effect.
\<close>

record link =
  to_server :: string
  to_client :: string
  serving :: bool

record test_world =
  tw_envs :: "nat \<Rightarrow> env"
  tw_backend :: ServerBackend
  tw_links :: "link list"
  tw_failures :: nat
  tw_over :: bool

type_synonym 'a test = "(test_world, 'a) state"

abbreviation (input) ret :: "'a \<Rightarrow> 'a test" where
  "ret \<equiv> State_Monad.return"

definition running :: "'a \<Rightarrow> (test_world \<Rightarrow> 'a \<times> test_world) \<Rightarrow> 'a test" where
  "running dflt f = State (\<lambda>w. if tw_over w then (dflt, w) else f w)"

definition fatal :: "test_world \<Rightarrow> test_world" where
  "fatal w = w\<lparr>tw_failures := Suc (tw_failures w), tw_over := True\<rparr>"

text \<open>A failed expectation is recorded; a failed assertion also returns from the test.\<close>

definition EXPECT :: "bool \<Rightarrow> unit test" where
  "EXPECT c = running () (\<lambda>w. ((), if c then w else w\<lparr>tw_failures := Suc (tw_failures w)\<rparr>))"

definition ASSERT :: "bool \<Rightarrow> unit test" where
  "ASSERT c = running () (\<lambda>w. ((), if c then w else fatal w))"

primrec for_each :: "'a list \<Rightarrow> ('a \<Rightarrow> unit test) \<Rightarrow> unit test" where
  "for_each [] f = ret ()"
| "for_each (x # xs) f = do { f x; for_each xs f }"

subsection \<open>Clients\<close>

definition fresh_link :: link where
  "fresh_link = \<lparr>to_server = [], to_client = [], serving = True\<rparr>"

text \<open>\<open>Client client(CLI_ARGS)\<close>, for a server that accepts the connection; the result is its number.\<close>

definition new_client :: "nat test" where
  "new_client = running 0 (\<lambda>w. (length (tw_links w), w\<lparr>tw_links := tw_links w @ [fresh_link]\<rparr>))"

definition put_link :: "nat \<Rightarrow> link \<Rightarrow> test_world \<Rightarrow> test_world" where
  "put_link i l w = w\<lparr>tw_links := (tw_links w)[i := l]\<rparr>"

definition client_sends :: "nat \<Rightarrow> string \<Rightarrow> int \<Rightarrow> int \<Rightarrow> string \<Rightarrow> unit test" where
  "client_sends i cmd txn_id seq_num data = running () (\<lambda>w.
     case sendRequest cmd txn_id seq_num data (connected []) of
       (Inl x, k) \<Rightarrow> ((), fatal w)
     | (Inr _, k) \<Rightarrow> (let l = tw_links w ! i in ((), put_link i (l\<lparr>to_server := to_server l @ outbound k\<rparr>) w)))"

definition client_sends_raw :: "nat \<Rightarrow> string \<Rightarrow> unit test" where
  "client_sends_raw i bytes = running () (\<lambda>w.
     case writeFileDescriptor socket_write bytes (connected []) of
       (Inr True, k) \<Rightarrow> (let l = tw_links w ! i in ((), put_link i (l\<lparr>to_server := to_server l @ outbound k\<rparr>) w))
     | (_, k) \<Rightarrow> ((), fatal w))"

definition server_serves :: "nat \<Rightarrow> unit test" where
  "server_serves i = running () (\<lambda>w.
     let l = tw_links w ! i in
     if \<not> serving l then ((), w)
     else (case server_turn True ((tw_envs w, tw_backend w), connected (to_server l)) of
             (Inl x, (es, b), k) \<Rightarrow> ((), fatal (w\<lparr>tw_envs := es, tw_backend := b\<rparr>))
           | (Inr cont, (es, b), k) \<Rightarrow>
               ((), put_link i \<lparr>to_server = inbound k, to_client = to_client l @ outbound k, serving = (cont = Some True)\<rparr>
                      (w\<lparr>tw_envs := es, tw_backend := b\<rparr>))))"

definition client_receives :: "nat \<Rightarrow> ResponseTuple test" where
  "client_receives i = running ([], 0, 0, 0, 0, []) (\<lambda>w.
     let l = tw_links w ! i in
     case getResponse (connected (to_client l)) of
       (Inl x, k) \<Rightarrow> (([], 0, 0, 0, 0, []), fatal w)
     | (Inr (valid, tuple), k) \<Rightarrow>
         (tuple, put_link i (l\<lparr>to_client := inbound k\<rparr>)
                   (if valid then w else w\<lparr>tw_failures := Suc (tw_failures w)\<rparr>)))"

text \<open>\<open>sendRequestGetResponse\<close> and \<open>sendRawRequestGetResponse\<close>, with the server's turn in between.\<close>

definition request :: "nat \<Rightarrow> string \<Rightarrow> int \<Rightarrow> int \<Rightarrow> string \<Rightarrow> ResponseTuple test" where
  "request i cmd txn_id seq_num data =
     do { client_sends i cmd txn_id seq_num data; server_serves i; client_receives i }"

definition request_raw :: "nat \<Rightarrow> string \<Rightarrow> ResponseTuple test" where
  "request_raw i bytes = do { client_sends_raw i bytes; server_serves i; client_receives i }"

text \<open>The fields of a response, as the tests select them with \<open>get\<close>.\<close>

datatype ResponseFormat = Command | TxnId | SeqNum | ErrorCode | ContentLen | Data

fun get_int :: "ResponseFormat \<Rightarrow> ResponseTuple \<Rightarrow> int" where
  "get_int TxnId (c, t, s, e, n, d) = t"
| "get_int SeqNum (c, t, s, e, n, d) = s"
| "get_int ErrorCode (c, t, s, e, n, d) = e"
| "get_int ContentLen (c, t, s, e, n, d) = n"
| "get_int f (c, t, s, e, n, d) = 0"

fun get_str :: "ResponseFormat \<Rightarrow> ResponseTuple \<Rightarrow> string" where
  "get_str Command (c, t, s, e, n, d) = c"
| "get_str Data (c, t, s, e, n, d) = d"
| "get_str f (c, t, s, e, n, d) = []"

subsection \<open>Time\<close>

text \<open>The timer threads that are due when the test wakes up take a turn.\<close>

fun run_timers :: "Timer list \<Rightarrow> Timestamp \<Rightarrow> ServerBackend \<Rightarrow> (Timer list) outcome \<times> ServerBackend" where
  "run_timers [] at b = (Inr [], b)"
| "run_timers (tm # tms) at b =
     (if at < timer_latest_timestamp tm + txn_timeout then
        (case run_timers tms at b of
           (Inl x, b) \<Rightarrow> (Inl x, b)
         | (Inr tms, b) \<Rightarrow> (Inr (tm # tms), b))
      else
        (case txn_timer_turn tm at b of
           (Inl x, b) \<Rightarrow> (Inl x, b)
         | (Inr next, b) \<Rightarrow>
             (case run_timers tms at b of
                (Inl x, b) \<Rightarrow> (Inl x, b)
              | (Inr tms, b) \<Rightarrow> (Inr (case next of None \<Rightarrow> tms | Some tm \<Rightarrow> tm # tms), b))))"

definition sleep_until :: "Timestamp \<Rightarrow> unit test" where
  "sleep_until at = running () (\<lambda>w.
     case run_timers (m_timers (tw_backend w)) at (tw_backend w) of
       (Inl x, b) \<Rightarrow> ((), fatal (w\<lparr>tw_backend := b\<rparr>))
     | (Inr tms, b) \<Rightarrow> ((), w\<lparr>tw_backend := b\<lparr>m_timers := tms\<rparr>\<rparr>))"

end
