(* ===== verification/Test_Suite.thy ===== *)
theory Test_Suite
  imports Test_Harness
begin

text \<open>
  The tests of client-server-test.cpp, one definition for each, over the world of Test_Harness.
  What a test draws at random (the file name, the omitted number, the data, a shuffled order) is
  an argument, as is the order in which the threads of the parallel test reach the server. A test
  passes when it is not over before its end and no failure has been recorded.
\<close>

definition file_data :: string where
  "file_data = ''Here is my data that goes into file''"

definition eraseFile :: "string \<Rightarrow> string \<Rightarrow> unit test" where
  "eraseFile g_server_directory in_file_name = running () (\<lambda>w.
     if g_server_directory \<noteq> [] then
       (case sys_remove (g_server_directory @ in_file_name) (m_os (tw_backend w)) of
          (removed, s) \<Rightarrow>
            ((), w\<lparr>tw_backend := (tw_backend w)\<lparr>m_os := s\<rparr>,
                   tw_failures := (if removed then tw_failures w else Suc (tw_failures w))\<rparr>))
     else ((), w))"

definition test_OmittedSequenceNumber :: "string \<Rightarrow> string \<Rightarrow> int \<Rightarrow> unit test" where
  "test_OmittedSequenceNumber dir file_name missing_seq_num = do {
     client \<leftarrow> new_client;
     r \<leftarrow> request client new_txn_cmd default_txn_id initial_seq_num file_name;
     let txn_id = get_int TxnId r;
     EXPECT (txn_id \<noteq> default_txn_id);
     let num_requests = 50;
     for_each [initial_seq_num + 1..num_requests] (\<lambda>seq_num.
       if missing_seq_num \<noteq> seq_num
       then do { _ \<leftarrow> request client write_cmd txn_id seq_num (to_string seq_num); ret () }
       else ret ());
     let expected = concat (map to_string [initial_seq_num + 1..num_requests]);
     r \<leftarrow> request client commit_cmd txn_id num_requests [];
     EXPECT (get_str Command r = ask_resend_cmd);
     EXPECT (get_int SeqNum r = missing_seq_num);
     _ \<leftarrow> request client write_cmd txn_id missing_seq_num (to_string missing_seq_num);
     r \<leftarrow> request client commit_cmd txn_id num_requests [];
     EXPECT (get_str Command r = ack_cmd);
     r \<leftarrow> request client read_cmd default_txn_id initial_seq_num file_name;
     EXPECT (get_str Data r = expected);
     eraseFile dir file_name }"

text \<open>The request of the source is the same 46 characters three times.\<close>

definition test_InvalidRequestFormat :: "unit test" where
  "test_InvalidRequestFormat = do {
     client \<leftarrow> new_client;
     let raw = concat (replicate 3 ''dsjfhaskdjfhasdfgsdkjfahsdgfkajshdgfasjdfgjkas'');
     ASSERT (\<not> isValidRequestFormat raw);
     r \<leftarrow> request_raw client raw;
     EXPECT (get_str Data r = getErrorMessage InvalidMessageFormat) }"

definition test_InvalidCommand :: "unit test" where
  "test_InvalidCommand = do {
     client \<leftarrow> new_client;
     let invalid_command = ''WRRITE'';
     ASSERT (invalid_command \<noteq> abort_cmd);
     ASSERT (invalid_command \<noteq> commit_cmd);
     ASSERT (invalid_command \<noteq> new_txn_cmd);
     ASSERT (invalid_command \<noteq> read_cmd);
     ASSERT (invalid_command \<noteq> write_cmd);
     r \<leftarrow> request client invalid_command default_txn_id initial_seq_num file_data;
     EXPECT (get_str Data r = getErrorMessage InvalidCommand) }"

definition test_InvalidTransactionId :: "unit test" where
  "test_InvalidTransactionId = do {
     client \<leftarrow> new_client;
     r \<leftarrow> request client write_cmd default_txn_id initial_seq_num file_data;
     EXPECT (get_str Data r = getErrorMessage InvalidTransactionId) }"

definition test_InvalidInitialSequenceNumber :: "string \<Rightarrow> unit test" where
  "test_InvalidInitialSequenceNumber file_name = do {
     client \<leftarrow> new_client;
     let seq_num = 1;
     ASSERT (seq_num \<noteq> initial_seq_num);
     r \<leftarrow> request client new_txn_cmd default_txn_id seq_num file_name;
     EXPECT (get_str Data r = getErrorMessage InvalidSequenceNumber) }"

definition test_RepeatedSequenceNumber :: "string \<Rightarrow> unit test" where
  "test_RepeatedSequenceNumber file_name = do {
     client \<leftarrow> new_client;
     r \<leftarrow> request client new_txn_cmd default_txn_id initial_seq_num file_name;
     let txn_id = get_int TxnId r;
     EXPECT (txn_id \<noteq> default_txn_id);
     let seq_num = initial_seq_num + 1;
     _ \<leftarrow> request client write_cmd txn_id seq_num file_data;
     r \<leftarrow> request client write_cmd txn_id seq_num file_data;
     EXPECT (get_str Data r = getErrorMessage RepeatedSequenceNumber) }"

definition test_CommitWithInvalidSequenceNumber :: "string \<Rightarrow> unit test" where
  "test_CommitWithInvalidSequenceNumber file_name = do {
     client \<leftarrow> new_client;
     r \<leftarrow> request client new_txn_cmd default_txn_id initial_seq_num file_name;
     let txn_id = get_int TxnId r;
     EXPECT (txn_id \<noteq> default_txn_id);
     let seq_num = initial_seq_num + 1;
     _ \<leftarrow> request client write_cmd txn_id (seq_num + 1) file_data;
     r \<leftarrow> request client commit_cmd txn_id seq_num [];
     EXPECT (get_str Data r = getErrorMessage CommitWithInvalidSequenceNumber) }"

definition test_ReadNonexistentFile :: "unit test" where
  "test_ReadNonexistentFile = do {
     client \<leftarrow> new_client;
     r \<leftarrow> request client read_cmd default_txn_id initial_seq_num ''NonexistentFile.txt'';
     EXPECT (get_str Data r = getErrorMessage ErrorOpeningFile) }"

text \<open>\<open>seq_nums\<close> is the vector of the numbers 1 to 50 after \<open>shuffle\<close>.\<close>

definition test_SendPacketsOutOfOrder :: "string \<Rightarrow> string \<Rightarrow> int list \<Rightarrow> unit test" where
  "test_SendPacketsOutOfOrder dir file_name seq_nums = do {
     client \<leftarrow> new_client;
     r \<leftarrow> request client new_txn_cmd default_txn_id initial_seq_num file_name;
     let txn_id = get_int TxnId r;
     EXPECT (txn_id \<noteq> default_txn_id);
     let num_requests = 50;
     let expected = concat (map to_string [1..num_requests]);
     for_each seq_nums (\<lambda>seq_num.
       do { _ \<leftarrow> request client write_cmd txn_id seq_num (to_string seq_num); ret () });
     _ \<leftarrow> request client commit_cmd txn_id num_requests [];
     r \<leftarrow> request client read_cmd default_txn_id initial_seq_num file_name;
     EXPECT (get_str Data r = expected);
     eraseFile dir file_name }"

definition test_WriteToCommittedTransaction :: "string \<Rightarrow> string \<Rightarrow> unit test" where
  "test_WriteToCommittedTransaction dir file_name = do {
     client1 \<leftarrow> new_client;
     client2 \<leftarrow> new_client;
     r \<leftarrow> request client1 new_txn_cmd default_txn_id initial_seq_num file_name;
     let txn_id = get_int TxnId r;
     EXPECT (txn_id \<noteq> default_txn_id);
     let seq_num = initial_seq_num + 1;
     _ \<leftarrow> request client1 write_cmd txn_id seq_num file_data;
     _ \<leftarrow> request client1 commit_cmd txn_id seq_num [];
     r \<leftarrow> request client1 write_cmd txn_id seq_num file_data;
     let seq_num = seq_num + 1;
     EXPECT (get_str Data r = getErrorMessage InvalidOperation);
     r \<leftarrow> request client2 write_cmd txn_id seq_num file_data;
     EXPECT (get_str Data r = getErrorMessage InvalidOperation);
     eraseFile dir file_name }"

definition test_TransactionTimeout :: "string \<Rightarrow> Timestamp \<Rightarrow> unit test" where
  "test_TransactionTimeout file_name woken_at = do {
     client1 \<leftarrow> new_client;
     r \<leftarrow> request client1 new_txn_cmd default_txn_id initial_seq_num file_name;
     let txn_id = get_int TxnId r;
     EXPECT (txn_id \<noteq> default_txn_id);
     sleep_until woken_at;
     client2 \<leftarrow> new_client;
     r \<leftarrow> request client2 write_cmd txn_id (initial_seq_num + 1) file_data;
     EXPECT (get_str Data r = getErrorMessage InvalidTransactionId) }"

definition test_LostAck :: "string \<Rightarrow> string \<Rightarrow> unit test" where
  "test_LostAck dir file_name = do {
     client \<leftarrow> new_client;
     r \<leftarrow> request client new_txn_cmd default_txn_id initial_seq_num file_name;
     let txn_id = get_int TxnId r;
     EXPECT (txn_id \<noteq> default_txn_id);
     let seq_num = initial_seq_num + 1;
     _ \<leftarrow> request client write_cmd txn_id seq_num file_data;
     _ \<leftarrow> request client commit_cmd txn_id seq_num [];
     r \<leftarrow> request client commit_cmd txn_id seq_num [];
     EXPECT (get_str Command r = ack_cmd);
     eraseFile dir file_name }"

definition test_NewTransaction :: "string \<Rightarrow> unit test" where
  "test_NewTransaction file_name = do {
     client \<leftarrow> new_client;
     r \<leftarrow> request client new_txn_cmd default_txn_id initial_seq_num file_name;
     EXPECT (get_str Command r = ack_cmd);
     EXPECT (get_int TxnId r > default_txn_id);
     EXPECT (get_int SeqNum r = 0);
     EXPECT (get_int ErrorCode r = 0);
     EXPECT (get_int ContentLen r = 0);
     EXPECT (get_str Data r = []) }"

text \<open>\<open>rand i j\<close> is the j-th number of the i-th request. The server answers after the last request has been sent.\<close>

definition test_PipelinedRequests :: "string \<Rightarrow> string \<Rightarrow> (int \<Rightarrow> nat \<Rightarrow> nat) \<Rightarrow> unit test" where
  "test_PipelinedRequests dir file_name rand = do {
     client \<leftarrow> new_client;
     r \<leftarrow> request client new_txn_cmd default_txn_id initial_seq_num file_name;
     let txn_id = get_int TxnId r;
     EXPECT (txn_id \<noteq> default_txn_id);
     let num_requests = 100;
     let data = (\<lambda>i. concat (map (\<lambda>j. to_string (int (rand i j))) [0..<15]));
     for_each [1..num_requests] (\<lambda>seq_num. client_sends client write_cmd txn_id seq_num (data seq_num));
     let expected = concat (map data [1..num_requests]);
     for_each [1..num_requests] (\<lambda>_. server_serves client);
     for_each [1..num_requests] (\<lambda>_. do { _ \<leftarrow> client_receives client; ret () });
     _ \<leftarrow> request client commit_cmd txn_id num_requests [];
     r \<leftarrow> request client read_cmd default_txn_id initial_seq_num file_name;
     EXPECT (get_str Data r = expected);
     eraseFile dir file_name }"

definition test_ReceiveAckOnCommit :: "string \<Rightarrow> string \<Rightarrow> unit test" where
  "test_ReceiveAckOnCommit dir file_name = do {
     client \<leftarrow> new_client;
     r \<leftarrow> request client new_txn_cmd default_txn_id initial_seq_num file_name;
     let txn_id = get_int TxnId r;
     EXPECT (txn_id \<noteq> default_txn_id);
     let seq_num = initial_seq_num + 1;
     _ \<leftarrow> request client write_cmd txn_id seq_num file_data;
     r \<leftarrow> request client commit_cmd txn_id seq_num [];
     EXPECT (get_str Command r = ack_cmd);
     eraseFile dir file_name }"

definition test_MultipleClientInteractionSameTransactionSequential :: "string \<Rightarrow> string \<Rightarrow> (int \<Rightarrow> nat) \<Rightarrow> unit test" where
  "test_MultipleClientInteractionSameTransactionSequential dir file_name rand = do {
     client \<leftarrow> new_client;
     r \<leftarrow> request client new_txn_cmd default_txn_id initial_seq_num file_name;
     let txn_id = get_int TxnId r;
     EXPECT (txn_id \<noteq> default_txn_id);
     let num_requests = 50;
     for_each (rev [initial_seq_num + 1..num_requests]) (\<lambda>seq_num.
       do { c \<leftarrow> new_client; _ \<leftarrow> request c write_cmd txn_id seq_num (to_string (int (rand seq_num))); ret () });
     let expected = foldl (\<lambda>e seq_num. to_string (int (rand seq_num)) @ e) [] (rev [initial_seq_num + 1..num_requests]);
     r \<leftarrow> request client commit_cmd txn_id num_requests [];
     EXPECT (get_str Command r = ack_cmd);
     r \<leftarrow> request client read_cmd default_txn_id initial_seq_num file_name;
     EXPECT (get_str Data r = expected);
     eraseFile dir file_name }"

text \<open>Each thread sends one request; \<open>arrival\<close> is the order in which they reach the server, and \<open>join\<close> waits for all.\<close>

definition test_MultipleClientInteractionSameTransactionParallel :: "string \<Rightarrow> string \<Rightarrow> (int \<Rightarrow> nat) \<Rightarrow> int list \<Rightarrow> unit test" where
  "test_MultipleClientInteractionSameTransactionParallel dir file_name rand arrival = do {
     client \<leftarrow> new_client;
     r \<leftarrow> request client new_txn_cmd default_txn_id initial_seq_num file_name;
     let txn_id = get_int TxnId r;
     EXPECT (txn_id \<noteq> default_txn_id);
     let num_clients = 50;
     let expected = foldl (\<lambda>e seq_num. to_string (int (rand seq_num)) @ e) [] (rev [initial_seq_num + 1..num_clients]);
     for_each arrival (\<lambda>seq_num.
       do { c \<leftarrow> new_client; _ \<leftarrow> request c write_cmd txn_id seq_num (to_string (int (rand seq_num))); ret () });
     r \<leftarrow> request client commit_cmd txn_id num_clients [];
     EXPECT (get_str Command r = ack_cmd);
     r \<leftarrow> request client read_cmd default_txn_id initial_seq_num file_name;
     EXPECT (get_str Data r = expected);
     eraseFile dir file_name }"

definition test_AbortTransaction :: "string \<Rightarrow> unit test" where
  "test_AbortTransaction file_name = do {
     client1 \<leftarrow> new_client;
     client2 \<leftarrow> new_client;
     r \<leftarrow> request client1 new_txn_cmd default_txn_id initial_seq_num file_name;
     let txn_id = get_int TxnId r;
     EXPECT (txn_id \<noteq> default_txn_id);
     let num_requests = 50;
     for_each [initial_seq_num + 1..num_requests - 1] (\<lambda>seq_num.
       do { _ \<leftarrow> request client1 write_cmd txn_id seq_num file_data; ret () });
     r \<leftarrow> request client1 abort_cmd txn_id num_requests [];
     EXPECT (get_str Command r = ack_cmd);
     r \<leftarrow> request client2 commit_cmd txn_id num_requests [];
     EXPECT (get_str Data r = getErrorMessage InvalidTransactionId) }"

end
