(* ===== verification/Test_Rules.thy ===== *)
theory Test_Rules
  imports Test_Suite
begin

text \<open>
  The rules by which a test is run on the abstract store. A request of a test's client is one step of the abstract store
  (Transaction_Spec): the bytes go through the wire protocol and the connection thread to the
  backend and the reply comes back. So the proofs of
  the tests (Test_Proofs) only see the store.
\<close>

subsection \<open>A request is a step of the store\<close>

definition live :: "FileName set \<Rightarrow> test_world \<Rightarrow> bool" where
  "live N w \<longleftrightarrow> good N (tw_backend w) \<and> \<not> m_initialize (tw_backend w) \<and> \<not> tw_over w"

abbreviation store_of :: "FileName set \<Rightarrow> test_world \<Rightarrow> store" where
  "store_of N w \<equiv> abs_store N (tw_backend w)"

definition idle :: "test_world \<Rightarrow> nat \<Rightarrow> bool" where
  "idle w i \<longleftrightarrow> i < length (tw_links w) \<and> tw_links w ! i = fresh_link"

lemma run_running [simp]: "run_state (running dflt f) w = (if tw_over w then (dflt, w) else f w)"
  by (simp add: running_def)

lemma processCommand_progress:
  assumes "processCommand (c, i, k, n, d) e True b = (Inr ((cmd, x), p'), b')"
  shows "p' \<longleftrightarrow> cmd \<noteq> error_cmd \<and> c \<noteq> abort_cmd"
proof -
  have "ack_cmd \<noteq> error_cmd" "ask_resend_cmd \<noteq> error_cmd" "abort_cmd \<noteq> read_cmd" "abort_cmd \<noteq> new_txn_cmd"
    "abort_cmd \<noteq> write_cmd" "abort_cmd \<noteq> commit_cmd" by (simp_all add: consts_simps)
  then show ?thesis
    using assms by (auto simp: processCommand_def READ_def NEW_TXN_def WRITE_def WRITE_locked_def COMMIT_def COMMIT_locked_def
        COMMIT_flush_def ABORT_def ABORT_locked_def reply_simps Let_def
        split: if_splits option.splits sum.splits prod.splits bool.splits)
qed


lemma connected_simps [simp]: "reliable (connected x)" "inbound (connected x) = x" "outbound (connected x) = []"
  by (simp_all add: reliable_def connected_def)

lemma run_bind [simp]:
  "run_state (Monad_Syntax.bind m f) w = (case run_state m w of (x, w) \<Rightarrow> run_state (f x) w)"
  by (simp add: State_Monad.bind_def)

text \<open>What one request of a client does to the test world.\<close>

definition after_request :: "nat \<Rightarrow> bool \<Rightarrow> ServerBackend \<Rightarrow> test_world \<Rightarrow> test_world" where
  "after_request i p b w = w\<lparr>tw_envs := tw_envs w \<circ> Suc, tw_backend := b, tw_links := (tw_links w)[i := fresh_link\<lparr>serving := p\<rparr>]\<rparr>"

lemma within_fits:
  assumes "request_wf (cmd, txn, seq, data)" "within N (es 0) b (cmd, txn, seq, int (length data), data)"
  shows "server_fits (the (request_header cmd txn seq data)) data (es, b)"
proof -
  obtain header where "request_header cmd txn seq data = Some header"
    "getClientRequestAsTuple (Some header) (Some data) = (cmd, txn, seq, int (length data), data)"
    by (rule encode_request_parts [OF assms(1)])
  with assms show ?thesis by simp
qed

lemma generateResponse_length:
  assumes "reply_wf reply" "generateResponse reply = Some resp"
  shows "length resp = response_header_len + length (snd (snd (snd (snd reply))))"
proof -
  from response_codec.encode_decode [OF assms(1)] assms(2) obtain h p where
    "resp = h @ p" "length h = response_header_len" "response_content_len h = int (length p)"
    "getResponseTuple h p = reply_view reply" by auto
  then show ?thesis by (cases reply) (auto simp: getResponseTuple_def split: prod.splits)
qed

text \<open>The server's turn on the bytes of a request within the site, whatever follows them.\<close>

lemma served:
  assumes g: "good N b" "\<not> m_initialize b" and wf: "request_wf (cmd, txn, seq, data)"
    and wi: "within N (es 0) b (cmd, txn, seq, int (length data), data)" and small: "int (length data) < int_max"
    and sp: "spec_step (chosen_id (es 0) b) (cmd, txn, seq, int (length data), data) (abs_store N b) = (reply, st)"
  obtains b' resp ks where "server_turn True ((es, b), connected (the (encode_request (cmd, txn, seq, data)) @ rest))
      = (Inr (Some (fst reply \<noteq> error_cmd \<and> cmd \<noteq> abort_cmd)), (es \<circ> Suc, b'), ks)"
    and "outbound ks = resp" "inbound ks = rest" "generateResponse reply = Some resp" "reply_wf reply"
    and "good N b'" "\<not> m_initialize b'" "abs_store N b' = st" "m_directory b' = m_directory b"
    and "snd (processCommand (cmd, txn, seq, int (length data), data) (es 0) True b) = b'"
proof -
  let ?req = "(cmd, txn, seq, int (length data), data)" and ?k = "connected (the (encode_request (cmd, txn, seq, data)) @ rest)"
  from processCommand_sim [OF g(1) wi, of True] sp obtain p' b' where
    pc: "processCommand ?req (es 0) True b = (Inr (reply, p'), b')" "good N b'" "abs_store N b' = st" by auto
  have p': "p' \<longleftrightarrow> fst reply \<noteq> error_cmd \<and> cmd \<noteq> abort_cmd"
    using processCommand_progress [of cmd txn seq "int (length data)" data "es 0" b "fst reply" "snd reply" p' b'] pc(1) by simp
  have fits: "server_fits (the (request_header cmd txn seq data)) data (es, b)"
    by (rule within_fits [of cmd txn seq data N]) (use wf wi in auto)
  have sg: "server_good (es, b)" using g by (simp add: good_def)
  obtain reply2 p2 b2 resp ks where t: "processCommand ?req (es 0) True b = (Inr (reply2, p2), b2)"
    "generateResponse reply2 = Some resp" "reply_wf reply2" "server_good (es \<circ> Suc, b2)"
    "server_turn True ((es, b), ?k) = (Inr (Some p2), (es \<circ> Suc, b2), ks)"
    "outbound ks = outbound ?k @ resp" "inbound ks = rest"
    by (rule server_turn_request [OF wf small sg fits, of ?k rest]) auto
  from t(1) pc(1) have eq: "reply2 = reply" "p2 = p'" "b2 = b'" by simp_all
  have "m_directory b' = m_directory b"
    by (rule processCommand_members(2) [OF goodD(1) [OF g(1)] _ pc(1)]) (use wi in auto)
  with t pc p' show ?thesis by (intro that [of b' ks resp]) (simp_all add: eq)
qed

lemma request_step:
  assumes l: "live N w" "idle w i" and wf: "request_wf (cmd, txn, seq, data)"
    and wi: "within N (tw_envs w 0) (tw_backend w) (cmd, txn, seq, int (length data), data)"
    and small: "int (length data) < int_max"
    and sp: "spec_step (chosen_id (tw_envs w 0) (tw_backend w)) (cmd, txn, seq, int (length data), data) (store_of N w) = (reply, st)"
    and rs: "int (length (snd (snd (snd (snd reply))))) < int_max - int response_header_len"
  obtains b' where "run_state (request i cmd txn seq data) w
      = (reply_view reply, after_request i (fst reply \<noteq> error_cmd \<and> cmd \<noteq> abort_cmd) b' w)"
    and "good N b'" "\<not> m_initialize b'" "abs_store N b' = st" "m_directory b' = m_directory (tw_backend w)"
    and "snd (processCommand (cmd, txn, seq, int (length data), data) (tw_envs w 0) True (tw_backend w)) = b'"
proof -
  let ?b = "tw_backend w" and ?es = "tw_envs w"
  have g: "good N ?b" "\<not> m_initialize ?b" "\<not> tw_over w" "i < length (tw_links w)" "tw_links w ! i = fresh_link"
    using l by (auto simp: live_def idle_def)
  from sendRequest_exact [OF wf, of "connected []"] obtain kc where
    kc: "sendRequest cmd txn seq data (connected []) = (Inr (), kc)" "outbound kc = the (encode_request (cmd, txn, seq, data))" by auto
  obtain b' resp ks where t: "server_turn True ((?es, ?b), connected (the (encode_request (cmd, txn, seq, data)) @ []))
      = (Inr (Some (fst reply \<noteq> error_cmd \<and> cmd \<noteq> abort_cmd)), (?es \<circ> Suc, b'), ks)"
    "outbound ks = resp" "inbound ks = []" and gr: "generateResponse reply = Some resp" "reply_wf reply"
    and b': "good N b'" "\<not> m_initialize b'" "abs_store N b' = st" "m_directory b' = m_directory ?b"
      "snd (processCommand (cmd, txn, seq, int (length data), data) (?es 0) True ?b) = b'"
    by (rule served [where rest = "[]" and es = ?es, OF g(1,2) wf wi small sp]) auto
  have "int (length resp) < int_max" using rs generateResponse_length [OF gr(2,1)] by simp
  from getResponse_exact [OF gr(2,1), of "connected resp" "[]"] this obtain kr where
    kr: "getResponse (connected resp) = (Inr (True, reply_view reply), kr)" "inbound kr = []" by auto
  have "run_state (request i cmd txn seq data) w
      = (reply_view reply, after_request i (fst reply \<noteq> error_cmd \<and> cmd \<noteq> abort_cmd) b' w)"
    using g kc t kr by (simp add: request_def client_sends_def server_serves_def client_receives_def put_link_def
        fresh_link_def after_request_def split: prod.split)
  with b' show ?thesis by (intro that [of b']) simp_all
qed

subsection \<open>Running a test on the store\<close>

definition wp :: "'a test \<Rightarrow> ('a \<Rightarrow> test_world \<Rightarrow> bool) \<Rightarrow> test_world \<Rightarrow> bool" where
  "wp m Q w = (case run_state m w of (x, w') \<Rightarrow> Q x w')"

lemma wp_bind: "wp m (\<lambda>x. wp (f x) Q) w \<Longrightarrow> wp (Monad_Syntax.bind m f) Q w"
  by (simp add: wp_def split: prod.splits)

lemma wp_return: "Q x w \<Longrightarrow> wp (ret x) Q w"
  by (simp add: wp_def)

lemma wp_weaken: "wp m Q' w \<Longrightarrow> (\<And>x w'. Q' x w' \<Longrightarrow> Q x w') \<Longrightarrow> wp m Q w"
  by (auto simp: wp_def split: prod.splits)

text \<open>
  A stage of a test that goes well: the store the server implements, and the clients, all with
  their responses read, \<open>True\<close> for those whose connection the server still serves.
\<close>

definition stage :: "FileName set \<Rightarrow> string \<Rightarrow> store \<Rightarrow> bool list \<Rightarrow> test_world \<Rightarrow> bool" where
  "stage N D st ls w \<longleftrightarrow> live N w \<and> m_directory (tw_backend w) = D \<and> store_of N w = st \<and> tw_links w = map (\<lambda>p. fresh_link\<lparr>serving := p\<rparr>) ls \<and> tw_failures w = 0"

definition passed :: "test_world \<Rightarrow> bool" where
  "passed w \<longleftrightarrow> \<not> tw_over w \<and> tw_failures w = 0"

lemma stage_passed: "stage N D st ls w \<Longrightarrow> passed w"
  by (simp add: stage_def passed_def live_def)

lemma stage_idle: "stage N D st ls w \<Longrightarrow> i < length ls \<Longrightarrow> ls ! i \<Longrightarrow> idle w i"
  by (simp add: stage_def idle_def fresh_link_def)

lemma wp_EXPECT: "c \<Longrightarrow> Q () w \<Longrightarrow> wp (EXPECT c) Q w"
  by (simp add: wp_def EXPECT_def)

lemma wp_ASSERT: "c \<Longrightarrow> Q () w \<Longrightarrow> wp (ASSERT c) Q w"
  by (simp add: wp_def ASSERT_def)

lemma wp_new_client:
  assumes "stage N D st ls w" "\<And>w'. stage N D st (ls @ [True]) w' \<Longrightarrow> tw_envs w' = tw_envs w \<Longrightarrow> tw_backend w' = tw_backend w \<Longrightarrow> Q (length ls) w'"
  shows "wp new_client Q w"
  using assms by (simp add: wp_def new_client_def stage_def live_def fresh_link_def)

text \<open>Requests with integers and strings that fit, for files that fit.\<close>

fun sendable :: "FileName set \<Rightarrow> store \<Rightarrow> string \<times> int \<times> int \<times> string \<Rightarrow> bool" where
  "sendable N st (cmd, txn, seq, data) \<longleftrightarrow> request_wf (cmd, txn, seq, data) \<and> int (length data) < int_max
     \<and> (cmd = read_cmd \<longrightarrow> data \<in> N \<and> (\<forall>c. st_files st data = Some c \<longrightarrow> int (length c) < int_max - int response_header_len))
     \<and> (cmd = new_txn_cmd \<longrightarrow> data \<in> N)"

lemma error_message_length: "length (getErrorMessage e) < 100"
  by (cases e) simp_all

lemma spec_reply_small:
  assumes "spec_step j (cmd, txn, seq, n, data) st = (reply, st')" "sendable N st (cmd, txn, seq, data)"
  shows "int (length (snd (snd (snd (snd reply))))) < int_max - int response_header_len"
proof -
  have bound: "(100::int) < int_max - int response_header_len" by (simp add: int_range_defs consts_simps)
  have err: "int (length (getErrorMessage e)) < int_max - int response_header_len" for e
    using error_message_length [of e] bound by linarith
  have "length (c_str c) \<le> length c" for c by (simp add: c_str_def length_takeWhile_le)
  moreover have "int (length c) < int_max - int response_header_len" if "cmd = read_cmd" "st_files st data = Some c" for c
    using assms(2) that by simp
  ultimately have rd: "int (length (c_str c)) < int_max - int response_header_len" if "cmd = read_cmd" "st_files st data = Some c" for c
    using that by (meson le_less_trans of_nat_mono)
  have "snd (snd (snd (snd reply))) = [] \<or> (\<exists>e. snd (snd (snd (snd reply))) = getErrorMessage e)
      \<or> (\<exists>c. cmd = read_cmd \<and> st_files st data = Some c \<and> snd (snd (snd (snd reply))) = c_str c)"
    using assms(1) by (auto simp: spec_read_def spec_new_def spec_write_def spec_commit_def spec_abort_def spec_error_def
        simp del: getErrorMessage.simps split: if_splits option.splits)
  then show ?thesis using rd err bound by auto
qed

lemma sendable_within:
  assumes "sendable N (abs_store N b) (cmd, txn, seq, data)" "cmd = new_txn_cmd \<longrightarrow> candidate_id (rands e) 0 (m_txns b) \<noteq> None"
  shows "within N e b (cmd, txn, seq, int (length data), data)"
proof -
  have wf: "request_ok (cmd, txn, seq, int (length data), data)"
    using assms(1) by (auto simp: int_range_defs)
  have "\<not> unreadable data b" if "cmd = read_cmd"
  proof (cases "os_files (m_os b) (data_key data b)")
    case None
    then show ?thesis by (simp add: unreadable_def contents_def int_range_defs)
  next
    case (Some c)
    then have "int (length c) < int_max - int response_header_len" using assms(1) that by auto
    with Some show ?thesis by (simp add: unreadable_def contents_def)
  qed
  with wf assms show ?thesis by auto
qed

lemma wp_request_chosen:
  assumes s: "stage N D st ls w" and i: "i < length ls" "ls ! i" and sd: "sendable N st (cmd, txn, seq, data)"
    and id: "cmd = new_txn_cmd \<longrightarrow> candidate_id (rands (tw_envs w 0)) 0 (m_txns (tw_backend w)) \<noteq> None"
    and Q: "\<And>reply st' w'. spec_step (chosen_id (tw_envs w 0) (tw_backend w)) (cmd, txn, seq, int (length data), data) st = (reply, st')
      \<Longrightarrow> stage N D st' (ls[i := fst reply \<noteq> error_cmd \<and> cmd \<noteq> abort_cmd]) w' \<Longrightarrow>
      tw_backend w' = snd (processCommand (cmd, txn, seq, int (length data), data) (tw_envs w 0) True (tw_backend w)) \<Longrightarrow> Q (reply_view reply) w'"
  shows "wp (request i cmd txn seq data) Q w"
proof -
  have l: "live N w" "store_of N w = st" "tw_failures w = 0" using s by (simp_all add: stage_def)
  obtain reply st' where sp: "spec_step (chosen_id (tw_envs w 0) (tw_backend w)) (cmd, txn, seq, int (length data), data) st = (reply, st')"
    by fastforce
  have wf: "request_wf (cmd, txn, seq, data)" "int (length data) < int_max" using sd by auto
  have wi: "within N (tw_envs w 0) (tw_backend w) (cmd, txn, seq, int (length data), data)"
    using sendable_within [of N "tw_backend w"] sd id l(2) by blast
  obtain b' where b': "run_state (request i cmd txn seq data) w
      = (reply_view reply, after_request i (fst reply \<noteq> error_cmd \<and> cmd \<noteq> abort_cmd) b' w)"
    "good N b'" "\<not> m_initialize b'" "abs_store N b' = st'" "m_directory b' = m_directory (tw_backend w)"
    "snd (processCommand (cmd, txn, seq, int (length data), data) (tw_envs w 0) True (tw_backend w)) = b'"
    by (rule request_step [OF l(1) stage_idle [OF s i] wf(1) wi wf(2) sp [folded l(2)] spec_reply_small [OF sp sd]])
  have "stage N D st' (ls[i := fst reply \<noteq> error_cmd \<and> cmd \<noteq> abort_cmd])
      (after_request i (fst reply \<noteq> error_cmd \<and> cmd \<noteq> abort_cmd) b' w)"
    using s b'(2-5) by (simp add: stage_def after_request_def live_def map_update)
  with Q [OF sp, of "after_request i (fst reply \<noteq> error_cmd \<and> cmd \<noteq> abort_cmd) b' w"] b'(1,6) show ?thesis
    by (simp add: wp_def after_request_def)
qed

lemma list_update_same [simp]: "i < length ls \<Longrightarrow> ls ! i \<Longrightarrow> ls[i := True] = ls"
  by (metis list_update_id)

lemma cmd_simps [simp]:
  "command_token write_cmd" "command_token read_cmd" "command_token commit_cmd" "command_token abort_cmd" "command_token new_txn_cmd"
  "length write_cmd \<le> 29" "length read_cmd \<le> 29" "length commit_cmd \<le> 29" "length abort_cmd \<le> 29" "length new_txn_cmd \<le> 29"
  "write_cmd \<noteq> read_cmd" "write_cmd \<noteq> new_txn_cmd" "write_cmd \<noteq> commit_cmd" "write_cmd \<noteq> abort_cmd"
  "commit_cmd \<noteq> read_cmd" "commit_cmd \<noteq> new_txn_cmd" "commit_cmd \<noteq> write_cmd" "commit_cmd \<noteq> abort_cmd"
  "abort_cmd \<noteq> read_cmd" "abort_cmd \<noteq> new_txn_cmd" "abort_cmd \<noteq> write_cmd" "abort_cmd \<noteq> commit_cmd"
  "read_cmd \<noteq> new_txn_cmd" "read_cmd \<noteq> write_cmd" "read_cmd \<noteq> commit_cmd" "read_cmd \<noteq> abort_cmd"
  "new_txn_cmd \<noteq> read_cmd" "new_txn_cmd \<noteq> abort_cmd" "ack_cmd \<noteq> error_cmd" "ask_resend_cmd \<noteq> error_cmd"
  by (simp_all add: consts_simps command_token_def upper_or_underscore_def)

lemma int_bounds [simp]: "(0::int) < int_max" "is_int (- 1)" "is_int 0" "is_int 1" "is_int 2" "is_int 50" "is_int 100" "(100000::int) < int_max - int response_header_len"
  by (simp_all add: int_range_defs consts_simps)

lemma wp_request:
  assumes "stage N D st ls w" "i < length ls" "ls ! i" "sendable N st (cmd, txn, seq, data)" "cmd \<noteq> new_txn_cmd"
    and sp: "spec_step 0 (cmd, txn, seq, int (length data), data) st = (reply, st')"
    and Q: "\<And>w'. stage N D st' (ls[i := fst reply \<noteq> error_cmd \<and> cmd \<noteq> abort_cmd]) w' \<Longrightarrow> Q (reply_view reply) w'"
  shows "wp (request i cmd txn seq data) Q w"
proof (rule wp_request_chosen [OF assms(1-4)])
  have "spec_step j (cmd, txn, seq, int (length data), data) st = (reply, st')" for j
    using sp assms(5) by (auto split: if_splits)
  then show "Q (reply_view r) w'"
    if "spec_step (chosen_id (tw_envs w 0) (tw_backend w)) (cmd, txn, seq, int (length data), data) st = (r, s')"
      "stage N D s' (ls[i := fst r \<noteq> error_cmd \<and> cmd \<noteq> abort_cmd]) w'" for r s' w'
    using that Q by auto
qed (use assms(5) in simp)

text \<open>A transaction \<open>j\<close> on the file \<open>f\<close> in which the writes \<open>K\<close> have arrived, each with its data.\<close>

definition holding :: "TxnId \<Rightarrow> FileName \<Rightarrow> (SeqNum \<Rightarrow> Data) \<Rightarrow> SeqNum set \<Rightarrow> SeqNum \<Rightarrow> store \<Rightarrow> store" where
  "holding j f d K L st = st\<lparr>st_open := (st_open st)(j \<mapsto>
     \<lparr>o_file = f, o_writes = (\<lambda>k. if k \<in> K then Some (d k) else None), o_last = L\<rparr>)\<rparr>"

lemma holding_simps [simp]:
  "st_files (holding j f d K L st) = st_files st" "st_done (holding j f d K L st) = st_done st"
  "st_open (holding j f d K L st) j = Some \<lparr>o_file = f, o_writes = (\<lambda>k. if k \<in> K then Some (d k) else None), o_last = L\<rparr>"
  "i \<noteq> j \<Longrightarrow> st_open (holding j f d K L st) i = st_open st i"
  by (simp_all add: holding_def)

lemma stage_name: "stage N D st ls w \<Longrightarrow> f \<in> N \<Longrightarrow> nul_free f"
  using siteD(5) [OF goodD(2)] by (auto simp: stage_def live_def)

lemma wp_new_txn:
  assumes s: "stage N D st ls w" "i < length ls" "ls ! i" and f: "f \<in> N" "int (length f) < int_max"
    and j: "candidate_id (rands (tw_envs w 0)) 0 (m_txns (tw_backend w)) = Some j"
    and Q: "\<And>w'. stage N D (holding j f d {} 1 st) ls w' \<Longrightarrow> Q (ack_cmd, j, 0, 0, 0, []) w'"
  shows "wp (request i new_txn_cmd default_txn_id initial_seq_num f) Q w"
proof (rule wp_request_chosen [OF s])
  show "sendable N st (new_txn_cmd, default_txn_id, initial_seq_num, f)"
    using f stage_name [OF s(1) f(1)] by (simp add: default_txn_id_def initial_seq_num_def)
  show "new_txn_cmd = new_txn_cmd \<longrightarrow> candidate_id (rands (tw_envs w 0)) 0 (m_txns (tw_backend w)) \<noteq> None" using j by simp
  fix reply st' w'
  assume sp: "spec_step (chosen_id (tw_envs w 0) (tw_backend w))
      (new_txn_cmd, default_txn_id, initial_seq_num, int (length f), f) st = (reply, st')"
    and w': "stage N D st' (ls[i := fst reply \<noteq> error_cmd \<and> new_txn_cmd \<noteq> abort_cmd]) w'"
  from sp j have "reply = (ack_cmd, j, 0, nil, [])" "st' = holding j f d {} 1 st"
    by (simp_all add: chosen_id_def spec_new_def initial_seq_num_def holding_def)
  with w' s(2,3) Q [of w'] show "Q (reply_view reply) w'" by simp
qed

lemma spec_write_holding:
  assumes "k \<notin> K" "j \<notin> st_done st"
  shows "spec_write j k (d k) (holding j f d K L st) = ((ack_cmd, j, k, nil, []), holding j f d (insert k K) (max k L) st)"
proof -
  have "(\<lambda>m. if m \<in> K then Some (d m) else None)(k \<mapsto> d k) = (\<lambda>m. if m \<in> insert k K then Some (d m) else None)" by auto
  then show ?thesis using assms by (simp add: spec_write_def) (simp add: holding_def dom_def)
qed

lemma wp_write:
  assumes s: "stage N D (holding j f d K L st) ls w" "i < length ls" "ls ! i" and k: "k \<notin> K" "is_int j" "is_int k"
    and d: "nul_free (d k)" "int (length (d k)) < int_max" and j: "j \<notin> st_done st"
    and Q: "\<And>w'. stage N D (holding j f d (insert k K) (max k L) st) ls w' \<Longrightarrow> Q (ack_cmd, j, k, 0, 0, []) w'"
  shows "wp (request i write_cmd j k (d k)) Q w"
proof (rule wp_request [OF s])
  show "sendable N (holding j f d K L st) (write_cmd, j, k, d k)" using k d by simp
  show "spec_step 0 (write_cmd, j, k, int (length (d k)), d k) (holding j f d K L st)
      = ((ack_cmd, j, k, nil, []), holding j f d (insert k K) (max k L) st)"
    using spec_write_holding [OF k(1) j] by simp
qed (use s Q in simp_all)

lemma wp_commit_missing:
  assumes s: "stage N D (holding j f d K L st) ls w" "i < length ls" "ls ! i" and m: "{1..n} - K = {m}" "L \<le> n"
    and r: "is_int j" "is_int n" and j: "j \<notin> st_done st"
    and Q: "\<And>w'. stage N D (holding j f d K n st) ls w' \<Longrightarrow> Q (ask_resend_cmd, j, m, 0, 0, []) w'"
  shows "wp (request i commit_cmd j n []) Q w"
proof (rule wp_request [OF s])
  have "gaps (\<lambda>k. if k \<in> K then Some (d k) else None) n = {1..n} - K" by (auto simp: gaps_def)
  with m(1) have "gaps (\<lambda>k. if k \<in> K then Some (d k) else None) n = {m}" by simp
  then show "spec_step 0 (commit_cmd, j, n, int (length []), []) (holding j f d K L st)
      = ((ask_resend_cmd, j, m, nil, []), holding j f d K n st)"
    using m(2) j by (simp add: spec_commit_def) (simp add: holding_def)
qed (use s Q r in simp_all)

definition committed :: "TxnId \<Rightarrow> FileName \<Rightarrow> string \<Rightarrow> store \<Rightarrow> store" where
  "committed j f c st = st\<lparr>st_files := (st_files st)(f \<mapsto> c), st_open := (st_open st)(j := None), st_done := insert j (st_done st)\<rparr>"

lemma wp_commit:
  assumes s: "stage N D (holding j f d K L st) ls w" "i < length ls" "ls ! i" and K: "{1..n} \<subseteq> K" "L \<le> n"
    and r: "is_int j" "is_int n" and j: "j \<notin> st_done st" and f: "st_files st f = None"
    and Q: "\<And>w'. stage N D (committed j f (concat (map d [1..n])) st) ls w' \<Longrightarrow> Q (ack_cmd, j, n, 0, 0, []) w'"
  shows "wp (request i commit_cmd j n []) Q w"
proof (rule wp_request [OF s])
  have g: "gaps (\<lambda>k. if k \<in> K then Some (d k) else None) n = {}" using K(1) by (auto simp: gaps_def)
  have c: "map (\<lambda>m. the (if m \<in> K then Some (d m) else None)) [1..n] = map d [1..n]" using K(1) by auto
  from g show "spec_step 0 (commit_cmd, j, n, int (length []), []) (holding j f d K L st)
      = ((ack_cmd, j, n, nil, []), committed j f (concat (map d [1..n])) st)"
    using K(2) j f unfolding spec_step.simps spec_commit_def by (simp add: c del: map_eq_conv) (simp add: holding_def committed_def)
qed (use s Q r in simp_all)

lemma wp_read:
  assumes s: "stage N D st ls w" "i < length ls" "ls ! i" and f: "f \<in> N" "int (length f) < int_max"
    and c: "st_files st f = Some c" "nul_free c" "int (length c) < int_max - int response_header_len"
    and Q: "\<And>w'. stage N D st ls w' \<Longrightarrow> Q (ack_cmd, default_txn_id, initial_seq_num, 0, int (length c), c) w'"
  shows "wp (request i read_cmd default_txn_id initial_seq_num f) Q w"
proof (rule wp_request [OF s])
  show "sendable N st (read_cmd, default_txn_id, initial_seq_num, f)"
    using f c(1,3) stage_name [OF s(1) f(1)] by (simp add: default_txn_id_def initial_seq_num_def)
  show "spec_step 0 (read_cmd, default_txn_id, initial_seq_num, int (length f), f) st
      = ((ack_cmd, default_txn_id, initial_seq_num, nil, c), st)"
    using c by (simp add: spec_read_def)
qed (use s Q in simp_all)

text \<open>Requests that are answered with an error.\<close>

lemma wp_error:
  assumes s: "stage N D st ls w" "i < length ls" "ls ! i" and sd: "sendable N st (cmd, txn, seq, data)" "cmd \<noteq> new_txn_cmd"
    and sp: "spec_step 0 (cmd, txn, seq, int (length data), data) st = (spec_error err txn seq, st)"
    and Q: "\<And>w'. stage N D st (ls[i := False]) w' \<Longrightarrow>
       Q (error_cmd, txn, seq, getErrorCode err, int (length (getErrorMessage err)), getErrorMessage err) w'"
  shows "wp (request i cmd txn seq data) Q w"
  by (rule wp_request [OF s sd sp]) (use Q in \<open>simp_all add: spec_error_def\<close>)

lemma wp_for_each:
  assumes "I [] w" and step: "\<And>ys x zs w. xs = ys @ x # zs \<Longrightarrow> I ys w \<Longrightarrow> wp (f x) (\<lambda>_. I (ys @ [x])) w"
    and Q: "\<And>w'. I xs w' \<Longrightarrow> Q () w'"
  shows "wp (for_each xs f) Q w"
proof -
  have "wp (for_each zs f) (\<lambda>_. I xs) w" if "xs = ys @ zs" "I ys w" for ys zs w
    using that
  proof (induction zs arbitrary: ys w)
    case Nil
    then show ?case by (simp add: wp_def)
  next
    case (Cons z zs)
    from step [OF Cons.prems] have "wp (f z) (\<lambda>_. wp (for_each zs f) (\<lambda>_. I xs)) w"
      by (rule wp_weaken) (use Cons in simp)
    then show ?case by (simp add: wp_bind)
  qed
  from this [of "[]" xs w] assms(1) have "wp (for_each xs f) (\<lambda>_. I xs) w" by simp
  then show ?thesis by (rule wp_weaken) (simp add: Q)
qed

lemma wp_eraseFile:
  assumes s: "stage N D st ls w" "f \<in> N" and c: "st_files st f = Some c" and dir: "dir = [] \<or> dir = D"
    and Q: "\<And>w'. passed w' \<Longrightarrow> Q () w'"
  shows "wp (eraseFile dir f) Q w"
proof -
  let ?b = "tw_backend w"
  have l: "good N ?b" "m_directory ?b = D" "\<not> tw_over w" "tw_failures w = 0" "st = abs_store N ?b"
    using s(1) by (auto simp: stage_def live_def)
  have "\<not> os_frozen (m_os ?b) (data_key f ?b)" "os_files (m_os ?b) (data_key f ?b) = Some c"
    using siteD(8) [OF goodD(2) [OF l(1)], of f] s(2) c l(5) by auto
  then have "fst (sys_remove (D @ f) (m_os ?b))" using l(2) by (simp add: sys_remove_def Let_def)
  with dir l Q show ?thesis by (auto simp: wp_def eraseFile_def passed_def split: prod.splits)
qed

declare getErrorMessage.simps [simp del]

subsection \<open>The beginning most tests share\<close>

text \<open>
  What a test relies on: a server on a well-behaved site, whose directory the test knows or not, a
  file name that is not in use, and an identifier to be drawn that is neither in use nor that of a
  committed transaction (which the server does not check).
\<close>

definition ready :: "FileName set \<Rightarrow> string \<Rightarrow> FileName \<Rightarrow> TxnId \<Rightarrow> test_world \<Rightarrow> bool" where
  "ready N D f j w \<longleftrightarrow> stage N D (store_of N w) [] w \<and> f \<in> N \<and> int (length f) < int_max \<and> st_files (store_of N w) f = None
     \<and> candidate_id (rands (tw_envs w 0)) 0 (m_txns (tw_backend w)) = Some j \<and> j \<notin> m_commits (tw_backend w)"

lemma readyD:
  assumes "ready N D f j w"
  shows "stage N D (store_of N w) [] w" "f \<in> N" "int (length f) < int_max"
    "os_files (m_os (tw_backend w)) (data_key f (tw_backend w)) = None"
    "candidate_id (rands (tw_envs w 0)) 0 (m_txns (tw_backend w)) = Some j" "j \<notin> m_commits (tw_backend w)"
    "is_int j" "0 \<le> j" "st_open (store_of N w) j = None"
  using assms candidate_id_range by (auto simp: ready_def)

lemma wp_started:
  assumes r: "ready N D f j w" and s: "stage N D (store_of N w) ls w1" "i < length ls" "ls ! i"
    and e: "tw_envs w1 = tw_envs w" "tw_backend w1 = tw_backend w"
    and rest: "\<And>w'. stage N D (holding j f d {} 1 (store_of N w)) ls w' \<Longrightarrow> wp (body (ack_cmd, j, 0, 0, 0, [])) Q w'"
  shows "wp (Monad_Syntax.bind (request i new_txn_cmd default_txn_id initial_seq_num f)
     (\<lambda>r. Monad_Syntax.bind (EXPECT (get_int TxnId r \<noteq> default_txn_id)) (\<lambda>_. body r))) Q w1"
proof (rule wp_bind, rule wp_new_txn [OF s, where j = j and d = d])
  fix w2 assume "stage N D (holding j f d {} 1 (store_of N w)) ls w2"
  with rest [of w2] show "wp (Monad_Syntax.bind (EXPECT (get_int TxnId (ack_cmd, j, 0, 0, 0, []) \<noteq> default_txn_id))
      (\<lambda>_. body (ack_cmd, j, 0, 0, 0, []))) Q w2"
    using readyD(8) [OF r] by (intro wp_bind wp_EXPECT) (simp_all add: default_txn_id_def)
qed (use e readyD [OF r] in auto)

lemma wp_opening:
  assumes r: "ready N D f j w"
    and rest: "\<And>w'. stage N D (holding j f d {} 1 (store_of N w)) [True] w' \<Longrightarrow> wp (body 0 (ack_cmd, j, 0, 0, 0, [])) Q w'"
  shows "wp (Monad_Syntax.bind new_client (\<lambda>c. Monad_Syntax.bind (request c new_txn_cmd default_txn_id initial_seq_num f)
     (\<lambda>r. Monad_Syntax.bind (EXPECT (get_int TxnId r \<noteq> default_txn_id)) (\<lambda>_. body c r)))) Q w"
  by (rule wp_bind, rule wp_new_client [OF readyD(1) [OF r]], rule wp_started [OF r, where d = d], assumption) (simp_all add: rest)

lemma wp_opening_two:
  assumes r: "ready N D f j w"
    and rest: "\<And>w'. stage N D (holding j f d {} 1 (store_of N w)) [True, True] w' \<Longrightarrow> wp (body 0 1 (ack_cmd, j, 0, 0, 0, [])) Q w'"
  shows "wp (Monad_Syntax.bind new_client (\<lambda>c. Monad_Syntax.bind new_client (\<lambda>c'.
     Monad_Syntax.bind (request c new_txn_cmd default_txn_id initial_seq_num f)
     (\<lambda>r. Monad_Syntax.bind (EXPECT (get_int TxnId r \<noteq> default_txn_id)) (\<lambda>_. body c c' r))))) Q w"
  by (rule wp_bind, rule wp_new_client [OF readyD(1) [OF r]], rule wp_bind, erule wp_new_client, rule wp_started [OF r, where d = d], assumption)
    (simp_all add: rest [unfolded One_nat_def])

lemma file_data_simps [simp]: "nul_free file_data" "int (length file_data) < int_max" "int (length file_data) \<le> int_max"
  by (simp_all add: file_data_def int_range_defs NUL_def)


lemma wp_write_each_if:
  assumes s: "stage N D (holding j f d K L st) ls w" "i < length ls" "ls ! i" and j: "is_int j" "j \<notin> st_done st"
    and xs: "distinct xs" "set xs \<inter> K = {}" "\<forall>k \<in> set xs. 1 \<le> k \<and> k \<le> n" "L \<le> n" "n \<le> 1000"
    and d: "\<And>k. k \<in> set xs \<Longrightarrow> nul_free (d k) \<and> int (length (d k)) < int_max"
    and Q: "\<And>w' L'. L' \<le> n \<Longrightarrow> stage N D (holding j f d (K \<union> {x \<in> set xs. P x}) L' st) ls w' \<Longrightarrow> Q () w'"
  shows "wp (for_each xs (\<lambda>k. if P k then do { _ \<leftarrow> request i write_cmd j k (d k); ret () } else ret ())) Q w"
proof (rule wp_for_each [where I = "\<lambda>ys w. \<exists>L' \<le> n. stage N D (holding j f d (K \<union> {x \<in> set ys. P x}) L' st) ls w"])
  show "\<exists>L' \<le> n. stage N D (holding j f d (K \<union> {x \<in> set []. P x}) L' st) ls w" using s(1) xs(4) by auto
next
  fix ys x zs w1 assume split: "xs = ys @ x # zs" and "\<exists>L' \<le> n. stage N D (holding j f d (K \<union> {x \<in> set ys. P x}) L' st) ls w1"
  then obtain L' where L': "L' \<le> n" "stage N D (holding j f d (K \<union> {x \<in> set ys. P x}) L' st) ls w1" by blast
  have x: "x \<notin> K \<union> {x \<in> set ys. P x}" "1 \<le> x" "x \<le> n" "is_int x" "nul_free (d x)" "int (length (d x)) < int_max"
    using split xs d [of x] by (auto simp: int_range_defs)
  show "wp (if P x then do { _ \<leftarrow> request i write_cmd j x (d x); ret () } else ret ())
     (\<lambda>_ w. \<exists>L' \<le> n. stage N D (holding j f d (K \<union> {y \<in> set (ys @ [x]). P y}) L' st) ls w) w1"
  proof (cases "P x")
    case True
    then have K: "insert x (K \<union> {x \<in> set ys. P x}) = K \<union> {y \<in> set (ys @ [x]). P y}" by auto
    have "wp (request i write_cmd j x (d x)) (\<lambda>_. wp (ret ())
       (\<lambda>_ w. \<exists>L' \<le> n. stage N D (holding j f d (K \<union> {y \<in> set (ys @ [x]). P y}) L' st) ls w)) w1"
      by (rule wp_write [OF L'(2) s(2,3) x(1) j(1) x(4-6) j(2)], unfold K, rule wp_return)
        (use L'(1) x(3) in \<open>auto intro!: exI [of _ "max x L'"]\<close>)
    with True show ?thesis by (simp add: wp_bind)
  next
    case False
    then have "K \<union> {y \<in> set (ys @ [x]). P y} = K \<union> {x \<in> set ys. P x}" by auto
    with False L' show ?thesis by (auto intro: wp_return)
  qed
qed (use Q in blast)

lemmas wp_write_each = wp_write_each_if [where P = "\<lambda>_. True", unfolded if_True simp_thms Collect_mem_eq]

text \<open>The same, with a new connection for every write.\<close>

lemma wp_write_each_client:
  assumes s: "stage N D (holding j f d K L st) ls w" and j: "is_int j" "j \<notin> st_done st"
    and xs: "distinct xs" "set xs \<inter> K = {}" "\<forall>k \<in> set xs. 1 \<le> k \<and> k \<le> n" "L \<le> n" "n \<le> 1000"
    and d: "\<And>k. k \<in> set xs \<Longrightarrow> nul_free (d k) \<and> int (length (d k)) < int_max"
    and Q: "\<And>w' L' ls'. L' \<le> n \<Longrightarrow> stage N D (holding j f d (K \<union> set xs) L' st) (ls @ ls') w' \<Longrightarrow> Q () w'"
  shows "wp (for_each xs (\<lambda>k. do { c \<leftarrow> new_client; _ \<leftarrow> request c write_cmd j k (d k); ret () })) Q w"
proof (rule wp_for_each [where I = "\<lambda>ys w. \<exists>L' \<le> n. \<exists>ls'. stage N D (holding j f d (K \<union> set ys) L' st) (ls @ ls') w"])
  show "\<exists>L' \<le> n. \<exists>ls'. stage N D (holding j f d (K \<union> set []) L' st) (ls @ ls') w"
    using s(1) xs(4) by (intro exI [of _ L] conjI exI [of _ "[]"]) auto
next
  fix ys x zs w1 assume split: "xs = ys @ x # zs"
    and "\<exists>L' \<le> n. \<exists>ls'. stage N D (holding j f d (K \<union> set ys) L' st) (ls @ ls') w1"
  then obtain L' ls' where L': "L' \<le> n" "stage N D (holding j f d (K \<union> set ys) L' st) (ls @ ls') w1" by blast
  have x: "x \<notin> K \<union> set ys" "1 \<le> x" "x \<le> n" "is_int x" "nul_free (d x)" "int (length (d x)) < int_max"
    using split xs d [of x] by (auto simp: int_range_defs)
  let ?I = "\<lambda>_ w. \<exists>L' \<le> n. \<exists>ls'. stage N D (holding j f d (K \<union> set (ys @ [x])) L' st) (ls @ ls') w"
  have "wp (request (length (ls @ ls')) write_cmd j x (d x)) (\<lambda>_. wp (ret ()) ?I) w2"
    if "stage N D (holding j f d (K \<union> set ys) L' st) ((ls @ ls') @ [True]) w2" for w2
  proof (rule wp_write [OF that _ _ x(1) j(1) x(4-6) j(2)])
    fix w3 assume w3: "stage N D (holding j f d (insert x (K \<union> set ys)) (max x L') st) ((ls @ ls') @ [True]) w3"
    have K: "insert x (K \<union> set ys) = K \<union> set (ys @ [x])" by auto
    from w3 have "stage N D (holding j f d (K \<union> set (ys @ [x])) (max x L') st) (ls @ (ls' @ [True])) w3"
      unfolding K append_assoc .
    moreover have "max x L' \<le> n" using x(3) L'(1) by simp
    ultimately show "wp (ret ()) ?I w3" by (intro wp_return) blast
  qed (simp_all add: nth_append)
  then show "wp (do { c \<leftarrow> new_client; _ \<leftarrow> request c write_cmd j x (d x); ret () }) ?I w1"
    by - (rule wp_bind, rule wp_new_client [OF L'(2)], rule wp_bind, simp)
qed (use Q in blast)

end
