(* ===== verification/Test_Proofs.thy ===== *)
theory Test_Proofs
  imports Test_Rules
begin

text \<open>
  The tests of the repository pass, whatever their random choices: each is run symbolically, by the
  rules of Test_Rules, from any state of a server that is ready for it.
\<close>

subsection \<open>The tests\<close>

lemma first_seq_num [simp]: "initial_seq_num + 1 = 1" "initial_seq_num + 1 + 1 = 2"
  by (simp_all add: initial_seq_num_def)

lemma nul_free_numbers [simp]: "nul_free (concat (map to_string ks))"
  by simp

lemma length_numbers:
  assumes "\<forall>k \<in> set ks. is_int k" "length ks \<le> 1000"
  shows "int (length (concat (map to_string ks))) < int_max - int response_header_len"
proof -
  have "length (concat (map to_string ks)) \<le> 11 * length ks"
    using assms(1)
  proof (induction ks)
    case (Cons k ks)
    then show ?case using length_to_string [of k] by auto
  qed simp
  then show ?thesis using assms(2) int_bounds(8) by linarith
qed

lemma wp_closing:
  assumes s: "stage N D (committed j f c st) ls w" "i < length ls" "ls ! i" and f: "f \<in> N" "int (length f) < int_max"
    and c: "nul_free c" "int (length c) < int_max - int response_header_len" and dir: "dir = [] \<or> dir = D"
  shows "wp (do { r \<leftarrow> request i read_cmd default_txn_id initial_seq_num f; EXPECT (get_str Data r = c); eraseFile dir f }) (\<lambda>_. passed) w"
proof (rule wp_bind, rule wp_read [OF s f _ c])
  show "st_files (committed j f c st) f = Some c" by (simp add: committed_def)
  fix w1 assume "stage N D (committed j f c st) ls w1"
  then show "wp (do { EXPECT (get_str Data (ack_cmd, default_txn_id, initial_seq_num, 0, int (length c), c) = c); eraseFile dir f })
      (\<lambda>_. passed) w1"
    by - (rule wp_bind, rule wp_EXPECT, simp, erule wp_eraseFile [OF _ f(1) _ dir], simp_all add: committed_def)
qed

lemma number_data: "1 \<le> k \<Longrightarrow> k \<le> 50 \<Longrightarrow> nul_free (to_string k) \<and> int (length (to_string k)) < int_max"
  using length_to_string [of k] by (simp add: int_range_defs)

lemma test_OmittedSequenceNumber_passes:
  assumes r: "ready N D f j w" and m: "1 \<le> m" "m \<le> 50" and dir: "dir = [] \<or> dir = D"
  shows "wp (test_OmittedSequenceNumber dir f m) (\<lambda>_. passed) w"
proof -
  note j = readyD(6,7) [OF r]
  have m': "is_int m" "m \<in> {1..50}" using m by (auto simp: int_range_defs)
  show ?thesis
    unfolding test_OmittedSequenceNumber_def Let_def
    apply (rule wp_opening [OF r, where d = to_string], simp cong: if_cong)
    apply (rule wp_bind, erule wp_write_each_if [where d = to_string and n = 50 and P = "\<lambda>k. m \<noteq> k"]; (simp add: j number_data)?)
    apply (rule wp_bind, erule wp_commit_missing [where m = m]; (simp add: j)?)
     apply (use m in auto)[1]
    apply (rule wp_bind, rule wp_EXPECT, simp)
    apply (rule wp_bind, rule wp_EXPECT, simp)
    apply (rule wp_bind, erule wp_write [where d = to_string and k = m]; (simp add: j number_data m m')?)
    apply (rule wp_bind, erule wp_commit; (simp add: j readyD(4) [OF r] m)?)
     apply auto[1]
    apply (rule wp_bind, rule wp_EXPECT, simp)
    apply (erule wp_closing; simp add: readyD(2,3) [OF r] dir)
    apply (rule length_numbers; simp add: int_range_defs)
    done
qed

lemma test_SendPacketsOutOfOrder_passes:
  assumes r: "ready N D f j w" and ks: "mset seq_nums = mset [1..50]" and dir: "dir = [] \<or> dir = D"
  shows "wp (test_SendPacketsOutOfOrder dir f seq_nums) (\<lambda>_. passed) w"
proof -
  note j = readyD(6,7) [OF r]
  have ks': "distinct seq_nums" "set seq_nums = {1..50}"
    using mset_eq_imp_distinct_iff [OF ks] mset_eq_setD [OF ks] by simp_all
  show ?thesis
    unfolding test_SendPacketsOutOfOrder_def Let_def
    apply (rule wp_opening [OF r, where d = to_string], simp)
    apply (rule wp_bind, erule wp_write_each [where d = to_string and n = 50]; (simp add: j ks' number_data)?)
    apply (rule wp_bind, erule wp_commit; (simp add: j readyD(4) [OF r])?)
    apply (erule wp_closing; simp add: readyD(2,3) [OF r] dir)
    apply (rule length_numbers; simp add: int_range_defs)
    done
qed

lemma test_RepeatedSequenceNumber_passes:
  assumes r: "ready N D f j w"
  shows "wp (test_RepeatedSequenceNumber f) (\<lambda>_. passed) w"
  unfolding test_RepeatedSequenceNumber_def Let_def
  apply (rule wp_opening [OF r, where d = "\<lambda>_. file_data"], simp)
  apply (rule wp_bind, erule wp_write [where d = "\<lambda>_. file_data"]; simp add: readyD(6,7) [OF r])
  apply (rule wp_bind, erule wp_error [where err = RepeatedSequenceNumber]; simp add: readyD(6,7) [OF r] spec_write_def dom_def)
  apply (rule wp_EXPECT; simp add: stage_passed)
  done

lemma test_CommitWithInvalidSequenceNumber_passes:
  assumes r: "ready N D f j w"
  shows "wp (test_CommitWithInvalidSequenceNumber f) (\<lambda>_. passed) w"
  unfolding test_CommitWithInvalidSequenceNumber_def Let_def
  apply (rule wp_opening [OF r, where d = "\<lambda>_. file_data"], simp)
  apply (rule wp_bind, erule wp_write [where d = "\<lambda>_. file_data"]; simp add: readyD(6,7) [OF r])
  apply (rule wp_bind, erule wp_error [where err = CommitWithInvalidSequenceNumber]; simp add: readyD(6,7) [OF r] spec_commit_def)
  apply (rule wp_EXPECT; simp add: stage_passed)
  done

lemma test_ReceiveAckOnCommit_passes:
  assumes r: "ready N D f j w" and dir: "dir = [] \<or> dir = D"
  shows "wp (test_ReceiveAckOnCommit dir f) (\<lambda>_. passed) w"
  unfolding test_ReceiveAckOnCommit_def Let_def
  apply (rule wp_opening [OF r, where d = "\<lambda>_. file_data"], simp)
  apply (rule wp_bind, erule wp_write [where d = "\<lambda>_. file_data"]; simp add: readyD(6,7) [OF r])
  apply (rule wp_bind, erule wp_commit; (simp add: readyD(4,6,7) [OF r])?)
  apply (rule wp_bind, rule wp_EXPECT, simp)
  apply (erule wp_eraseFile [OF _ readyD(2) [OF r] _ dir], simp_all add: committed_def)
  done

lemma test_LostAck_passes:
  assumes r: "ready N D f j w" and dir: "dir = [] \<or> dir = D"
  shows "wp (test_LostAck dir f) (\<lambda>_. passed) w"
  unfolding test_LostAck_def Let_def
  apply (rule wp_opening [OF r, where d = "\<lambda>_. file_data"], simp)
  apply (rule wp_bind, erule wp_write [where d = "\<lambda>_. file_data"]; simp add: readyD(6,7) [OF r])
  apply (rule wp_bind, erule wp_commit; (simp add: readyD(4,6,7) [OF r])?)
  apply (rule wp_bind, erule wp_request; (simp add: readyD(6,7) [OF r] spec_commit_def committed_def)?)
  apply (rule wp_bind, rule wp_EXPECT, simp)
  apply (erule wp_eraseFile [OF _ readyD(2) [OF r] _ dir], simp_all)
  done

lemma test_WriteToCommittedTransaction_passes:
  assumes r: "ready N D f j w" and dir: "dir = [] \<or> dir = D"
  shows "wp (test_WriteToCommittedTransaction dir f) (\<lambda>_. passed) w"
  unfolding test_WriteToCommittedTransaction_def Let_def
  apply (rule wp_opening_two [OF r, where d = "\<lambda>_. file_data"], simp)
  apply (rule wp_bind, erule wp_write [where d = "\<lambda>_. file_data"]; simp add: readyD(6,7) [OF r])
  apply (rule wp_bind, erule wp_commit; (simp add: readyD(4,6,7) [OF r])?)
  apply (rule wp_bind, erule wp_error [where err = InvalidOperation]; (simp add: readyD(6,7) [OF r] spec_write_def committed_def)?)
  apply (rule wp_bind, rule wp_EXPECT, simp)
  apply (rule wp_bind, erule wp_error [where err = InvalidOperation]; (simp add: readyD(6,7) [OF r] spec_write_def)?)
  apply (rule wp_bind, rule wp_EXPECT, simp)
  apply (erule wp_eraseFile [OF _ readyD(2) [OF r] _ dir], simp_all)
  done

lemma test_AbortTransaction_passes:
  assumes r: "ready N D f j w"
  shows "wp (test_AbortTransaction f) (\<lambda>_. passed) w"
  unfolding test_AbortTransaction_def Let_def
  apply (rule wp_opening_two [OF r, where d = "\<lambda>_. file_data"], simp)
  apply (rule wp_bind, erule wp_write_each [where d = "\<lambda>_. file_data" and n = 50]; (simp add: readyD(6,7) [OF r])?)
  apply (rule wp_bind, erule wp_request; (simp add: readyD(6,7) [OF r] spec_abort_def holding_def)?)
  apply (rule wp_bind, rule wp_EXPECT, simp)
  apply (rule wp_bind, erule wp_error [where err = InvalidTransactionId]; (simp add: readyD(6,7) [OF r] spec_commit_def)?)
  apply (rule wp_EXPECT; simp add: stage_passed)
  done

lemma test_NewTransaction_passes:
  assumes r: "ready N D f j w"
  shows "wp (test_NewTransaction f) (\<lambda>_. passed) w"
  unfolding test_NewTransaction_def Let_def
  apply (rule wp_bind, rule wp_new_client [OF readyD(1) [OF r]])
  apply (rule wp_bind, erule wp_new_txn [where j = j and d = to_string]; (simp add: readyD(2,3,5) [OF r])?)
  apply (rule wp_bind, rule wp_EXPECT, use readyD(8) [OF r] in \<open>simp add: default_txn_id_def\<close>)+
  apply (rule wp_EXPECT; simp add: stage_passed)
  done

lemma test_InvalidInitialSequenceNumber_passes:
  assumes r: "ready N D f j w"
  shows "wp (test_InvalidInitialSequenceNumber f) (\<lambda>_. passed) w"
  unfolding test_InvalidInitialSequenceNumber_def Let_def
  apply (rule wp_bind, rule wp_new_client [OF readyD(1) [OF r]])
  apply (rule wp_bind, rule wp_ASSERT, simp add: initial_seq_num_def)
  apply (rule wp_bind, erule wp_request_chosen; (use r in \<open>simp add: readyD(2,3,5) [OF r] less_imp_le [OF readyD(3) [OF r]] stage_name [OF readyD(1,2)] default_txn_id_def\<close>)?)
  apply (rule wp_EXPECT; auto simp: stage_passed spec_new_def spec_error_def)
  done

lemma test_ReadNonexistentFile_passes:
  assumes s: "stage N D (store_of N w) [] w" "''NonexistentFile.txt'' \<in> N" "st_files (store_of N w) ''NonexistentFile.txt'' = None"
  shows "wp test_ReadNonexistentFile (\<lambda>_. passed) w"
  unfolding test_ReadNonexistentFile_def
  apply (rule wp_bind, rule wp_new_client [OF s(1)])
  apply (rule wp_bind, erule wp_error [where err = ErrorOpeningFile];
      (use s in \<open>simp add: stage_name [OF s(1,2)] spec_read_def default_txn_id_def initial_seq_num_def int_range_defs NUL_def\<close>)?)
  apply (rule wp_EXPECT; simp add: stage_passed)
  done

lemma test_InvalidTransactionId_passes:
  assumes s: "stage N D (store_of N w) [] w" and no: "st_open (store_of N w) default_txn_id = None" "default_txn_id \<notin> st_done (store_of N w)"
  shows "wp test_InvalidTransactionId (\<lambda>_. passed) w"
  unfolding test_InvalidTransactionId_def
  apply (rule wp_bind, rule wp_new_client [OF s])
  apply (rule wp_bind, erule wp_error [where err = InvalidTransactionId];
      (use no in \<open>simp add: spec_write_def default_txn_id_def initial_seq_num_def\<close>)?)
  apply (rule wp_EXPECT; simp add: stage_passed)
  done

lemma test_InvalidCommand_passes:
  assumes s: "stage N D (store_of N w) [] w"
  shows "wp test_InvalidCommand (\<lambda>_. passed) w"
  unfolding test_InvalidCommand_def Let_def
  apply (rule wp_bind, rule wp_new_client [OF s])
  apply (rule wp_bind, rule wp_ASSERT, simp add: consts_simps)+
  apply (rule wp_bind, erule wp_error [where err = InvalidCommand];
      (simp add: command_token_def upper_or_underscore_def consts_simps)?)
  apply (rule wp_EXPECT; simp add: stage_passed)
  done

subsection \<open>Many clients\<close>

lemma length_data:
  assumes "\<forall>k \<in> set ks. length (d k) \<le> 200" "length ks \<le> 100"
  shows "int (length (concat (map d ks))) < int_max - int response_header_len"
proof -
  have "length (concat (map d ks)) \<le> 200 * length ks"
    using assms(1) by (induction ks) auto
  then show ?thesis using assms(2) int_bounds(8) by linarith
qed

lemma foldl_prepend: "foldl (\<lambda>e k. d k @ e) e (rev ks) = concat (map d ks) @ e"
  by (induction ks arbitrary: e) auto

text \<open>\<open>rand\<close> returns numbers up to \<open>RAND_MAX\<close>, which is not above \<open>INT_MAX\<close>.\<close>

lemma random_data:
  assumes "\<And>k. int (rand k) \<le> int_max"
  shows "nul_free (to_string (int (rand k)))" "length (to_string (int (rand k))) \<le> 200"
    "int (length (to_string (int (rand k)))) < int_max"
proof -
  have "is_int (int (rand k))" using assms [of k] by (simp add: int_range_defs)
  then show "length (to_string (int (rand k))) \<le> 200" "int (length (to_string (int (rand k)))) < int_max"
    using length_to_string [of "int (rand k)"] by (simp_all add: int_range_defs)
qed simp

lemma test_parallel_passes:
  assumes r: "ready N D f j w" and ks: "mset arrival = mset [1..50]" and dir: "dir = [] \<or> dir = D"
    and rand: "\<And>k. int (rand k) \<le> int_max"
  shows "wp (test_MultipleClientInteractionSameTransactionParallel dir f rand arrival) (\<lambda>_. passed) w"
proof -
  note j = readyD(6,7) [OF r]
  have ks': "distinct arrival" "set arrival = {1..50}"
    using mset_eq_imp_distinct_iff [OF ks] mset_eq_setD [OF ks] by simp_all
  show ?thesis
    unfolding test_MultipleClientInteractionSameTransactionParallel_def Let_def foldl_prepend
    apply (rule wp_opening [OF r, where d = "\<lambda>k. to_string (int (rand k))"], simp)
    apply (rule wp_bind, erule wp_write_each_client [where d = "\<lambda>k. to_string (int (rand k))" and n = 50];
        (use random_data [where rand = rand] rand in \<open>simp add: j ks'\<close>)?)
    apply (rule wp_bind, erule wp_commit; (simp add: j readyD(4) [OF r])?)
    apply (rule wp_bind, rule wp_EXPECT, simp)
    apply (erule wp_closing; simp add: readyD(2,3) [OF r] dir)
    apply (rule length_data [where d = "\<lambda>k. to_string (int (rand k))"]; simp add: random_data [OF rand])
    done
qed

lemma test_sequential_passes:
  assumes r: "ready N D f j w" and dir: "dir = [] \<or> dir = D" and rand: "\<And>k. int (rand k) \<le> int_max"
  shows "wp (test_MultipleClientInteractionSameTransactionSequential dir f rand) (\<lambda>_. passed) w"
  unfolding test_MultipleClientInteractionSameTransactionSequential_def Let_def foldl_prepend
  apply (rule wp_opening [OF r, where d = "\<lambda>k. to_string (int (rand k))"], simp)
  apply (rule wp_bind, erule wp_write_each_client [where d = "\<lambda>k. to_string (int (rand k))" and n = 50];
      (use random_data [where rand = rand] rand in \<open>simp add: readyD(6,7) [OF r]\<close>)?)
  apply (rule wp_bind, erule wp_commit; (simp add: readyD(4,6,7) [OF r])?)
  apply (rule wp_bind, rule wp_EXPECT, simp)
  apply (erule wp_closing; simp add: readyD(2,3) [OF r] dir)
  apply (rule length_data [where d = "\<lambda>k. to_string (int (rand k))"]; simp add: random_data [OF rand])
  done

subsection \<open>The timeout\<close>

lemma wp_new_txn_timer:
  assumes s: "stage N D st ls w" "i < length ls" "ls ! i" and f: "f \<in> N" "int (length f) < int_max"
    and j: "candidate_id (rands (tw_envs w 0)) 0 (m_txns (tw_backend w)) = Some j"
    and Q: "\<And>w'. stage N D (holding j f d {} 1 st) ls w' \<Longrightarrow>
       m_timers (tw_backend w') = m_timers (tw_backend w) @ [new_timer j f (now (tw_envs w 0))] \<Longrightarrow>
       m_txns (tw_backend w') j = Some (getNewTransactionAttributes f (now (tw_envs w 0))) \<Longrightarrow> Q (ack_cmd, j, 0, 0, 0, []) w'"
  shows "wp (request i new_txn_cmd default_txn_id initial_seq_num f) Q w"
proof (rule wp_request_chosen [OF s])
  show "sendable N st (new_txn_cmd, default_txn_id, initial_seq_num, f)"
    using f stage_name [OF s(1) f(1)] by (simp add: default_txn_id_def initial_seq_num_def)
  show "new_txn_cmd = new_txn_cmd \<longrightarrow> candidate_id (rands (tw_envs w 0)) 0 (m_txns (tw_backend w)) \<noteq> None" using j by simp
  fix reply st' w'
  assume sp: "spec_step (chosen_id (tw_envs w 0) (tw_backend w))
      (new_txn_cmd, default_txn_id, initial_seq_num, int (length f), f) st = (reply, st')"
    and w': "stage N D st' (ls[i := fst reply \<noteq> error_cmd \<and> new_txn_cmd \<noteq> abort_cmd]) w'"
    and b': "tw_backend w' = snd (processCommand (new_txn_cmd, default_txn_id, initial_seq_num, int (length f), f)
       (tw_envs w 0) True (tw_backend w))"
  from sp j have r: "reply = (ack_cmd, j, 0, nil, [])" "st' = holding j f d {} 1 st"
    by (simp_all add: chosen_id_def spec_new_def initial_seq_num_def holding_def)
  have "site N (tw_backend w)" using s(1) by (simp add: stage_def live_def good_def)
  with b' NEW_TXN_site [OF this f(1) j] have "tw_backend w' = started_state j f (now (tw_envs w 0))
      (logged m_transaction_log j f (tw_backend w)) (tw_backend w)"
    by (simp add: processCommand_def initial_seq_num_def reply_simps)
  with r w' s(2,3) Q [of w'] show "Q (reply_view reply) w'" by simp
qed

lemma wp_timeout:
  assumes s: "stage N D (holding j f d {} 1 st) ls w" and f: "f \<in> N" and at: "at \<ge> t0 + txn_timeout"
    and b: "m_timers (tw_backend w) = [new_timer j f t0]" "m_txns (tw_backend w) j = Some (getNewTransactionAttributes f t0)"
    and Q: "\<And>w'. stage N D (st\<lparr>st_open := (st_open st)(j := None)\<rparr>) ls w' \<Longrightarrow> Q () w'"
  shows "wp (sleep_until at) Q w"
proof -
  let ?b = "tw_backend w" and ?s = "logged m_timeout_log j f (tw_backend w)"
  let ?b' = "(removeTransaction j ?b)\<lparr>m_os := ?s, m_timers := []\<rparr>"
  have g: "good N ?b" "\<not> m_initialize ?b" "abs_store N ?b = holding j f d {} 1 st" "\<not> tw_over w"
    using s by (simp_all add: stage_def live_def)
  have "txn_timer_turn (new_timer j f t0) at ?b = (Inr None, (removeTransaction j ?b)\<lparr>m_os := ?s\<rparr>)"
    using txn_timer_turn_site [OF goodD(2) [OF g(1)], of "new_timer j f t0"] b(2) f at
    by (simp add: new_timer_def getNewTransactionAttributes_def)
  moreover have "\<not> at < timer_latest_timestamp (new_timer j f t0) + txn_timeout" using at by (simp add: new_timer_def)
  ultimately have run: "run_state (sleep_until at) w = ((), w\<lparr>tw_backend := ?b'\<rparr>)"
    using g(4) b(1) by (simp add: sleep_until_def)
  note lg = good_logged [OF g(1) f, of m_timeout_log]
  have rm: "removeTransaction j (?b\<lparr>m_os := ?s\<rparr>) = (removeTransaction j ?b)\<lparr>m_os := ?s\<rparr>"
    using b(2) by (simp add: removeTransaction_def release_file_attributes_def split: option.split)
  have "good N ((removeTransaction j ?b)\<lparr>m_os := ?s\<rparr>)"
    unfolding rm [symmetric] using lg(1) by (intro good_removed [OF g(1)]) simp
  then have "good N ?b'" by (simp add: good_def site_def backend_inv_def)
  moreover have "abs_store N ?b' = st\<lparr>st_open := (st_open st)(j := None)\<rparr>"
  proof -
    have "abs_store N (removeTransaction j (?b\<lparr>m_os := ?s\<rparr>)) = (abs_store N ?b)\<lparr>st_open := (st_open (abs_store N ?b))(j := None)\<rparr>"
      by (rule abs_store_removed) (use lg(2) in simp)
    then show ?thesis unfolding rm g(3) by (simp add: abs_store_def holding_def cong: if_cong)
  qed
  ultimately have "stage N D (st\<lparr>st_open := (st_open st)(j := None)\<rparr>) ls (w\<lparr>tw_backend := ?b'\<rparr>)"
    using s g(2) by (simp add: stage_def live_def)
  with Q run show ?thesis by (simp add: wp_def)
qed

lemma test_TransactionTimeout_passes:
  assumes r: "ready N D f j w" and tm: "m_timers (tw_backend w) = []" and at: "woken_at \<ge> now (tw_envs w 0) + txn_timeout"
  shows "wp (test_TransactionTimeout f woken_at) (\<lambda>_. passed) w"
  unfolding test_TransactionTimeout_def Let_def
  apply (rule wp_bind, rule wp_new_client [OF readyD(1) [OF r]])
  apply (rule wp_bind, erule wp_new_txn_timer [where j = j and d = "\<lambda>_. []"]; (simp add: readyD(2,3,5) [OF r] tm)?)
  apply (rule wp_bind, rule wp_EXPECT, use readyD(8) [OF r] in \<open>simp add: default_txn_id_def\<close>)
  apply (rule wp_bind, erule wp_timeout [OF _ readyD(2) [OF r] at]; simp?)
  apply (rule wp_bind, erule wp_new_client)
  apply (rule wp_bind, erule wp_error [where err = InvalidTransactionId]; (simp add: readyD(6,7) [OF r] spec_write_def)?)
  apply (rule wp_EXPECT; simp add: stage_passed)
  done

subsection \<open>A request that is no request\<close>

lemma test_InvalidRequestFormat_passes:
  assumes s: "stage N D st [] w"
  shows "wp test_InvalidRequestFormat (\<lambda>_. passed) w"
proof -
  let ?raw = "concat (replicate 3 ''dsjfhaskdjfhasdfgsdkjfahsdgfkajshdgfasjdfgjkas'')"
  have bad: "\<not> isValidRequestFormat ?raw" "\<not> isValidRequestFormat (take 64 ?raw)" by code_simp+
  have nul: "nul_free ?raw" by (simp add: NUL_def numeral_eq_Suc)
  have len: "length (take 64 ?raw) = getRequestHeaderLength" by (simp add: getRequestHeaderLength_def consts_simps numeral_eq_Suc)
  from sock.send_exact [OF connected_simps(1) nul, of "[]"] obtain kc where
    kc: "writeFileDescriptor socket_write ?raw (connected []) = (Inr True, kc)" "outbound kc = ?raw" by auto
  let ?r = SET_FORMATTING_ERROR
  have wf: "reply_wf ?r" unfolding SET_FORMATTING_ERROR_def
    by (rule reply_wf_error) (simp_all add: consts_simps int_range_defs)
  then obtain resp where resp: "generateResponse ?r = Some resp" using response_codec.encode_decode by blast
  have cl: "backend_content_length (take 64 ?raw) True = Inr (-1, resp, False)"
    using bad(2) resp by (simp add: backend_content_length_def getContentLength_def)
  have turn: "\<exists>ks. server_turn True (st, connected ?raw) = (Inr (Some False), st, ks) \<and> outbound ks = resp" for st
  proof -
    have src: "inbound (connected ?raw) = take 64 ?raw @ drop 64 ?raw" by (simp only: connected_simps append_take_drop_id)
    show ?thesis
      by (rule server.turn_rejected [OF connected_simps(1) src len cl, of connection_timeout_seconds st]) auto
  qed
  have "int (length resp) < int_max"
    using generateResponse_length [OF wf resp] error_message_length [of InvalidMessageFormat] int_bounds(8)
    by (simp add: SET_FORMATTING_ERROR_def int_range_defs consts_simps)
  from getResponse_exact [OF wf resp, of "connected resp" "[]"] this obtain kr where
    kr: "getResponse (connected resp) = (Inr (True, reply_view ?r), kr)" by auto
  have req: "wp (request_raw 0 ?raw) (\<lambda>r w. r = reply_view ?r \<and> passed w) w1" if w1: "stage N D st [True] w1" for w1
  proof -
    obtain ks where "server_turn True ((tw_envs w1, tw_backend w1), connected ?raw) = (Inr (Some False), (tw_envs w1, tw_backend w1), ks)"
      "outbound ks = resp" using turn by blast
    with w1 kc kr show ?thesis
      by (simp add: wp_def request_raw_def client_sends_raw_def server_serves_def client_receives_def put_link_def
          stage_def live_def fresh_link_def passed_def Let_def del: concat_replicate_trivial)
  qed
  have "get_str Data (reply_view ?r) = getErrorMessage InvalidMessageFormat" by (simp add: SET_FORMATTING_ERROR_def)
  then have expect: "r = reply_view ?r \<and> passed w1 \<Longrightarrow>
      wp (EXPECT (get_str Data r = getErrorMessage InvalidMessageFormat)) (\<lambda>_. passed) w1" for r w1
    by (intro wp_EXPECT) simp_all
  show ?thesis
    unfolding test_InvalidRequestFormat_def Let_def
  proof (rule wp_bind, rule wp_new_client [OF s], rule wp_bind, rule wp_ASSERT [OF bad(1)], rule wp_bind)
    fix w1 assume "stage N D st ([] @ [True]) w1"
    then have "wp (request_raw (length []) ?raw) (\<lambda>r w. r = reply_view ?r \<and> passed w) w1" using req by simp
    then show "wp (request_raw (length []) ?raw) (\<lambda>r. wp (EXPECT (get_str Data r = getErrorMessage InvalidMessageFormat)) (\<lambda>_. passed)) w1"
      by (rule wp_weaken) (rule expect)
  qed
qed

subsection \<open>Pipelining\<close>

text \<open>One client with requests on their way to the server and responses on their way back.\<close>

definition piped :: "FileName set \<Rightarrow> string \<Rightarrow> store \<Rightarrow> (string \<times> int \<times> int \<times> string) list \<Rightarrow> Reply list \<Rightarrow> test_world \<Rightarrow> bool" where
  "piped N D st es rs w \<longleftrightarrow> live N w \<and> m_directory (tw_backend w) = D \<and> store_of N w = st \<and> tw_failures w = 0
     \<and> tw_links w = [\<lparr>to_server = concat (map (the \<circ> encode_request) es), to_client = concat (map (the \<circ> generateResponse) rs),
                     serving = True\<rparr>]"

lemma piped_stage: "piped N D st [] [] w \<longleftrightarrow> stage N D st [True] w"
  by (auto simp: piped_def stage_def fresh_link_def)

lemma wp_client_sends:
  assumes p: "piped N D st es rs w" and wf: "request_wf (cmd, txn, seq, data)"
    and Q: "\<And>w'. piped N D st (es @ [(cmd, txn, seq, data)]) rs w' \<Longrightarrow> Q () w'"
  shows "wp (client_sends 0 cmd txn seq data) Q w"
proof -
  from sendRequest_exact [OF wf, of "connected []"] obtain kc where
    kc: "sendRequest cmd txn seq data (connected []) = (Inr (), kc)" "outbound kc = the (encode_request (cmd, txn, seq, data))" by auto
  have "\<not> tw_over w" using p by (simp add: piped_def live_def)
  then have "run_state (client_sends 0 cmd txn seq data) w = ((), put_link 0 ((tw_links w ! 0)\<lparr>to_server :=
      to_server (tw_links w ! 0) @ the (encode_request (cmd, txn, seq, data))\<rparr>) w)"
    using kc by (simp add: client_sends_def Let_def)
  moreover have "piped N D st (es @ [(cmd, txn, seq, data)]) rs (put_link 0 ((tw_links w ! 0)\<lparr>to_server :=
      to_server (tw_links w ! 0) @ the (encode_request (cmd, txn, seq, data))\<rparr>) w)"
    using p by (simp add: piped_def put_link_def live_def del: encode_request.simps)
  ultimately show ?thesis using Q by (simp add: wp_def)
qed

lemma wp_server_serves:
  assumes p: "piped N D st ((cmd, txn, seq, data) # es) rs w" and sd: "sendable N st (cmd, txn, seq, data)"
    and c: "cmd \<noteq> new_txn_cmd" "cmd \<noteq> abort_cmd" "fst reply \<noteq> error_cmd"
    and sp: "spec_step 0 (cmd, txn, seq, int (length data), data) st = (reply, st')"
    and Q: "\<And>w'. piped N D st' es (rs @ [reply]) w' \<Longrightarrow> Q () w'"
  shows "wp (server_serves 0) Q w"
proof -
  let ?b = "tw_backend w" and ?es = "tw_envs w" and ?rest = "concat (map (the \<circ> encode_request) es)"
  have g: "good N ?b" "\<not> m_initialize ?b" "\<not> tw_over w" "abs_store N ?b = st" using p by (simp_all add: piped_def live_def)
  have l: "tw_links w = [\<lparr>to_server = the (encode_request (cmd, txn, seq, data)) @ ?rest,
      to_client = concat (map (the \<circ> generateResponse) rs), serving = True\<rparr>]"
    using p by (simp add: piped_def del: encode_request.simps)
  have wf: "request_wf (cmd, txn, seq, data)" "int (length data) < int_max" using sd by auto
  have wi: "within N (?es 0) ?b (cmd, txn, seq, int (length data), data)"
    by (rule sendable_within) (use sd c(1) g(4) in auto)
  have sp': "spec_step (chosen_id (?es 0) ?b) (cmd, txn, seq, int (length data), data) (abs_store N ?b) = (reply, st')"
    using sp c(1) unfolding g(4) by (auto split: if_splits)
  obtain b' resp ks where t: "server_turn True ((?es, ?b), connected (the (encode_request (cmd, txn, seq, data)) @ ?rest))
      = (Inr (Some (fst reply \<noteq> error_cmd \<and> cmd \<noteq> abort_cmd)), (?es \<circ> Suc, b'), ks)"
    "outbound ks = resp" "inbound ks = ?rest" "generateResponse reply = Some resp"
    and b': "good N b'" "\<not> m_initialize b'" "abs_store N b' = st'" "m_directory b' = m_directory ?b"
    by (rule served [where rest = ?rest and es = ?es, OF g(1,2) wf(1) wi wf(2) sp']) auto
  let ?w = "put_link 0 \<lparr>to_server = ?rest, to_client = concat (map (the \<circ> generateResponse) rs) @ resp, serving = True\<rparr>
      (w\<lparr>tw_envs := ?es \<circ> Suc, tw_backend := b'\<rparr>)"
  have "run_state (server_serves 0) w = ((), ?w)"
    using g(3) t(1-3) c unfolding server_serves_def by (simp add: l Let_def del: encode_request.simps)
  moreover have "piped N D st' es (rs @ [reply]) ?w"
    using p b' t(4) by (simp add: piped_def put_link_def live_def)
  ultimately show ?thesis using Q by (simp add: wp_def)
qed

lemma wp_client_receives:
  assumes p: "piped N D st es (reply # rs) w" and wf: "reply_wf reply"
    and rs: "int (length (snd (snd (snd (snd reply))))) < int_max - int response_header_len"
    and Q: "\<And>w'. piped N D st es rs w' \<Longrightarrow> Q (reply_view reply) w'"
  shows "wp (client_receives 0) Q w"
proof -
  obtain resp where resp: "generateResponse reply = Some resp" using response_codec.encode_decode [OF wf] by blast
  let ?rest = "concat (map (the \<circ> generateResponse) rs)"
  have l: "tw_links w = [\<lparr>to_server = concat (map (the \<circ> encode_request) es), to_client = resp @ ?rest, serving = True\<rparr>]"
    "\<not> tw_over w" using p resp by (simp_all add: piped_def live_def)
  have "int (length resp) < int_max" using rs generateResponse_length [OF wf resp] by simp
  from getResponse_exact [OF wf resp, of "connected (resp @ ?rest)" ?rest] this obtain kr where
    kr: "getResponse (connected (resp @ ?rest)) = (Inr (True, reply_view reply), kr)" "inbound kr = ?rest" by auto
  let ?w = "put_link 0 \<lparr>to_server = concat (map (the \<circ> encode_request) es), to_client = ?rest, serving = True\<rparr> w"
  have "run_state (client_receives 0) w = (reply_view reply, ?w)"
    using l kr by (simp add: client_receives_def Let_def)
  moreover have "piped N D st es rs ?w" using p by (simp add: piped_def put_link_def live_def)
  ultimately show ?thesis using Q by (simp add: wp_def)
qed

lemma upto_split:
  assumes "[1..n] = ys @ x # zs"
  shows "drop (length ys) [1..n] = x # zs" "drop (length (ys @ [x])) [1..n] = zs" "x \<notin> set ys" "1 \<le> x" "x \<le> n"
proof -
  have "distinct (ys @ x # zs)" "set (ys @ x # zs) = {1..n}" unfolding assms [symmetric] by simp_all
  then show "x \<notin> set ys" "1 \<le> x" "x \<le> n" by auto
  show "drop (length ys) [1..n] = x # zs" "drop (length (ys @ [x])) [1..n] = zs" by (simp_all add: assms)
qed

lemma wp_pipeline:
  assumes s: "stage N D (holding j f d {} 1 st) [True] w" and j: "is_int j" "j \<notin> st_done st" and n: "1 \<le> n" "n \<le> 1000"
    and d: "\<And>k. nul_free (d k)" "\<And>k. int (length (d k)) < int_max"
    and Q: "\<And>w' L. L \<le> n \<Longrightarrow> stage N D (holding j f d {1..n} L st) [True] w' \<Longrightarrow> wp body Q w'"
  shows "wp (do { for_each [1..n] (\<lambda>k. client_sends 0 write_cmd j k (d k)); for_each [1..n] (\<lambda>_. server_serves 0);
     for_each [1..n] (\<lambda>_. do { _ \<leftarrow> client_receives 0; ret () }); body }) Q w"
proof -
  let ?req = "\<lambda>k. (write_cmd, j, k, d k)" and ?ack = "\<lambda>k. (ack_cmd, j, k, nil, []) :: Reply"
  have int: "is_int k" if "1 \<le> k" "k \<le> n" for k using that n(2) by (simp add: int_range_defs)
  have wf: "request_wf (?req k)" "sendable N st' (?req k)" "reply_wf (?ack k)" if "1 \<le> k" "k \<le> n" for k st'
    using int [OF that] j(1) d [of k] by (simp_all add: command_token_def upper_or_underscore_def consts_simps)
  let ?sent = "\<lambda>ys. piped N D (holding j f d {} 1 st) (map ?req ys) []"
  let ?served = "\<lambda>ys w. \<exists>L \<le> n. piped N D (holding j f d (set ys) L st) (map ?req (drop (length ys) [1..n])) (map ?ack ys) w"
  let ?got = "\<lambda>ys w. \<exists>L \<le> n. piped N D (holding j f d {1..n} L st) [] (map ?ack (drop (length ys) [1..n])) w"
  show ?thesis
  proof (rule wp_bind, rule wp_for_each [where I = ?sent])
    show "?sent [] w" using s by (simp add: piped_stage)
    show "wp (client_sends 0 write_cmd j x (d x)) (\<lambda>_. ?sent (ys @ [x])) w1" if "[1..n] = ys @ x # zs" "?sent ys w1" for ys x zs w1
      by (rule wp_client_sends [OF that(2)]) (use wf upto_split [OF that(1)] in auto)
    fix w1 assume s1: "?sent [1..n] w1"
    show "wp (do { for_each [1..n] (\<lambda>_. server_serves 0); for_each [1..n] (\<lambda>_. do { _ \<leftarrow> client_receives 0; ret () }); body }) Q w1"
    proof (rule wp_bind, rule wp_for_each [where I = ?served])
      show "?served [] w1" using s1 n(1) by auto
      show "wp (server_serves 0) (\<lambda>_. ?served (ys @ [x])) w2" if x: "[1..n] = ys @ x # zs" "?served ys w2" for ys x zs w2
      proof -
        note sx = upto_split [OF x(1)]
        from x(2) obtain L where L: "L \<le> n" "piped N D (holding j f d (set ys) L st) (?req x # map ?req zs) (map ?ack ys) w2"
          unfolding sx(1) by auto
        show ?thesis
        proof (rule wp_server_serves [OF L(2) wf(2), where reply = "?ack x" and st' = "holding j f d (insert x (set ys)) (max x L) st"])
          show "spec_step 0 (write_cmd, j, x, int (length (d x)), d x) (holding j f d (set ys) L st)
              = (?ack x, holding j f d (insert x (set ys)) (max x L) st)"
            using spec_write_holding [OF sx(3) j(2)] by simp
          fix w3 assume "piped N D (holding j f d (insert x (set ys)) (max x L) st) (map ?req zs) (map ?ack ys @ [?ack x]) w3"
          moreover have "max x L \<le> n" using sx L by simp
          ultimately show "?served (ys @ [x]) w3" unfolding sx(2) by (intro exI [of _ "max x L"]) simp
        qed (use sx in auto)
      qed
      fix w2 assume "?served [1..n] w2"
      then have s2: "?got [] w2" by auto
      show "wp (do { for_each [1..n] (\<lambda>_. do { _ \<leftarrow> client_receives 0; ret () }); body }) Q w2"
      proof (rule wp_bind, rule wp_for_each [where I = ?got])
        show "?got [] w2" by (rule s2)
        show "wp (do { _ \<leftarrow> client_receives 0; ret () }) (\<lambda>_. ?got (ys @ [x])) w3" if x: "[1..n] = ys @ x # zs" "?got ys w3" for ys x zs w3
        proof -
          note sx = upto_split [OF x(1)]
          from x(2) obtain L where L: "L \<le> n" "piped N D (holding j f d {1..n} L st) [] (?ack x # map ?ack zs) w3"
            unfolding sx(1) by auto
          show ?thesis
          proof (rule wp_bind, rule wp_client_receives [OF L(2)])
            show "reply_wf (?ack x)" by (rule wf(3) [OF sx(4,5)])
            show "int (length (snd (snd (snd (snd (?ack x)))))) < int_max - int response_header_len"
              by (simp add: int_range_defs consts_simps)
            show "wp (ret ()) (\<lambda>_. ?got (ys @ [x])) w4" if "piped N D (holding j f d {1..n} L st) [] (map ?ack zs) w4" for w4
              unfolding sx(2) using that L(1) by (intro wp_return) blast
          qed
        qed
        show "wp body Q w3" if "?got [1..n] w3" for w3 using that Q by (auto simp: piped_stage)
      qed
    qed
  qed
qed

lemma test_PipelinedRequests_passes:
  assumes r: "ready N D f j w" and dir: "dir = [] \<or> dir = D" and rand: "\<And>i m. int (rand i m) \<le> int_max"
  shows "wp (test_PipelinedRequests dir f rand) (\<lambda>_. passed) w"
proof -
  let ?d = "\<lambda>i. concat (map (\<lambda>m. to_string (int (rand i m))) [0..<15])"
  have l: "length (?d i) \<le> 200" for i
  proof -
    have "length (concat (map (\<lambda>m. to_string (int (rand i m))) ms)) \<le> 11 * length ms" for ms
    proof (induction ms)
      case (Cons m ms)
      have "is_int (int (rand i m))" using rand [of i m] by (simp add: int_range_defs)
      from length_to_string [OF this] Cons show ?case by simp
    qed simp
    from this [of "[0..<15]"] show ?thesis by simp
  qed
  have d: "nul_free (?d i)" "int (length (?d i)) < int_max" for i
    using l [of i] by (auto simp: int_range_defs intro: le_less_trans)
  show ?thesis
    unfolding test_PipelinedRequests_def Let_def
    apply (rule wp_opening [OF r, where d = ?d], simp only: get_int.simps)
    apply (erule wp_pipeline [where d = ?d]; (use d readyD(6,7) [OF r] in simp)?)
    apply (rule wp_bind, erule wp_commit; (simp add: readyD(4,6,7) [OF r])?)
    apply (erule wp_closing; (use dir d in \<open>simp add: readyD(2,3) [OF r]\<close>)?)
    apply (rule length_data; simp add: l)
    done
qed

subsection \<open>The suite\<close>


definition demo_server :: ServerBackend where
  "demo_server = \<lparr>m_txns = Map.empty, m_files = Map.empty, m_commits = {}, m_directory = ''d/'', m_initialize = False,
     m_timers = [], m_os = demo_os\<lparr>os_files := Map.empty\<rparr>\<rparr>"

definition demo_world :: test_world where
  "demo_world = \<lparr>tw_envs = (\<lambda>_. demo_env), tw_backend = demo_server, tw_links = [], tw_failures = 0, tw_over = False\<rparr>"

lemma demo_ready: "ready {''f'', ''NonexistentFile.txt''} ''d/'' ''f'' 0 demo_world"
proof -
  have "backend_inv demo_server" by (simp add: backend_inv_def demo_server_def file_inv_def)
  moreover have "site {''f'', ''NonexistentFile.txt''} demo_server"
    by (auto simp: site_def quiet_def demo_server_def demo_os_def demo_resolve_def plain_name_def log_order_def
        consts_simps c_str_def NUL_def is_space_def inj_on_def)
  ultimately have "good {''f'', ''NonexistentFile.txt''} demo_server" by (simp add: good_def demo_server_def)
  moreover have "candidate_id (rands demo_env) 0 Map.empty = Some 0"
    by (subst candidate_id.simps) (simp add: demo_env_def INT32_MAX_def)
  ultimately show ?thesis
    by (simp add: ready_def stage_def live_def demo_world_def) (simp add: demo_server_def int_range_defs demo_os_def)
qed


end
