(* ===== verification/Linked_Ptr.thy ===== *)
theory Linked_Ptr
  imports Prelude
begin

text \<open>
  The smart pointer of the test framework,
  \<open>GoogleTestFramework/.../internal/gtest-linked_ptr.h\<close>. All \<open>linked_ptr\<close> objects that own
  one pointee form a circular list through their \<open>next_\<close> members; an object leaves the
  circle by walking round to its predecessor, and the last one to leave deletes the pointee.
  The memory of the model keeps, for every address of a live \<open>linked_ptr\<close>, its \<open>value_\<close>
  (\<open>None\<close> is the null pointer) and its \<open>next_\<close>, and the pointees that \<open>new\<close> has
  made and \<open>delete\<close> has not freed. Deleting anything else is \<open>Undefined\<close>, as is
  following a pointer to an object that is not there; the two walks are
  \<open>partial_function\<close>s, \<open>None\<close> being a walk that never ends. Each operation holds
  \<open>g_linked_ptr_mutex\<close> from start to end, so it is one step.
\<close>

record linked_memory =
  lp_value :: "nat \<rightharpoonup> nat option"
  lp_next :: "nat \<rightharpoonup> nat"
  pointees :: "nat set"

type_synonym 'a running = "'a outcome option"

subsection \<open>\<open>linked_ptr_internal\<close>\<close>

definition join_new :: "nat \<Rightarrow> linked_memory \<Rightarrow> linked_memory" where
  "join_new this m = m\<lparr>lp_next := (lp_next m)(this \<mapsto> this)\<rparr>"

partial_function (option) join_walk :: "(nat \<rightharpoonup> nat) \<Rightarrow> nat \<Rightarrow> nat \<Rightarrow> nat \<Rightarrow> nat running" where
  "join_walk nx this ptr p =
     (case nx p of
        None \<Rightarrow> Some (Inl Undefined)
      | Some q \<Rightarrow>
          if q = ptr then Some (Inr p)
          else if q = this then Some (Inl AssertFailed)
          else join_walk nx this ptr q)"

definition join :: "nat \<Rightarrow> nat \<Rightarrow> linked_memory \<Rightarrow> linked_memory running" where
  "join this ptr m =
     (case join_walk (lp_next m) this ptr ptr of
        None \<Rightarrow> None
      | Some (Inl e) \<Rightarrow> Some (Inl e)
      | Some (Inr p) \<Rightarrow> Some (Inr (m\<lparr>lp_next := (lp_next m)(p \<mapsto> this, this \<mapsto> ptr)\<rparr>)))"

partial_function (option) depart_walk :: "(nat \<rightharpoonup> nat) \<Rightarrow> nat \<Rightarrow> nat \<Rightarrow> nat \<Rightarrow> nat running" where
  "depart_walk nx this first p =
     (case nx p of
        None \<Rightarrow> Some (Inl Undefined)
      | Some q \<Rightarrow>
          if q = this then Some (Inr p)
          else if q = first then Some (Inl AssertFailed)
          else depart_walk nx this first q)"

definition internal_depart :: "nat \<Rightarrow> linked_memory \<Rightarrow> (bool \<times> linked_memory) running" where
  "internal_depart this m =
     (case lp_next m this of
        None \<Rightarrow> Some (Inl Undefined)
      | Some n \<Rightarrow>
          if n = this then Some (Inr (True, m))
          else (case depart_walk (lp_next m) this n n of
                  None \<Rightarrow> None
                | Some (Inl e) \<Rightarrow> Some (Inl e)
                | Some (Inr p) \<Rightarrow> Some (Inr (False, m\<lparr>lp_next := (lp_next m)(p \<mapsto> n)\<rparr>))))"

subsection \<open>\<open>linked_ptr<T>\<close>\<close>

definition delete_pointee :: "nat option \<Rightarrow> linked_memory \<Rightarrow> linked_memory outcome" where
  "delete_pointee p m =
     (case p of
        None \<Rightarrow> Inr m
      | Some v \<Rightarrow>
          if v \<in> pointees m then Inr (m\<lparr>pointees := pointees m - {v}\<rparr>) else Inl Undefined)"

definition get :: "nat \<Rightarrow> linked_memory \<Rightarrow> nat option outcome" where
  "get this m = (case lp_value m this of None \<Rightarrow> Inl Undefined | Some p \<Rightarrow> Inr p)"

definition linked_ptr_depart :: "nat \<Rightarrow> linked_memory \<Rightarrow> linked_memory running" where
  "linked_ptr_depart this m =
     (case internal_depart this m of
        None \<Rightarrow> None
      | Some (Inl e) \<Rightarrow> Some (Inl e)
      | Some (Inr (was_last, m')) \<Rightarrow>
          if was_last
          then (case get this m' of Inl e \<Rightarrow> Some (Inl e) | Inr p \<Rightarrow> Some (delete_pointee p m'))
          else Some (Inr m'))"

definition capture :: "nat \<Rightarrow> nat option \<Rightarrow> linked_memory \<Rightarrow> linked_memory" where
  "capture this ptr m = join_new this (m\<lparr>lp_value := (lp_value m)(this \<mapsto> ptr)\<rparr>)"

definition copy :: "nat \<Rightarrow> nat \<Rightarrow> linked_memory \<Rightarrow> linked_memory running" where
  "copy this ptr m =
     (case get ptr m of
        Inl e \<Rightarrow> Some (Inl e)
      | Inr p \<Rightarrow>
          let m1 = m\<lparr>lp_value := (lp_value m)(this \<mapsto> p)\<rparr>
          in if p \<noteq> None then join this ptr m1 else Some (Inr (join_new this m1)))"

definition linked_ptr_new :: "nat \<Rightarrow> nat option \<Rightarrow> linked_memory \<Rightarrow> linked_memory" where
  "linked_ptr_new this ptr m = capture this ptr m"

definition linked_ptr_destroy :: "nat \<Rightarrow> linked_memory \<Rightarrow> linked_memory running" where
  "linked_ptr_destroy this m =
     (case linked_ptr_depart this m of
        Some (Inr m') \<Rightarrow>
          Some (Inr (m'\<lparr>lp_value := (lp_value m')(this := None), lp_next := (lp_next m')(this := None)\<rparr>))
      | r \<Rightarrow> r)"

text \<open>The copy constructor from another \<open>linked_ptr<U>\<close> has no assertion of its own.\<close>

definition linked_ptr_convert :: "nat \<Rightarrow> nat \<Rightarrow> linked_memory \<Rightarrow> linked_memory running" where
  "linked_ptr_convert this ptr m = copy this ptr m"

definition linked_ptr_copy :: "nat \<Rightarrow> nat \<Rightarrow> linked_memory \<Rightarrow> linked_memory running" where
  "linked_ptr_copy this ptr m =
     (if ptr = this then Some (Inl AssertFailed) else copy this ptr m)"

definition assign_convert :: "nat \<Rightarrow> nat \<Rightarrow> linked_memory \<Rightarrow> linked_memory running" where
  "assign_convert this ptr m =
     (case linked_ptr_depart this m of
        Some (Inr m') \<Rightarrow> copy this ptr m'
      | r \<Rightarrow> r)"

definition assign :: "nat \<Rightarrow> nat \<Rightarrow> linked_memory \<Rightarrow> linked_memory running" where
  "assign this ptr m =
     (if ptr \<noteq> this
      then (case linked_ptr_depart this m of
              Some (Inr m') \<Rightarrow> copy this ptr m'
            | r \<Rightarrow> r)
      else Some (Inr m))"

definition reset :: "nat \<Rightarrow> nat option \<Rightarrow> linked_memory \<Rightarrow> linked_memory running" where
  "reset this ptr m =
     (case linked_ptr_depart this m of
        Some (Inr m') \<Rightarrow> Some (Inr (capture this ptr m'))
      | r \<Rightarrow> r)"

definition equals_raw :: "nat \<Rightarrow> nat option \<Rightarrow> linked_memory \<Rightarrow> bool outcome" where
  "equals_raw this p m = (case get this m of Inl e \<Rightarrow> Inl e | Inr q \<Rightarrow> Inr (q = p))"

definition equals_ptr :: "nat \<Rightarrow> nat \<Rightarrow> linked_memory \<Rightarrow> bool outcome" where
  "equals_ptr this ptr m =
     (case (get this m, get ptr m) of
        (Inr p, Inr q) \<Rightarrow> Inr (p = q)
      | _ \<Rightarrow> Inl Undefined)"

definition make_linked_ptr :: "nat \<Rightarrow> nat option \<Rightarrow> linked_memory \<Rightarrow> linked_memory" where
  "make_linked_ptr result ptr m = linked_ptr_new result ptr m"


subsection \<open>Programs of smart pointers\<close>

text \<open>
  What a client does with smart pointers: allocate a pointee, construct, copy, assign,
  reset and destroy. \<open>permitted\<close> is what the header asks of the client: objects are
  constructed once and used while they live, and a raw pointer is handed over at most once.
\<close>

datatype lp_op =
    New nat
  | Construct nat "nat option"
  | Copy_construct nat nat
  | Assign nat nat
  | Reset nat "nat option"
  | Destroy nat

fun exec_op :: "lp_op \<Rightarrow> linked_memory \<Rightarrow> linked_memory running" where
  "exec_op (New v) m = Some (Inr (m\<lparr>pointees := insert v (pointees m)\<rparr>))"
| "exec_op (Construct a p) m = Some (Inr (linked_ptr_new a p m))"
| "exec_op (Copy_construct a b) m = linked_ptr_copy a b m"
| "exec_op (Assign a b) m = assign a b m"
| "exec_op (Reset a p) m = reset a p m"
| "exec_op (Destroy a) m = linked_ptr_destroy a m"

fun exec_ops :: "lp_op list \<Rightarrow> linked_memory \<Rightarrow> linked_memory running" where
  "exec_ops [] m = Some (Inr m)"
| "exec_ops (op # ops) m =
     (case exec_op op m of
        Some (Inr m') \<Rightarrow> exec_ops ops m'
      | r \<Rightarrow> r)"

definition no_memory :: linked_memory where
  "no_memory = \<lparr>lp_value = Map.empty, lp_next = Map.empty, pointees = {}\<rparr>"

subsection \<open>What the smart pointers promise\<close>

text \<open>
  The specification knows no circles: it has the pointers and the allocated pointees, and
  when a pointer lets go of its pointee it looks whether any other pointer still owns it.
\<close>

type_synonym ownership = "(nat \<rightharpoonup> nat option) \<times> nat set"

definition owners :: "(nat \<rightharpoonup> nat option) \<Rightarrow> nat \<Rightarrow> nat set" where
  "owners vals v = {a. vals a = Some (Some v)}"

definition let_go :: "nat \<Rightarrow> ownership \<Rightarrow> ownership" where
  "let_go a = (\<lambda>(vals, ps).
     (vals, case vals a of
              Some (Some v) \<Rightarrow> if owners vals v = {a} then ps - {v} else ps
            | _ \<Rightarrow> ps))"

definition point_to :: "nat \<Rightarrow> nat option option \<Rightarrow> ownership \<Rightarrow> ownership" where
  "point_to a p = (\<lambda>(vals, ps). (vals(a := p), ps))"

fun spec_op :: "lp_op \<Rightarrow> ownership \<Rightarrow> ownership" where
  "spec_op (New v) s = (fst s, insert v (snd s))"
| "spec_op (Construct a p) s = point_to a (Some p) s"
| "spec_op (Copy_construct a b) s = point_to a (fst s b) s"
| "spec_op (Assign a b) s = (if a = b then s else point_to a (fst s b) (let_go a s))"
| "spec_op (Reset a p) s = point_to a (Some p) (let_go a s)"
| "spec_op (Destroy a) s = point_to a None (let_go a s)"

definition raw :: "nat option \<Rightarrow> ownership \<Rightarrow> bool" where
  "raw p s \<longleftrightarrow> (case p of None \<Rightarrow> True | Some v \<Rightarrow> v \<in> snd s \<and> owners (fst s) v = {})"

fun permitted :: "lp_op \<Rightarrow> ownership \<Rightarrow> bool" where
  "permitted (New v) s \<longleftrightarrow> v \<notin> snd s"
| "permitted (Construct a p) s \<longleftrightarrow> fst s a = None \<and> raw p s"
| "permitted (Copy_construct a b) s \<longleftrightarrow> fst s a = None \<and> fst s b \<noteq> None"
| "permitted (Assign a b) s \<longleftrightarrow> fst s a \<noteq> None \<and> fst s b \<noteq> None"
| "permitted (Reset a p) s \<longleftrightarrow> fst s a \<noteq> None \<and> raw p s"
| "permitted (Destroy a) s \<longleftrightarrow> fst s a \<noteq> None"

fun all_permitted :: "lp_op list \<Rightarrow> ownership \<Rightarrow> bool" where
  "all_permitted [] s \<longleftrightarrow> True"
| "all_permitted (op # ops) s \<longleftrightarrow> permitted op s \<and> all_permitted ops (spec_op op s)"

definition ownership_of :: "linked_memory \<Rightarrow> ownership" where
  "ownership_of m = (lp_value m, pointees m)"

subsection \<open>Circles\<close>

text \<open>\<open>chain nx x xs y\<close>: following \<open>next_\<close> from \<open>x\<close> visits \<open>xs\<close> and arrives at \<open>y\<close>.\<close>

primrec chain :: "(nat \<rightharpoonup> nat) \<Rightarrow> nat \<Rightarrow> nat list \<Rightarrow> nat \<Rightarrow> bool" where
  "chain nx x [] y \<longleftrightarrow> x = y"
| "chain nx x (a # as) y \<longleftrightarrow> x = a \<and> (\<exists>z. nx a = Some z \<and> chain nx z as y)"

definition circle :: "(nat \<rightharpoonup> nat) \<Rightarrow> nat list \<Rightarrow> bool" where
  "circle nx xs \<longleftrightarrow> xs \<noteq> [] \<and> distinct xs \<and> chain nx (hd xs) xs (hd xs)"

lemma chain_append [simp]: "chain nx x (as @ bs) y \<longleftrightarrow> (\<exists>z. chain nx x as z \<and> chain nx z bs y)"
  by (induction as arbitrary: x) auto

lemma chain_update [simp]: "u \<notin> set as \<Longrightarrow> chain (nx(u := w)) x as y \<longleftrightarrow> chain nx x as y"
  by (induction as arbitrary: x) auto

lemma chain_cong: "(\<And>a. a \<in> set as \<Longrightarrow> nx' a = nx a) \<Longrightarrow> chain nx' x as y \<longleftrightarrow> chain nx x as y"
  by (induction as arbitrary: x) auto

lemma chain_hd: "chain nx x (a # as) y \<Longrightarrow> x = a"
  by simp

lemma circle_Cons: "circle nx (a # as) \<longleftrightarrow> a \<notin> set as \<and> distinct as \<and> chain nx a (a # as) a"
  unfolding circle_def by auto

lemma circle_cong: "(\<And>a. a \<in> set as \<Longrightarrow> nx' a = nx a) \<Longrightarrow> circle nx' as \<longleftrightarrow> circle nx as"
  unfolding circle_def using chain_cong by blast

text \<open>A circle can be read from any of its members.\<close>

lemma circle_from:
  assumes "circle nx xs" "a \<in> set xs"
  obtains as where "circle nx (a # as)" "set (a # as) = set xs"
proof -
  obtain bs cs where xs: "xs = bs @ a # cs" using split_list [OF assms(2)] by blast
  have "circle nx (a # cs @ bs)"
  proof (cases bs)
    case Nil
    with assms(1) xs show ?thesis by simp
  next
    case (Cons b bs')
    with assms(1) xs show ?thesis unfolding circle_def by auto
  qed
  then show thesis using that [of "cs @ bs"] xs by auto
qed

text \<open>Both walks reach the predecessor of the member at which they stop.\<close>

lemma join_walk_chain:
  "chain nx p (p # as) ptr \<Longrightarrow> ptr \<notin> set as \<Longrightarrow> this \<notin> set as \<Longrightarrow>
   join_walk nx this ptr p = Some (Inr (last (p # as)))"
proof (induction as arbitrary: p)
  case Nil
  then show ?case by (simp add: join_walk.simps [of nx])
next
  case (Cons a as)
  then have "nx p = Some a" "chain nx a (a # as) ptr" by auto
  with Cons show ?case by (subst join_walk.simps) auto
qed

lemma depart_walk_chain:
  "chain nx p (p # as) this \<Longrightarrow> this \<notin> set as \<Longrightarrow> first \<notin> set as \<Longrightarrow>
   depart_walk nx this first p = Some (Inr (last (p # as)))"
proof (induction as arbitrary: p)
  case Nil
  then show ?case by (simp add: depart_walk.simps [of nx])
next
  case (Cons a as)
  then have "nx p = Some a" "chain nx a (a # as) this" by auto
  with Cons show ?case by (subst depart_walk.simps) auto
qed

text \<open>Joining puts the newcomer before the member it was given; departing closes the gap.\<close>

lemma chain_last:
  "chain nx x as y \<Longrightarrow> as \<noteq> [] \<Longrightarrow> nx (last as) = Some y"
  by (induction as arbitrary: x) auto

lemma chain_redirect:
  assumes "chain nx x as y" "as \<noteq> []" "distinct as"
  shows "chain (nx(last as \<mapsto> z)) x as z"
proof -
  obtain bs l where as: "as = bs @ [l]" using assms(2) by (metis append_butlast_last_id)
  with assms show ?thesis by auto
qed

lemma join_circle:
  assumes "circle (lp_next m) (b # bs)" "a \<notin> set (b # bs)"
  shows "\<exists>nx. join a b m = Some (Inr (m\<lparr>lp_next := nx\<rparr>)) \<and> circle nx (b # bs @ [a]) \<and>
              (\<forall>c. c \<notin> set (a # b # bs) \<longrightarrow> nx c = lp_next m c)"
proof -
  let ?l = "last (b # bs)"
  let ?nx = "(lp_next m)(?l \<mapsto> a, a \<mapsto> b)"
  have c: "chain (lp_next m) b (b # bs) b" "b \<notin> set bs" "distinct (b # bs)"
    using assms(1) by (auto simp: circle_Cons)
  have "chain ((lp_next m)(?l \<mapsto> a)) b (b # bs) a" using chain_redirect [OF c(1)] c(3) by blast
  then have "chain ?nx b (b # bs) a" using assms(2) chain_update by blast
  then have "circle ?nx (b # bs @ [a])" using assms(2) c by (auto simp: circle_Cons)
  moreover have "?l \<in> set (b # bs)" by (rule last_in_set) simp
  moreover have "join_walk (lp_next m) a b b = Some (Inr ?l)"
    by (rule join_walk_chain [OF c(1,2)]) (use assms(2) in simp)
  ultimately show ?thesis
    unfolding join_def by (intro exI [of _ ?nx]) (auto simp del: last.simps)
qed

lemma internal_depart_last:
  "lp_next m a = Some a \<Longrightarrow> internal_depart a m = Some (Inr (True, m))"
  by (simp add: internal_depart_def)

lemma internal_depart_circle:
  assumes "circle (lp_next m) (a # b # bs)"
  shows "\<exists>nx. internal_depart a m = Some (Inr (False, m\<lparr>lp_next := nx\<rparr>)) \<and> circle nx (b # bs) \<and>
              (\<forall>c. c \<notin> set (b # bs) \<longrightarrow> nx c = lp_next m c)"
proof -
  let ?l = "last (b # bs)"
  let ?nx = "(lp_next m)(?l \<mapsto> b)"
  have c: "chain (lp_next m) b (b # bs) a" "a \<notin> set (b # bs)" "distinct (b # bs)" "lp_next m a = Some b"
    using assms by (auto simp: circle_Cons)
  have "circle ?nx (b # bs)"
    using chain_redirect [OF c(1)] c(3) by (simp add: circle_def)
  moreover have "?l \<in> set (b # bs)" by (rule last_in_set) simp
  moreover have "depart_walk (lp_next m) a b b = Some (Inr ?l)"
    by (rule depart_walk_chain [OF c(1)]) (use c in auto)
  ultimately show ?thesis
    using c unfolding internal_depart_def by (intro exI [of _ ?nx]) (auto simp del: last.simps)
qed

lemma circle_dom: "circle nx xs \<Longrightarrow> a \<in> set xs \<Longrightarrow> \<exists>b. nx a = Some b"
  by (erule circle_from, assumption) (auto simp: circle_Cons)

subsection \<open>The invariant of the memory\<close>

text \<open>
  A null pointer is alone in its circle; the owners of a pointee are the members of one
  circle, and the pointee is allocated.
\<close>

definition one_circle :: "linked_memory \<Rightarrow> nat \<Rightarrow> bool" where
  "one_circle m v \<longleftrightarrow>
     v \<in> pointees m \<and> (\<exists>xs. circle (lp_next m) xs \<and> set xs = owners (lp_value m) v)"

definition well_linked :: "linked_memory \<Rightarrow> bool" where
  "well_linked m \<longleftrightarrow>
     dom (lp_value m) = dom (lp_next m) \<and>
     (\<forall>a. lp_value m a = Some None \<longrightarrow> lp_next m a = Some a) \<and>
     (\<forall>v. owners (lp_value m) v \<noteq> {} \<longrightarrow> one_circle m v)"

definition forget :: "nat \<Rightarrow> linked_memory \<Rightarrow> linked_memory" where
  "forget a m = m\<lparr>lp_value := (lp_value m)(a := None), lp_next := (lp_next m)(a := None)\<rparr>"

lemma forget_simps [simp]:
  "lp_value (forget a m) = (lp_value m)(a := None)"
  "lp_next (forget a m) = (lp_next m)(a := None)"
  "pointees (forget a m) = pointees m"
  by (simp_all add: forget_def)

lemma forget_value: "lp_value (forget a m) a = None"
  by simp

lemma in_owners [simp]: "a \<in> owners vals v \<longleftrightarrow> vals a = Some (Some v)"
  by (simp add: owners_def)

lemma owners_upd [simp]:
  "owners (vals(a := p)) v = (if p = Some (Some v) then insert a (owners vals v) else owners vals v - {a})"
  by (auto simp: owners_def)

lemma well_linked_owner:
  assumes "well_linked m" "lp_value m a = Some (Some v)"
  obtains as where "circle (lp_next m) (a # as)" "set (a # as) = owners (lp_value m) v" "v \<in> pointees m"
proof -
  have "one_circle m v" using assms unfolding well_linked_def by (metis in_owners empty_iff)
  then show thesis using circle_from assms(2) that unfolding one_circle_def by (metis in_owners)
qed

lemma well_linked_null: "well_linked m \<Longrightarrow> lp_value m a = Some None \<Longrightarrow> lp_next m a = Some a"
  unfolding well_linked_def by blast

lemma forget_absent:
  assumes "well_linked m" "lp_value m a = None"
  shows "forget a m = m"
proof -
  have "lp_next m a = None" using assms unfolding well_linked_def by (metis domIff)
  with assms(2) show ?thesis by (simp add: forget_def fun_upd_idem)
qed

text \<open>Circles of pointees that an operation does not touch stay circles.\<close>

lemma one_circle_frame:
  assumes "one_circle m v" "owners (lp_value m') v = owners (lp_value m) v" "v \<in> pointees m'"
    and "\<And>c. c \<in> owners (lp_value m) v \<Longrightarrow> lp_next m' c = lp_next m c"
  shows "one_circle m' v"
  using assms circle_cong unfolding one_circle_def by metis

lemma well_linked_step:
  assumes "well_linked m"
    and doms: "\<And>c. lp_next m' c = None \<longleftrightarrow> lp_value m' c = None"
    and null: "\<And>c. lp_value m' c = Some None \<Longrightarrow> lp_next m' c = Some c"
    and same: "\<And>w. Some w \<noteq> p \<Longrightarrow> owners (lp_value m') w = owners (lp_value m) w"
    and frame: "\<And>w c. Some w \<noteq> p \<Longrightarrow> lp_value m c = Some (Some w) \<Longrightarrow> lp_next m' c = lp_next m c"
    and live: "\<And>w. Some w \<noteq> p \<Longrightarrow> w \<in> pointees m \<Longrightarrow> w \<in> pointees m'"
    and new: "\<And>v. p = Some v \<Longrightarrow> owners (lp_value m') v \<noteq> {} \<Longrightarrow> one_circle m' v"
  shows "well_linked m'"
  unfolding well_linked_def
proof (intro conjI allI impI null)
  show "dom (lp_value m') = dom (lp_next m')" using doms by (auto simp: dom_def)
next
  fix w assume w: "owners (lp_value m') w \<noteq> {}"
  show "one_circle m' w"
  proof (cases "Some w = p")
    case True
    then show ?thesis using new w by blast
  next
    case False
    then have c: "one_circle m w" using assms(1) same w unfolding well_linked_def by metis
    then have "w \<in> pointees m'" using False live by (simp add: one_circle_def)
    then show ?thesis using one_circle_frame [OF c] same frame False by simp
  qed
qed

lemma well_linked_doms: "well_linked m \<Longrightarrow> lp_next m c = None \<longleftrightarrow> lp_value m c = None"
  unfolding well_linked_def by (metis domIff)

lemma depart_alone:
  assumes "well_linked m" "lp_value m a = Some p" "lp_next m a = Some a"
    and "\<And>v. p = Some v \<Longrightarrow> owners (lp_value m) v = {a} \<and> v \<in> pointees m"
  shows "\<exists>m'. linked_ptr_depart a m = Some (Inr m') \<and> well_linked (forget a m') \<and>
              lp_value m' = lp_value m \<and> ownership_of m' = let_go a (ownership_of m)"
proof -
  let ?m = "m\<lparr>pointees := pointees m - set_option p\<rparr>"
  have "linked_ptr_depart a m = Some (Inr ?m)"
    using assms by (cases p) (auto simp: linked_ptr_depart_def internal_depart_last get_def delete_pointee_def)
  moreover have "well_linked (forget a ?m)"
    by (rule well_linked_step [OF assms(1), where p = p])
      (use assms in \<open>auto simp: well_linked_null well_linked_doms split: if_splits\<close>)
  moreover have "ownership_of ?m = let_go a (ownership_of m)"
    using assms(2,4) by (cases p) (auto simp: ownership_of_def let_go_def)
  ultimately show ?thesis by auto
qed

lemma depart_shared:
  assumes "well_linked m" "lp_value m a = Some (Some v)" "v \<in> pointees m"
    and c: "circle (lp_next m) (a # b # bs)" "set (a # b # bs) = owners (lp_value m) v"
  shows "\<exists>m'. linked_ptr_depart a m = Some (Inr m') \<and> well_linked (forget a m') \<and>
              lp_value m' = lp_value m \<and> ownership_of m' = let_go a (ownership_of m)"
proof -
  obtain nx where nx: "internal_depart a m = Some (Inr (False, m\<lparr>lp_next := nx\<rparr>))" "circle nx (b # bs)"
    "\<And>c. c \<notin> set (b # bs) \<Longrightarrow> nx c = lp_next m c"
    using internal_depart_circle [OF c(1)] by blast
  let ?m = "forget a (m\<lparr>lp_next := nx\<rparr>)"
  have a: "a \<notin> set (b # bs)" using c(1) by (simp add: circle_Cons)
  have owned: "c \<in> set (b # bs) \<longleftrightarrow> c \<noteq> a \<and> lp_value m c = Some (Some v)" for c
    using a c(2) by (metis in_owners insert_iff list.simps(15))
  have "lp_next ?m c = nx c" if "c \<in> set (b # bs)" for c using a that by auto
  then have "circle (lp_next ?m) (b # bs)" using circle_cong [of "b # bs" "lp_next ?m" nx] nx(2) by blast
  moreover have "set (b # bs) = owners (lp_value ?m) v"
    using owned by (intro set_eqI) auto
  ultimately have "one_circle ?m v" using assms(3) unfolding one_circle_def by force
  moreover have "lp_next ?m c = None \<longleftrightarrow> lp_value ?m c = None" for c
    using well_linked_doms [OF assms(1), of c] circle_dom [OF nx(2), of c] nx(3) [of c] owned [of c]
    by (cases "c \<in> set (b # bs)") auto
  moreover have "lp_next ?m c = Some c" if "lp_value ?m c = Some None" for c
    using that nx(3) [of c] owned [of c] well_linked_null [OF assms(1), of c] by (auto split: if_splits)
  moreover have "lp_next ?m c = lp_next m c" if "lp_value m c = Some (Some w)" "Some w \<noteq> Some v" for c w
    using that assms(2) nx(3) [of c] owned [of c] by auto
  ultimately have "well_linked ?m"
    using assms(2)
    by (intro well_linked_step [OF assms(1), where p = "Some v"]) (auto split: if_splits)
  moreover have "owners (lp_value m) v \<noteq> {a}" using a c(2) by auto
  ultimately show ?thesis
    using nx(1) assms(2) by (auto simp: linked_ptr_depart_def ownership_of_def let_go_def)
qed

lemma depart_releases:
  assumes "well_linked m" "lp_value m a = Some p"
  shows "\<exists>m'. linked_ptr_depart a m = Some (Inr m') \<and> well_linked (forget a m') \<and>
              lp_value m' = lp_value m \<and> ownership_of m' = let_go a (ownership_of m)"
proof (cases p)
  case None
  then show ?thesis using assms well_linked_null by (intro depart_alone [of m a p]) auto
next
  case (Some v)
  then obtain as where c: "circle (lp_next m) (a # as)" "set (a # as) = owners (lp_value m) v" "v \<in> pointees m"
    using well_linked_owner assms by metis
  show ?thesis
  proof (cases as)
    case Nil
    then have "lp_next m a = Some a" "owners (lp_value m) v = {a}"
      using c by (auto simp: circle_Cons)
    then show ?thesis using Some assms c(3) by (intro depart_alone [of m a p]) auto
  next
    case (Cons b bs)
    then show ?thesis using depart_shared [of m a v b bs] Some assms c by blast
  qed
qed

lemma capture_owns:
  assumes "well_linked (forget a m)" "raw p (ownership_of (forget a m))"
  shows "well_linked (capture a p m) \<and> ownership_of (capture a p m) = point_to a (Some p) (ownership_of m)"
proof -
  let ?m = "capture a p m"
  have m: "lp_value ?m = (lp_value (forget a m))(a \<mapsto> p)" "lp_next ?m = (lp_next (forget a m))(a \<mapsto> a)"
    "pointees ?m = pointees (forget a m)"
    by (simp_all add: capture_def join_new_def)
  have "one_circle ?m v" if "p = Some v" for v
    unfolding one_circle_def m using that assms(2)
    by (intro conjI exI [of _ "[a]"]) (auto simp: circle_def raw_def ownership_of_def)
  then have "well_linked ?m"
    using assms
    by (intro well_linked_step [OF assms(1), where p = p])
      (auto simp: m well_linked_null well_linked_doms forget_value simp del: forget_simps split: if_splits)
  then show ?thesis by (simp add: m ownership_of_def point_to_def)
qed

lemma join_owns:
  assumes wl: "well_linked (forget a m)" and ab: "a \<noteq> b" and b: "lp_value m b = Some (Some v)"
    and a: "lp_value m a = Some (Some v)"
  shows "\<exists>m'. join a b m = Some (Inr m') \<and> well_linked m' \<and> ownership_of m' = ownership_of m"
proof -
  have "lp_value (forget a m) b = Some (Some v)" using ab b by simp
  then obtain bs where c: "circle (lp_next (forget a m)) (b # bs)"
    "set (b # bs) = owners (lp_value (forget a m)) v" "v \<in> pointees m"
    using well_linked_owner [OF wl] by (metis forget_simps(3))
  then have nin: "a \<notin> set (b # bs)" by auto
  then have "lp_next (forget a m) c = lp_next m c" if "c \<in> set (b # bs)" for c using that by auto
  then have "circle (lp_next m) (b # bs)" using circle_cong c(1) by blast
  then obtain nx where nx: "join a b m = Some (Inr (m\<lparr>lp_next := nx\<rparr>))" "circle nx (b # bs @ [a])"
    "\<And>c. c \<notin> set (a # b # bs) \<Longrightarrow> nx c = lp_next m c"
    using join_circle nin by metis
  let ?m = "m\<lparr>lp_next := nx\<rparr>"
  have members: "c \<in> set (b # bs) \<longleftrightarrow> c \<noteq> a \<and> lp_value m c = Some (Some v)" for c
    unfolding c(2) by auto
  have owned: "c \<in> set (b # bs @ [a]) \<longleftrightarrow> lp_value m c = Some (Some v)" for c
    using members [of c] a by (cases "c = a") auto
  have "set (b # bs @ [a]) = owners (lp_value ?m) v" by (rule set_eqI) (simp only: owned in_owners, simp)
  then have "one_circle ?m v" using nx(2) c(3) unfolding one_circle_def by force
  moreover have "lp_next ?m c = None \<longleftrightarrow> lp_value ?m c = None" for c
    using well_linked_doms [OF wl, of c] circle_dom [OF nx(2), of c] nx(3) [of c] owned [of c]
    by (cases "c \<in> set (b # bs @ [a])") auto
  moreover have "lp_next ?m c = Some c" if "lp_value ?m c = Some None" for c
    using that nx(3) [of c] owned [of c] a well_linked_null [OF wl, of c] by (cases "c = a") auto
  moreover have "nx c = lp_next (forget a m) c" if "lp_value (forget a m) c = Some (Some w)" "Some w \<noteq> Some v" for c w
    using that nx(3) [of c] owned [of c] by (auto split: if_splits)
  ultimately have "well_linked ?m"
    using a by (intro well_linked_step [OF wl, where p = "Some v"]) auto
  then show ?thesis using nx(1) by (simp add: ownership_of_def)
qed

lemma copy_owns:
  assumes "well_linked (forget a m)" "a \<noteq> b" "lp_value m b = Some p"
  shows "\<exists>m'. copy a b m = Some (Inr m') \<and> well_linked m' \<and>
              ownership_of m' = point_to a (Some p) (ownership_of m)"
proof (cases p)
  case None
  then have "copy a b m = Some (Inr (capture a None m))"
    using assms by (simp add: copy_def get_def capture_def)
  then show ?thesis using capture_owns [OF assms(1), of None] None by (simp add: raw_def)
next
  case (Some v)
  let ?m = "m\<lparr>lp_value := (lp_value m)(a \<mapsto> p)\<rparr>"
  have "forget a ?m = forget a m" by (simp add: forget_def)
  then have "\<exists>m'. join a b ?m = Some (Inr m') \<and> well_linked m' \<and> ownership_of m' = ownership_of ?m"
    using assms Some by (intro join_owns [of a ?m b v]) (simp_all del: forget_simps)
  moreover have "copy a b m = join a b ?m" using assms(3) Some by (simp add: copy_def get_def)
  ultimately show ?thesis by (simp add: ownership_of_def point_to_def)
qed

subsection \<open>The circles implement the specification\<close>

lemma raw_after_let_go:
  "raw p (ownership_of m) \<Longrightarrow> lp_value m' = lp_value m \<Longrightarrow>
   ownership_of m' = let_go a (ownership_of m) \<Longrightarrow> raw p (ownership_of (forget a m'))"
  by (auto simp: raw_def ownership_of_def let_go_def split: option.splits if_splits)

lemma exec_op_refines:
  assumes wl: "well_linked m" and ok: "permitted op (ownership_of m)"
  shows "\<exists>m'. exec_op op m = Some (Inr m') \<and> well_linked m' \<and>
              ownership_of m' = spec_op op (ownership_of m)"
proof (cases op)
  case (New v)
  have "well_linked (m\<lparr>pointees := insert v (pointees m)\<rparr>)"
    by (rule well_linked_step [OF wl, where p = None])
      (auto simp: well_linked_null [OF wl] well_linked_doms [OF wl])
  then show ?thesis using New by (simp add: ownership_of_def)
next
  case (Construct a p)
  then have "forget a m = m" using wl ok forget_absent by (simp add: ownership_of_def)
  then show ?thesis
    using Construct capture_owns [of a m p] wl ok by (simp add: linked_ptr_new_def)
next
  case (Copy_construct a b)
  then have "lp_value m a = None" "lp_value m b \<noteq> None" using ok by (auto simp: ownership_of_def)
  then have "forget a m = m" "a \<noteq> b" using wl forget_absent by auto
  then show ?thesis
    using Copy_construct copy_owns [of a m b] wl \<open>lp_value m b \<noteq> None\<close>
    by (auto simp: linked_ptr_copy_def ownership_of_def)
next
  case (Assign a b)
  then obtain p q where v: "lp_value m a = Some p" "lp_value m b = Some q"
    using ok by (auto simp: ownership_of_def)
  then obtain m' where "linked_ptr_depart a m = Some (Inr m')" "well_linked (forget a m')"
    "lp_value m' = lp_value m" "ownership_of m' = let_go a (ownership_of m)"
    using depart_releases [OF wl v(1)] by blast
  then show ?thesis
    using Assign v copy_owns [of a m' b q] wl by (cases "a = b") (auto simp: assign_def ownership_of_def)
next
  case (Reset a p)
  then obtain q where v: "lp_value m a = Some q" "raw p (ownership_of m)"
    using ok by (auto simp: ownership_of_def)
  then obtain m' where "linked_ptr_depart a m = Some (Inr m')" "well_linked (forget a m')"
    "lp_value m' = lp_value m" "ownership_of m' = let_go a (ownership_of m)"
    using depart_releases [OF wl v(1)] by blast
  then show ?thesis
    using Reset capture_owns [of a m' p] raw_after_let_go [OF v(2)] by (simp add: reset_def)
next
  case (Destroy a)
  then obtain p where "lp_value m a = Some p" using ok by (auto simp: ownership_of_def)
  then obtain m' where "linked_ptr_depart a m = Some (Inr m')" "well_linked (forget a m')"
    "ownership_of m' = let_go a (ownership_of m)"
    using depart_releases [OF wl] by blast
  moreover have "ownership_of (forget a m') = point_to a None (ownership_of m')"
    by (simp add: ownership_of_def point_to_def)
  ultimately show ?thesis using Destroy by (simp add: linked_ptr_destroy_def forget_def)
qed

lemma exec_ops_refines:
  "well_linked m \<Longrightarrow> all_permitted ops (ownership_of m) \<Longrightarrow>
   \<exists>m'. exec_ops ops m = Some (Inr m') \<and> well_linked m' \<and>
        ownership_of m' = fold spec_op ops (ownership_of m)"
proof (induction ops arbitrary: m)
  case (Cons op ops)
  then obtain m' where "exec_op op m = Some (Inr m')" "well_linked m'"
    "ownership_of m' = spec_op op (ownership_of m)"
    using exec_op_refines [of m op] by auto
  with Cons.IH [of m'] Cons.prems show ?case by simp
qed simp

lemma well_linked_no_memory: "well_linked no_memory"
  by (simp add: well_linked_def no_memory_def owners_def)

text \<open>
  C33. The circular lists implement ownership counting: any client program that the header
  permits, run from empty memory, ends (neither walk round a circle runs forever, no
  assertion fails, nothing is deleted twice and no dead object is followed), and leaves the
  pointers and the allocated pointees that the specification without circles gives, where
  a pointee is freed exactly when the last pointer that owns it lets go.
\<close>

theorem linked_ptr_counts_owners:
  assumes "all_permitted ops (Map.empty, {})"
  shows "\<exists>m. exec_ops ops no_memory = Some (Inr m) \<and> well_linked m \<and>
             ownership_of m = fold spec_op ops (Map.empty, {})"
  using exec_ops_refines [OF well_linked_no_memory, of ops] assms
  by (simp add: ownership_of_def no_memory_def)

theorem linked_ptr_counts_owners_witness:
  "\<exists>m. exec_ops [New 7, Construct 1 (Some 7), Copy_construct 2 1, Construct 3 None, Assign 1 3, Destroy 2]
          no_memory = Some (Inr m) \<and>
       well_linked m \<and> pointees m = {} \<and> lp_value m 1 = Some None \<and> lp_value m 2 = None"
proof -
  let ?ops = "[New 7, Construct 1 (Some 7), Copy_construct 2 1, Construct 3 None, Assign 1 3, Destroy 2]"
  have o: "owners ((Map.empty :: nat \<rightharpoonup> nat option)) v = {}" for v by (simp add: owners_def)
  have "all_permitted ?ops (Map.empty, {})"
    by (simp add: point_to_def let_go_def raw_def o)
  moreover have "fold spec_op ?ops (Map.empty, {}) = ([1 \<mapsto> None, 3 \<mapsto> None], {})"
    by (auto simp: point_to_def let_go_def o fun_eq_iff)
  ultimately show ?thesis using linked_ptr_counts_owners [of ?ops] by (force simp: ownership_of_def)
qed

end
