(* ===== verification/Param_Generators.thy ===== *)
theory Param_Generators
  imports Prelude
begin

text \<open>
  The generators of test parameters, \<open>GoogleTestFramework/.../internal/gtest-param-util.h\<close>
  and the functions of \<open>gtest-param-test.h\<close> that make them. A generator is its table of
  virtual functions, over the states of its iterators; \<open>param_generator\<close> is the contract
  between a generator and the code that walks it: there is a list of parameters, every iterator
  is at a position of it, and the five operations move, read and compare positions. The contract
  is what the loop over a generator needs to visit the list in order and end; it is proved for
  \<open>ValuesIn\<close> and \<open>Range\<close> here and for \<open>Combine\<close> in \<open>Cartesian_Product\<close>.
  Every iterator carries the address of its generator, and comparing iterators of different
  generators is \<open>AssertFailed\<close> (a failed \<open>GTEST_CHECK_\<close>).
\<close>

primrec and_then :: "'a outcome \<Rightarrow> ('a \<Rightarrow> 'b outcome) \<Rightarrow> 'b outcome" where
  "and_then (Inl e) f = Inl e"
| "and_then (Inr x) f = f x"

subsection \<open>The interface\<close>

text \<open>
  \<open>Current\<close> returns the value and the iterator, because an iterator may fill a cache when
  it is read; \<open>Clone\<close> is what copying and assigning a \<open>ParamIterator\<close> call.
\<close>

record ('it, 'a) generator =
  Begin :: "'it outcome"
  End :: "'it outcome"
  Advance :: "'it \<Rightarrow> 'it outcome"
  Clone :: "'it \<Rightarrow> 'it outcome"
  Current :: "'it \<Rightarrow> ('a \<times> 'it) outcome"
  Equals :: "'it \<Rightarrow> 'it \<Rightarrow> bool outcome"

text \<open>
  \<open>ParamIterator\<close> owns the state of one iterator. Two iterators hold the same state object
  only if they are the same iterator, which \<open>same_object\<close> says.
\<close>

definition iterator_copy :: "('it, 'a) generator \<Rightarrow> 'it \<Rightarrow> 'it outcome" where
  "iterator_copy g other = Clone g other"

definition iterator_assign :: "('it, 'a) generator \<Rightarrow> bool \<Rightarrow> 'it \<Rightarrow> 'it \<Rightarrow> 'it outcome" where
  "iterator_assign g same_object it other = (if \<not> same_object then Clone g other else Inr it)"

definition iterator_deref :: "('it, 'a) generator \<Rightarrow> 'it \<Rightarrow> ('a \<times> 'it) outcome" where
  "iterator_deref g it = Current g it"

definition iterator_incr :: "('it, 'a) generator \<Rightarrow> 'it \<Rightarrow> 'it outcome" where
  "iterator_incr g it = Advance g it"

definition iterator_post_incr :: "('it, 'a) generator \<Rightarrow> 'it \<Rightarrow> ('it \<times> 'it) outcome" where
  "iterator_post_incr g it =
     and_then (Clone g it) (\<lambda>clone. and_then (Advance g it) (\<lambda>it'. Inr (clone, it')))"

definition iterator_eq :: "('it, 'a) generator \<Rightarrow> bool \<Rightarrow> 'it \<Rightarrow> 'it \<Rightarrow> bool outcome" where
  "iterator_eq g same_object it other = (if same_object then Inr True else Equals g it other)"

definition iterator_neq :: "('it, 'a) generator \<Rightarrow> bool \<Rightarrow> 'it \<Rightarrow> 'it \<Rightarrow> bool outcome" where
  "iterator_neq g same_object it other =
     and_then (iterator_eq g same_object it other) (\<lambda>b. Inr (\<not> b))"

definition generator_begin :: "('it, 'a) generator \<Rightarrow> 'it outcome" where
  "generator_begin g = Begin g"

definition generator_end :: "('it, 'a) generator \<Rightarrow> 'it outcome" where
  "generator_end g = End g"

lemmas iterator_defs =
  iterator_copy_def iterator_assign_def iterator_deref_def iterator_incr_def
  iterator_post_incr_def iterator_eq_def iterator_neq_def generator_begin_def generator_end_def

subsection \<open>Walking a generator\<close>

text \<open>
  The loop \<open>for (it = g.begin(); it != g.end(); ++it)\<close> with a body that reads
  \<open>*it\<close> and changes the state of the program; the body may stop the program.
\<close>

partial_function (option) walk ::
  "('it, 'a) generator \<Rightarrow> ('a \<Rightarrow> 's \<Rightarrow> 's outcome) \<Rightarrow> 'it \<Rightarrow> 's \<Rightarrow> 's outcome option" where
  "walk g body it s =
     (case and_then (generator_end g) (iterator_neq g False it) of
        Inl e \<Rightarrow> Some (Inl e)
      | Inr going \<Rightarrow>
          if \<not> going then Some (Inr s)
          else (case and_then (iterator_deref g it) (\<lambda>(x, it').
                       and_then (body x s) (\<lambda>s'.
                       and_then (iterator_incr g it') (\<lambda>it''. Inr (it'', s')))) of
                  Inl e \<Rightarrow> Some (Inl e)
                | Inr r \<Rightarrow> walk g body (fst r) (snd r)))"

definition for_each_param :: "('it, 'a) generator \<Rightarrow> ('a \<Rightarrow> 's \<Rightarrow> 's outcome) \<Rightarrow> 's \<Rightarrow> 's outcome option" where
  "for_each_param g body s =
     (case generator_begin g of Inl e \<Rightarrow> Some (Inl e) | Inr it \<Rightarrow> walk g body it s)"

text \<open>What the loop should do: run the body on the parameters in order.\<close>

fun run_over :: "('a \<Rightarrow> 's \<Rightarrow> 's outcome) \<Rightarrow> 'a list \<Rightarrow> 's \<Rightarrow> 's outcome" where
  "run_over body [] s = Inr s"
| "run_over body (x # xs) s = and_then (body x s) (run_over body xs)"

locale param_generator =
  fixes g :: "('it, 'a) generator"
    and at :: "'it \<Rightarrow> nat \<Rightarrow> bool"
    and params :: "'a list"
  assumes begin_at: "\<exists>it. Begin g = Inr it \<and> at it 0"
    and end_at: "\<exists>it. End g = Inr it \<and> at it (length params)"
    and advance_at: "at it i \<Longrightarrow> i < length params \<Longrightarrow> \<exists>it'. Advance g it = Inr it' \<and> at it' (Suc i)"
    and clone_at: "at it i \<Longrightarrow> \<exists>it'. Clone g it = Inr it' \<and> at it' i"
    and current_at: "at it i \<Longrightarrow> i < length params \<Longrightarrow>
                     \<exists>it'. Current g it = Inr (params ! i, it') \<and> at it' i"
    and equals_at: "at it i \<Longrightarrow> at jt j \<Longrightarrow> Equals g it jt = Inr (i = j)"
    and at_bound: "at it i \<Longrightarrow> i \<le> length params"
begin

lemma neq_end:
  assumes "at it i"
  shows "and_then (generator_end g) (iterator_neq g False it) = Inr (i \<noteq> length params)"
proof -
  obtain et where "End g = Inr et" "at et (length params)" using end_at by blast
  then show ?thesis using equals_at [OF assms] by (simp add: iterator_defs)
qed

lemma walk_at:
  "at it i \<Longrightarrow> walk g body it s = Some (run_over body (drop i params) s)"
proof (induction "length params - i" arbitrary: it i s)
  case 0
  then have "i = length params" using at_bound [OF \<open>at it i\<close>] by simp
  with 0 show ?case by (subst walk.simps) (simp add: neq_end)
next
  case (Suc n)
  then have i: "i < length params" by simp
  obtain it' where c: "Current g it = Inr (params ! i, it')" "at it' i"
    using current_at Suc.prems i by blast
  obtain it'' where a: "Advance g it' = Inr it''" "at it'' (Suc i)"
    using advance_at [OF c(2) i] by blast
  have d: "drop i params = params ! i # drop (Suc i) params" using i by (simp add: Cons_nth_drop_Suc)
  have IH: "walk g body it'' s' = Some (run_over body (drop (Suc i) params) s')" for s'
    using Suc.hyps a(2) by simp
  show ?case
    using i Suc.prems a(1) c(1) IH
    by (subst walk.simps) (cases "body (params ! i) s"; simp add: neq_end d iterator_deref_def iterator_incr_def)
qed

text \<open>The loop ends and runs its body on every parameter, in order.\<close>

lemma for_each_runs: "for_each_param g body s = Some (run_over body params s)"
  unfolding for_each_param_def generator_begin_def using begin_at by (auto simp: walk_at)

text \<open>A post-increment returns the old position.\<close>

lemma post_incr_at:
  assumes "at it i" "i < length params"
  shows "\<exists>old new. iterator_post_incr g it = Inr (old, new) \<and> at old i \<and> at new (Suc i)"
proof -
  obtain it' jt where "Clone g it = Inr it'" "at it' i" "Advance g it = Inr jt" "at jt (Suc i)"
    using assms clone_at advance_at by blast
  then show ?thesis by (simp add: iterator_defs)
qed

end

subsection \<open>\<open>ValuesInIteratorRangeGenerator\<close>\<close>

record 'a values_iterator =
  vi_base :: nat
  vi_iterator :: nat
  vi_value :: "'a option"

definition values_iterator_new :: "nat \<Rightarrow> nat \<Rightarrow> 'a values_iterator" where
  "values_iterator_new base iterator = \<lparr>vi_base = base, vi_iterator = iterator, vi_value = None\<rparr>"

definition values_Advance :: "'a list \<Rightarrow> 'a values_iterator \<Rightarrow> 'a values_iterator outcome" where
  "values_Advance container it =
     (if vi_iterator it < length container
      then Inr (it\<lparr>vi_iterator := vi_iterator it + 1, vi_value := None\<rparr>)
      else Inl Undefined)"

definition values_Clone :: "'a values_iterator \<Rightarrow> 'a values_iterator outcome" where
  "values_Clone other = Inr (values_iterator_new (vi_base other) (vi_iterator other))"

definition values_Current :: "'a list \<Rightarrow> 'a values_iterator \<Rightarrow> ('a \<times> 'a values_iterator) outcome" where
  "values_Current container it =
     (case vi_value it of
        Some v \<Rightarrow> Inr (v, it)
      | None \<Rightarrow>
          if vi_iterator it < length container
          then (let v = container ! vi_iterator it in Inr (v, it\<lparr>vi_value := Some v\<rparr>))
          else Inl Undefined)"

definition values_Equals :: "'a values_iterator \<Rightarrow> 'a values_iterator \<Rightarrow> bool outcome" where
  "values_Equals it other =
     (if vi_base it = vi_base other then Inr (vi_iterator it = vi_iterator other) else Inl AssertFailed)"

text \<open>The generator at address \<open>this\<close>; its container is a copy of the source range.\<close>

definition ValuesIn :: "nat \<Rightarrow> 'a list \<Rightarrow> ('a values_iterator, 'a) generator" where
  "ValuesIn this container =
     \<lparr>Begin = Inr (values_iterator_new this 0),
      End = Inr (values_iterator_new this (length container)),
      Advance = values_Advance container,
      Clone = values_Clone,
      Current = values_Current container,
      Equals = values_Equals\<rparr>"

lemmas values_defs =
  ValuesIn_def values_iterator_new_def values_Advance_def values_Clone_def values_Current_def values_Equals_def

text \<open>An iterator is where its index says, and what it has cached is the value there.\<close>

definition values_at :: "nat \<Rightarrow> 'a list \<Rightarrow> 'a values_iterator \<Rightarrow> nat \<Rightarrow> bool" where
  "values_at this xs it i \<longleftrightarrow>
     vi_base it = this \<and> vi_iterator it = i \<and> i \<le> length xs \<and>
     (case vi_value it of None \<Rightarrow> True | Some v \<Rightarrow> i < length xs \<and> v = xs ! i)"

interpretation values_in: param_generator "ValuesIn this xs" "values_at this xs" xs
  by unfold_locales (auto simp: values_defs values_at_def Let_def split: option.splits)

subsection \<open>\<open>RangeGenerator\<close>\<close>

text \<open>
  The type of the values is a parameter of the template: \<open>add\<close> is
  \<open>static_cast<T>(value + step)\<close> of that type and \<open>lt\<close> its \<open>operator<\<close>.
\<close>

record ('t, 's) range_iterator =
  ri_base :: nat
  ri_value :: 't
  ri_index :: int
  ri_step :: 's

partial_function (option) end_index_loop ::
  "('t \<Rightarrow> 's \<Rightarrow> 't outcome) \<Rightarrow> ('t \<Rightarrow> 't \<Rightarrow> bool) \<Rightarrow> 't \<Rightarrow> 's \<Rightarrow> 't \<Rightarrow> int \<Rightarrow> int outcome option" where
  "end_index_loop add lt end step i end_index =
     (if lt i end
      then (if end_index = int_max then Some (Inl Undefined)
            else (case add i step of
                    Inl e \<Rightarrow> Some (Inl e)
                  | Inr i' \<Rightarrow> end_index_loop add lt end step i' (end_index + 1)))
      else Some (Inr end_index))"

definition CalculateEndIndex ::
  "('t \<Rightarrow> 's \<Rightarrow> 't outcome) \<Rightarrow> ('t \<Rightarrow> 't \<Rightarrow> bool) \<Rightarrow> 't \<Rightarrow> 't \<Rightarrow> 's \<Rightarrow> int outcome option" where
  "CalculateEndIndex add lt begin end step = end_index_loop add lt end step begin 0"

definition range_Advance ::
  "('t \<Rightarrow> 's \<Rightarrow> 't outcome) \<Rightarrow> ('t, 's) range_iterator \<Rightarrow> ('t, 's) range_iterator outcome" where
  "range_Advance add it =
     and_then (add (ri_value it) (ri_step it)) (\<lambda>v.
       if ri_index it = int_max then Inl Undefined
       else Inr (it\<lparr>ri_value := v, ri_index := ri_index it + 1\<rparr>))"

definition range_Clone :: "('t, 's) range_iterator \<Rightarrow> ('t, 's) range_iterator outcome" where
  "range_Clone other =
     Inr \<lparr>ri_base = ri_base other, ri_value = ri_value other, ri_index = ri_index other, ri_step = ri_step other\<rparr>"

definition range_Current :: "('t, 's) range_iterator \<Rightarrow> ('t \<times> ('t, 's) range_iterator) outcome" where
  "range_Current it = Inr (ri_value it, it)"

definition range_Equals :: "('t, 's) range_iterator \<Rightarrow> ('t, 's) range_iterator \<Rightarrow> bool outcome" where
  "range_Equals it other =
     (if ri_base it = ri_base other then Inr (ri_index it = ri_index other) else Inl AssertFailed)"

text \<open>Constructing the generator counts its elements, which is where it can fail or not return.\<close>

definition RangeGenerator ::
  "('t \<Rightarrow> 's \<Rightarrow> 't outcome) \<Rightarrow> ('t \<Rightarrow> 't \<Rightarrow> bool) \<Rightarrow> nat \<Rightarrow> 't \<Rightarrow> 't \<Rightarrow> 's \<Rightarrow>
   (('t, 's) range_iterator, 't) generator outcome option" where
  "RangeGenerator add lt this begin end step =
     map_option (map_sum id (\<lambda>end_index.
       \<lparr>Begin = Inr \<lparr>ri_base = this, ri_value = begin, ri_index = 0, ri_step = step\<rparr>,
        End = Inr \<lparr>ri_base = this, ri_value = end, ri_index = end_index, ri_step = step\<rparr>,
        Advance = range_Advance add,
        Clone = range_Clone,
        Current = range_Current,
        Equals = range_Equals\<rparr>))
     (CalculateEndIndex add lt begin end step)"

text \<open>\<open>Range(start, end, step)\<close> and \<open>Range(start, end)\<close> on \<open>int\<close>: signed addition must not overflow.\<close>

definition int_plus :: "int \<Rightarrow> int \<Rightarrow> int outcome" where
  "int_plus x y = (if is_int (x + y) then Inr (x + y) else Inl Undefined)"

definition Range3 :: "nat \<Rightarrow> int \<Rightarrow> int \<Rightarrow> int \<Rightarrow> ((int, int) range_iterator, int) generator outcome option" where
  "Range3 this start end step = RangeGenerator int_plus (<) this start end step"

definition Range2 :: "nat \<Rightarrow> int \<Rightarrow> int \<Rightarrow> ((int, int) range_iterator, int) generator outcome option" where
  "Range2 this start end = Range3 this start end 1"

subsubsection \<open>What a range holds\<close>

text \<open>\<open>stepping\<close>: the loop that starts at \<open>i\<close> passes through exactly \<open>vs\<close> before it stops.\<close>

primrec stepping ::
  "('t \<Rightarrow> 's \<Rightarrow> 't outcome) \<Rightarrow> ('t \<Rightarrow> 't \<Rightarrow> bool) \<Rightarrow> 't \<Rightarrow> 's \<Rightarrow> 't \<Rightarrow> 't list \<Rightarrow> bool" where
  "stepping add lt end step i [] \<longleftrightarrow> \<not> lt i end"
| "stepping add lt end step i (v # vs) \<longleftrightarrow>
     v = i \<and> lt i end \<and> (\<exists>j. add i step = Inr j \<and> stepping add lt end step j vs)"

lemma end_index_loop_stepping:
  "stepping add lt end step i vs \<Longrightarrow> k + int (length vs) \<le> int_max \<Longrightarrow>
   end_index_loop add lt end step i k = Some (Inr (k + int (length vs)))"
  by (induction vs arbitrary: i k) (subst end_index_loop.simps, force)+

lemma stepping_nth:
  "stepping add lt end step i vs \<Longrightarrow> n < length vs \<Longrightarrow>
   \<exists>v. add (vs ! n) step = Inr v \<and> (Suc n < length vs \<longrightarrow> v = vs ! Suc n)"
proof (induction vs arbitrary: i n)
  case (Cons v vs)
  then show ?case by (cases n; cases vs) auto
qed simp

lemma stepping_hd: "stepping add lt end step i vs \<Longrightarrow> 0 < length vs \<Longrightarrow> vs ! 0 = i"
  by (cases vs) auto

definition range_at :: "nat \<Rightarrow> 's \<Rightarrow> 't list \<Rightarrow> ('t, 's) range_iterator \<Rightarrow> nat \<Rightarrow> bool" where
  "range_at this step vs it i \<longleftrightarrow>
     ri_base it = this \<and> ri_step it = step \<and> ri_index it = int i \<and> i \<le> length vs \<and>
     (i < length vs \<longrightarrow> ri_value it = vs ! i)"

lemma range_is_generator:
  assumes vs: "stepping add lt end step begin vs" and n: "int (length vs) \<le> int_max"
  shows "\<exists>g. RangeGenerator add lt this begin end step = Some (Inr g) \<and>
             param_generator g (range_at this step vs) vs"
proof -
  let ?g = "\<lparr>Begin = Inr \<lparr>ri_base = this, ri_value = begin, ri_index = 0, ri_step = step\<rparr>,
             End = Inr \<lparr>ri_base = this, ri_value = end, ri_index = int (length vs), ri_step = step\<rparr>,
             Advance = range_Advance add, Clone = range_Clone, Current = range_Current, Equals = range_Equals\<rparr>"
  have "RangeGenerator add lt this begin end step = Some (Inr ?g)"
    using end_index_loop_stepping [OF vs, of 0] n by (simp add: RangeGenerator_def CalculateEndIndex_def)
  moreover have "param_generator ?g (range_at this step vs) vs"
  proof
    fix it i assume at: "range_at this step vs it i" and i: "i < length vs"
    obtain v where v: "add (vs ! i) step = Inr v" "Suc i < length vs \<longrightarrow> v = vs ! Suc i"
      using stepping_nth [OF vs i] by blast
    show "\<exists>it'. Advance ?g it = Inr it' \<and> range_at this step vs it' (Suc i)"
      using at i v n by (auto simp: range_at_def range_Advance_def)
  qed (use stepping_hd [OF vs] in \<open>auto simp: range_at_def range_Clone_def range_Current_def range_Equals_def\<close>)
  ultimately show ?thesis by blast
qed

text \<open>On \<open>int\<close> the range is the arithmetic progression from \<open>b\<close> that stays below \<open>e\<close>.\<close>

definition range_values :: "int \<Rightarrow> int \<Rightarrow> int \<Rightarrow> int list" where
  "range_values b e s = map (\<lambda>k. b + int k * s) [0..<nat ((e - b + s - 1) div s)]"

lemma stepping_progression:
  assumes s: "0 < s" and e: "e - 1 + s \<le> int_max"
  shows "int_min \<le> b \<Longrightarrow> (\<forall>k<n. b + int k * s < e) \<Longrightarrow> e \<le> b + int n * s \<Longrightarrow>
         stepping int_plus (<) e s b (map (\<lambda>k. b + int k * s) [0..<n])"
proof (induction n arbitrary: b)
  case (Suc n)
  have "b < e" using Suc.prems(2) by force
  moreover have "stepping int_plus (<) e s (b + s) (map (\<lambda>k. b + s + int k * s) [0..<n])"
    using Suc.prems s by (intro Suc.IH) (auto simp: algebra_simps dest: spec [of _ "Suc k" for k])
  moreover have "map (\<lambda>k. b + int k * s) [0..<Suc n] = b # map (\<lambda>k. b + s + int k * s) [0..<n]"
    by (simp only: map_upt_Suc) (simp add: algebra_simps)
  moreover have "int_plus b s = Inr (b + s)" using \<open>b < e\<close> Suc.prems(1) s e by (simp add: int_plus_def)
  ultimately show ?case by (simp del: upt_Suc)
qed simp

lemma progression_bounds:
  fixes b e s :: int
  assumes s: "0 < s"
  defines "q \<equiv> (e - b + s - 1) div s"
  shows "\<forall>k<nat q. b + int k * s < e" "e \<le> b + int (nat q) * s"
proof -
  have q: "q * s \<le> e - b + s - 1" "e - b + s - 1 < (q + 1) * s"
    using div_mult_mod_eq [of "e - b + s - 1" s] pos_mod_bound [OF s, of "e - b + s - 1"]
      pos_mod_sign [OF s, of "e - b + s - 1"]
    unfolding q_def [symmetric] distrib_right by linarith+
  show "\<forall>k<nat q. b + int k * s < e"
  proof (intro allI impI)
    fix k assume "k < nat q"
    then have "(int k + 1) * s \<le> q * s" using s by (intro mult_right_mono) auto
    with q(1) show "b + int k * s < e" by (simp add: algebra_simps)
  qed
  show "e \<le> b + int (nat q) * s"
  proof (cases "0 \<le> q")
    case True
    with q(2) show ?thesis by (simp add: algebra_simps)
  next
    case False
    then have "(q + 1) * s \<le> 0" using s by (intro mult_nonpos_nonneg) auto
    with q(2) False s show ?thesis by simp
  qed
qed

text \<open>
  \<open>testing::Range\<close> on \<open>int\<close> with a positive step: where the addition past the
  last element and the number of elements fit an \<open>int\<close>, the constructor returns, and
  a loop over the generator runs its body on exactly the arithmetic progression from
  \<open>b\<close> that stays below \<open>e\<close>, in order, and ends.
\<close>

theorem Range_enumerates:
  assumes "0 < s" "is_int b" "e - 1 + s \<le> int_max" "int (length (range_values b e s)) \<le> int_max"
  shows "\<exists>g. Range3 this b e s = Some (Inr g) \<and>
             (\<forall>body st. for_each_param g body st = Some (run_over body (range_values b e s) st))"
proof -
  have "stepping int_plus (<) e s b (range_values b e s)"
    unfolding range_values_def using assms progression_bounds [of s e b]
    by (intro stepping_progression) auto
  then obtain g where g: "Range3 this b e s = Some (Inr g)"
    "param_generator g (range_at this s (range_values b e s)) (range_values b e s)"
    using range_is_generator [of int_plus "(<)" e s b "range_values b e s" this] assms(4)
    unfolding Range3_def by blast
  show ?thesis by (intro exI [of _ g] conjI allI g(1) param_generator.for_each_runs [OF g(2)])
qed

theorem Range_enumerates_witness:
  "\<exists>g. Range3 9 1 9 2 = Some (Inr g) \<and>
       (\<forall>body (st :: nat). for_each_param g body st = Some (run_over body [1, 3, 5, 7] st))"
proof -
  have "range_values 1 9 2 = [1, 3, 5, 7]" by (simp add: range_values_def upt_conv_Cons)
  then show ?thesis
    using Range_enumerates [of 2 1 9 9] by (simp add: int_range_defs del: run_over.simps)
qed

end
