(* ===== verification/Cartesian_Product.thy ===== *)
theory Cartesian_Product
  imports Param_Generators
begin

text \<open>
  \<open>testing::Combine\<close>: \<open>CartesianProductGenerator2\<close> and
  \<open>CartesianProductGenerator3\<close> of
  \<open>GoogleTestFramework/.../internal/gtest-param-util-generated.h\<close>. An iterator of the
  product is an odometer over iterators of the component generators: advancing moves the last
  component and carries to the left, and the product is at its end as soon as one component is.
  The product keeps the contract \<open>param_generator\<close> of its components, so a loop over it
  visits the tuples in lexicographic order; the two locales state what is needed of the components
  and their \<open>sublocale\<close>s what the product gives.
\<close>

subsection \<open>Two components\<close>

record ('i, 'j, 'a, 'b) iterator2 =
  base2 :: nat
  i2_begin1 :: 'i
  i2_end1 :: 'i
  i2_current1 :: 'i
  i2_begin2 :: 'j
  i2_end2 :: 'j
  i2_current2 :: 'j
  current_value2 :: "('a \<times> 'b) option"

definition AtEnd2 ::
  "('i, 'a) generator \<Rightarrow> ('j, 'b) generator \<Rightarrow> ('i, 'j, 'a, 'b) iterator2 \<Rightarrow> bool outcome" where
  "AtEnd2 g1 g2 it =
     and_then (iterator_eq g1 False (i2_current1 it) (i2_end1 it)) (\<lambda>e1.
       if e1 then Inr True else iterator_eq g2 False (i2_current2 it) (i2_end2 it))"

definition ComputeCurrentValue2 ::
  "('i, 'a) generator \<Rightarrow> ('j, 'b) generator \<Rightarrow> ('i, 'j, 'a, 'b) iterator2 \<Rightarrow>
   ('i, 'j, 'a, 'b) iterator2 outcome" where
  "ComputeCurrentValue2 g1 g2 it =
     and_then (AtEnd2 g1 g2 it) (\<lambda>at_end.
       if at_end then Inr it
       else and_then (iterator_deref g1 (i2_current1 it)) (\<lambda>(x, c1).
            and_then (iterator_deref g2 (i2_current2 it)) (\<lambda>(y, c2).
              Inr (it\<lparr>i2_current1 := c1, i2_current2 := c2, current_value2 := Some (x, y)\<rparr>))))"

definition iterator2_new ::
  "('i, 'a) generator \<Rightarrow> ('j, 'b) generator \<Rightarrow> nat \<Rightarrow> 'i \<Rightarrow> 'j \<Rightarrow> ('i, 'j, 'a, 'b) iterator2 outcome" where
  "iterator2_new g1 g2 base current1 current2 =
     and_then (generator_begin g1) (\<lambda>b1. and_then (generator_end g1) (\<lambda>e1.
     and_then (iterator_copy g1 current1) (\<lambda>c1.
     and_then (generator_begin g2) (\<lambda>b2. and_then (generator_end g2) (\<lambda>e2.
     and_then (iterator_copy g2 current2) (\<lambda>c2.
       ComputeCurrentValue2 g1 g2
         \<lparr>base2 = base, i2_begin1 = b1, i2_end1 = e1, i2_current1 = c1,
          i2_begin2 = b2, i2_end2 = e2, i2_current2 = c2, current_value2 = None\<rparr>))))))"

definition Advance2 ::
  "('i, 'a) generator \<Rightarrow> ('j, 'b) generator \<Rightarrow> ('i, 'j, 'a, 'b) iterator2 \<Rightarrow>
   ('i, 'j, 'a, 'b) iterator2 outcome" where
  "Advance2 g1 g2 it =
     and_then (AtEnd2 g1 g2 it) (\<lambda>at_end.
       if at_end then Inl AssertFailed
       else and_then (iterator_incr g2 (i2_current2 it)) (\<lambda>c2.
            and_then (iterator_eq g2 False c2 (i2_end2 it)) (\<lambda>carry.
              if carry
              then and_then (iterator_assign g2 False c2 (i2_begin2 it)) (\<lambda>c2'.
                   and_then (iterator_incr g1 (i2_current1 it)) (\<lambda>c1.
                     ComputeCurrentValue2 g1 g2 (it\<lparr>i2_current1 := c1, i2_current2 := c2'\<rparr>)))
              else ComputeCurrentValue2 g1 g2 (it\<lparr>i2_current2 := c2\<rparr>))))"

definition Clone2 ::
  "('i, 'a) generator \<Rightarrow> ('j, 'b) generator \<Rightarrow> ('i, 'j, 'a, 'b) iterator2 \<Rightarrow>
   ('i, 'j, 'a, 'b) iterator2 outcome" where
  "Clone2 g1 g2 other =
     and_then (iterator_copy g1 (i2_begin1 other)) (\<lambda>b1. and_then (iterator_copy g1 (i2_end1 other)) (\<lambda>e1.
     and_then (iterator_copy g1 (i2_current1 other)) (\<lambda>c1.
     and_then (iterator_copy g2 (i2_begin2 other)) (\<lambda>b2. and_then (iterator_copy g2 (i2_end2 other)) (\<lambda>e2.
     and_then (iterator_copy g2 (i2_current2 other)) (\<lambda>c2.
       ComputeCurrentValue2 g1 g2
         \<lparr>base2 = base2 other, i2_begin1 = b1, i2_end1 = e1, i2_current1 = c1,
          i2_begin2 = b2, i2_end2 = e2, i2_current2 = c2, current_value2 = None\<rparr>))))))"

definition Current2 :: "('i, 'j, 'a, 'b) iterator2 \<Rightarrow> (('a \<times> 'b) \<times> ('i, 'j, 'a, 'b) iterator2) outcome" where
  "Current2 it = (case current_value2 it of None \<Rightarrow> Inl Undefined | Some v \<Rightarrow> Inr (v, it))"

definition Equals2 ::
  "('i, 'a) generator \<Rightarrow> ('j, 'b) generator \<Rightarrow> ('i, 'j, 'a, 'b) iterator2 \<Rightarrow>
   ('i, 'j, 'a, 'b) iterator2 \<Rightarrow> bool outcome" where
  "Equals2 g1 g2 it other =
     (if base2 it \<noteq> base2 other then Inl AssertFailed
      else and_then (AtEnd2 g1 g2 it) (\<lambda>a.
           and_then (if a then AtEnd2 g1 g2 other else Inr False) (\<lambda>both.
             if both then Inr True
             else and_then (iterator_eq g1 False (i2_current1 it) (i2_current1 other)) (\<lambda>same1.
                    if same1 then iterator_eq g2 False (i2_current2 it) (i2_current2 other) else Inr False))))"

definition Combine2 ::
  "nat \<Rightarrow> ('i, 'a) generator \<Rightarrow> ('j, 'b) generator \<Rightarrow>
   (('i, 'j, 'a, 'b) iterator2, 'a \<times> 'b) generator" where
  "Combine2 this g1 g2 =
     \<lparr>Begin = and_then (generator_begin g1) (\<lambda>c1. and_then (generator_begin g2) (iterator2_new g1 g2 this c1)),
      End = and_then (generator_end g1) (\<lambda>c1. and_then (generator_end g2) (iterator2_new g1 g2 this c1)),
      Advance = Advance2 g1 g2,
      Clone = Clone2 g1 g2,
      Current = Current2,
      Equals = Equals2 g1 g2\<rparr>"

subsection \<open>Positions in a product\<close>

text \<open>\<open>slot m n i j\<close> is where the pair of positions \<open>i\<close>, \<open>j\<close> stands in a product of \<open>m\<close> by \<open>n\<close>;
  all pairs with one component at its end stand at the end.\<close>

definition slot :: "nat \<Rightarrow> nat \<Rightarrow> nat \<Rightarrow> nat \<Rightarrow> nat" where
  "slot m n i j = (if i < m \<and> j < n then i * n + j else m * n)"

lemma slot_less: "i < m \<Longrightarrow> j < n \<Longrightarrow> i * n + j < m * (n :: nat)"
proof -
  assume "i < m" "j < n"
  then have "i * n + j < Suc i * n" "Suc i * n \<le> m * n" by (simp, intro mult_right_mono, auto)
  then show ?thesis by linarith
qed

lemma row_div: "j < n \<Longrightarrow> (i * n + j) div n = (i :: nat)"
  using div_mult_self3 [of n i j] by simp

lemma row_eq: "j < n \<Longrightarrow> j' < n \<Longrightarrow> i * n + j = i' * n + j' \<longleftrightarrow> i = i' \<and> j = (j' :: nat)"
  by (metis row_div add_left_cancel)

lemma slot_inside [simp]: "slot m n i j < m * n \<longleftrightarrow> i < m \<and> j < n"
  using slot_less by (auto simp: slot_def)

lemma slot_bound: "slot m n i j \<le> m * n"
  using slot_less [of i m j n] by (auto simp: slot_def)

lemma slot_eq:
  "slot m n i j = slot m n i' j' \<longleftrightarrow>
   (i < m \<and> j < n \<or> i' < m \<and> j' < n \<longrightarrow> i = i' \<and> j = j')"
  using slot_less [of i m j n] slot_less [of i' m j' n]
  by (cases "i < m \<and> j < n"; cases "i' < m \<and> j' < n") (auto simp: slot_def row_eq)

lemma product_slot:
  "i < length xs \<Longrightarrow> j < length ys \<Longrightarrow>
   List.product xs ys ! slot (length xs) (length ys) i j = (xs ! i, ys ! j)"
  using slot_less [of i "length xs" j "length ys"] by (simp add: slot_def product_nth row_div)

lemma slot_next: "i < m \<Longrightarrow> Suc j < n \<Longrightarrow> slot m n i (Suc j) = Suc (slot m n i j)"
  by (simp add: slot_def)

lemma slot_carry: "i < m \<Longrightarrow> Suc j = n \<Longrightarrow> slot m n (Suc i) 0 = Suc (slot m n i j)"
  by (cases "Suc i = m") (auto simp: slot_def)

subsection \<open>The product of two keeps the contract\<close>

definition frame2 ::
  "('i \<Rightarrow> nat \<Rightarrow> bool) \<Rightarrow> nat \<Rightarrow> ('j \<Rightarrow> nat \<Rightarrow> bool) \<Rightarrow> nat \<Rightarrow> nat \<Rightarrow> ('i, 'j, 'a, 'b) iterator2 \<Rightarrow> bool" where
  "frame2 at1 m at2 n this it \<longleftrightarrow>
     base2 it = this \<and> at1 (i2_begin1 it) 0 \<and> at1 (i2_end1 it) m \<and>
     at2 (i2_begin2 it) 0 \<and> at2 (i2_end2 it) n"

definition odometer2 ::
  "nat \<Rightarrow> ('i \<Rightarrow> nat \<Rightarrow> bool) \<Rightarrow> 'a list \<Rightarrow> ('j \<Rightarrow> nat \<Rightarrow> bool) \<Rightarrow> 'b list \<Rightarrow>
   ('i, 'j, 'a, 'b) iterator2 \<Rightarrow> nat \<Rightarrow> bool" where
  "odometer2 this at1 xs at2 ys it k \<longleftrightarrow>
     frame2 at1 (length xs) at2 (length ys) this it \<and>
     (\<exists>i j. at1 (i2_current1 it) i \<and> at2 (i2_current2 it) j \<and>
            k = slot (length xs) (length ys) i j \<and>
            (i < length xs \<and> j < length ys \<longrightarrow> current_value2 it = Some (xs ! i, ys ! j)))"

locale two_generators =
  first: param_generator g1 at1 xs + second: param_generator g2 at2 ys
  for g1 :: "('i, 'a) generator" and at1 xs and g2 :: "('j, 'b) generator" and at2 ys +
  fixes this :: nat
begin

lemma AtEnd2_at:
  assumes "frame2 at1 (length xs) at2 (length ys) this it" "at1 (i2_current1 it) i" "at2 (i2_current2 it) j"
  shows "AtEnd2 g1 g2 it = Inr (\<not> (i < length xs \<and> j < length ys))"
  using assms first.equals_at [of "i2_current1 it" i "i2_end1 it" "length xs"]
    second.equals_at [of "i2_current2 it" j "i2_end2 it" "length ys"]
    first.at_bound [of "i2_current1 it" i] second.at_bound [of "i2_current2 it" j]
  by (auto simp: AtEnd2_def frame2_def iterator_eq_def)

lemma ComputeCurrentValue2_at:
  assumes f: "frame2 at1 (length xs) at2 (length ys) this it"
    and at: "at1 (i2_current1 it) i" "at2 (i2_current2 it) j"
  shows "\<exists>it'. ComputeCurrentValue2 g1 g2 it = Inr it' \<and>
               odometer2 this at1 xs at2 ys it' (slot (length xs) (length ys) i j)"
proof (cases "i < length xs \<and> j < length ys")
  case True
  then obtain c1 c2 where "Current g1 (i2_current1 it) = Inr (xs ! i, c1)" "at1 c1 i"
    "Current g2 (i2_current2 it) = Inr (ys ! j, c2)" "at2 c2 j"
    using first.current_at [OF at(1)] second.current_at [OF at(2)] by blast
  then show ?thesis
    using True AtEnd2_at [OF f at] f
    by (auto simp: ComputeCurrentValue2_def iterator_deref_def odometer2_def frame2_def)
next
  case False
  then show ?thesis
    using AtEnd2_at [OF f at] f at by (auto simp: ComputeCurrentValue2_def odometer2_def)
qed

lemma Advance2_at:
  assumes "odometer2 this at1 xs at2 ys it k" "k < length xs * length ys"
  shows "\<exists>it'. Advance2 g1 g2 it = Inr it' \<and> odometer2 this at1 xs at2 ys it' (Suc k)"
proof -
  obtain i j where f: "frame2 at1 (length xs) at2 (length ys) this it"
    and at: "at1 (i2_current1 it) i" "at2 (i2_current2 it) j"
    and k: "k = slot (length xs) (length ys) i j"
    using assms(1) unfolding odometer2_def by blast
  have ij: "i < length xs" "j < length ys"
    using assms(2) slot_inside [of "length xs" "length ys" i j] unfolding k by blast+
  obtain c2 where c2: "Advance g2 (i2_current2 it) = Inr c2" "at2 c2 (Suc j)"
    using second.advance_at [OF at(2) ij(2)] by blast
  have carry: "Equals g2 c2 (i2_end2 it) = Inr (Suc j = length ys)"
    using second.equals_at [OF c2(2)] f by (simp add: frame2_def)
  have "at2 (i2_begin2 it) 0" using f by (simp add: frame2_def)
  then obtain c1 c2' where c: "Advance g1 (i2_current1 it) = Inr c1" "at1 c1 (Suc i)"
    "Clone g2 (i2_begin2 it) = Inr c2'" "at2 c2' 0"
    using first.advance_at [OF at(1) ij(1)] second.clone_at [of "i2_begin2 it" 0] by blast
  show ?thesis
  proof (cases "Suc j = length ys")
    case True
    let ?it = "it\<lparr>i2_current1 := c1, i2_current2 := c2'\<rparr>"
    have "frame2 at1 (length xs) at2 (length ys) this ?it" using f by (simp add: frame2_def)
    then have "\<exists>it'. ComputeCurrentValue2 g1 g2 ?it = Inr it' \<and> odometer2 this at1 xs at2 ys it' (Suc k)"
      using ComputeCurrentValue2_at [of ?it "Suc i" 0] c slot_carry [OF ij(1) True] k by simp
    moreover have "Advance2 g1 g2 it = ComputeCurrentValue2 g1 g2 ?it"
      using True c c2(1) carry ij AtEnd2_at [OF f at] by (simp add: Advance2_def iterator_defs)
    ultimately show ?thesis by simp
  next
    case False
    let ?it = "it\<lparr>i2_current2 := c2\<rparr>"
    have "frame2 at1 (length xs) at2 (length ys) this ?it" using f by (simp add: frame2_def)
    then have "\<exists>it'. ComputeCurrentValue2 g1 g2 ?it = Inr it' \<and> odometer2 this at1 xs at2 ys it' (Suc k)"
      using ComputeCurrentValue2_at [of ?it i "Suc j"] c2(2) at(1) slot_next [OF ij(1), of j] False ij(2) k by simp
    moreover have "Advance2 g1 g2 it = ComputeCurrentValue2 g1 g2 ?it"
      using False c2(1) carry ij AtEnd2_at [OF f at] by (simp add: Advance2_def iterator_defs)
    ultimately show ?thesis by simp
  qed
qed

lemma iterator2_new_at:
  assumes "at1 c1 i" "at2 c2 j"
  shows "\<exists>it. iterator2_new g1 g2 this c1 c2 = Inr it \<and>
              odometer2 this at1 xs at2 ys it (slot (length xs) (length ys) i j)"
proof -
  obtain b1 e1 d1 where 1: "Begin g1 = Inr b1" "at1 b1 0" "End g1 = Inr e1" "at1 e1 (length xs)"
    "Clone g1 c1 = Inr d1" "at1 d1 i"
    using first.begin_at first.end_at first.clone_at [OF assms(1)] by blast
  obtain b2 e2 d2 where 2: "Begin g2 = Inr b2" "at2 b2 0" "End g2 = Inr e2" "at2 e2 (length ys)"
    "Clone g2 c2 = Inr d2" "at2 d2 j"
    using second.begin_at second.end_at second.clone_at [OF assms(2)] by blast
  let ?it = "\<lparr>base2 = this, i2_begin1 = b1, i2_end1 = e1, i2_current1 = d1,
              i2_begin2 = b2, i2_end2 = e2, i2_current2 = d2, current_value2 = None\<rparr>"
  have "iterator2_new g1 g2 this c1 c2 = ComputeCurrentValue2 g1 g2 ?it"
    using 1 2 by (simp add: iterator2_new_def iterator_defs)
  then show ?thesis using ComputeCurrentValue2_at [of ?it i j] 1 2 by (simp add: frame2_def)
qed

lemma Clone2_at:
  assumes "odometer2 this at1 xs at2 ys it k"
  shows "\<exists>it'. Clone2 g1 g2 it = Inr it' \<and> odometer2 this at1 xs at2 ys it' k"
proof -
  obtain i j where f: "frame2 at1 (length xs) at2 (length ys) this it"
    and at: "at1 (i2_current1 it) i" "at2 (i2_current2 it) j"
    and k: "k = slot (length xs) (length ys) i j"
    using assms unfolding odometer2_def by blast
  obtain b1 e1 d1 where 1: "Clone g1 (i2_begin1 it) = Inr b1" "at1 b1 0"
    "Clone g1 (i2_end1 it) = Inr e1" "at1 e1 (length xs)" "Clone g1 (i2_current1 it) = Inr d1" "at1 d1 i"
    using first.clone_at at(1) f unfolding frame2_def by metis
  obtain b2 e2 d2 where 2: "Clone g2 (i2_begin2 it) = Inr b2" "at2 b2 0"
    "Clone g2 (i2_end2 it) = Inr e2" "at2 e2 (length ys)" "Clone g2 (i2_current2 it) = Inr d2" "at2 d2 j"
    using second.clone_at at(2) f unfolding frame2_def by metis
  let ?it = "\<lparr>base2 = base2 it, i2_begin1 = b1, i2_end1 = e1, i2_current1 = d1,
              i2_begin2 = b2, i2_end2 = e2, i2_current2 = d2, current_value2 = None\<rparr>"
  have "Clone2 g1 g2 it = ComputeCurrentValue2 g1 g2 ?it"
    using 1 2 by (simp add: Clone2_def iterator_defs)
  then show ?thesis using ComputeCurrentValue2_at [of ?it i j] 1 2 f unfolding k by (simp add: frame2_def)
qed

lemma Equals2_at:
  assumes "odometer2 this at1 xs at2 ys it k" "odometer2 this at1 xs at2 ys jt l"
  shows "Equals2 g1 g2 it jt = Inr (k = l)"
proof -
  obtain i j where f: "frame2 at1 (length xs) at2 (length ys) this it"
    and at: "at1 (i2_current1 it) i" "at2 (i2_current2 it) j"
    and k: "k = slot (length xs) (length ys) i j"
    using assms(1) unfolding odometer2_def by blast
  obtain i' j' where f': "frame2 at1 (length xs) at2 (length ys) this jt"
    and at': "at1 (i2_current1 jt) i'" "at2 (i2_current2 jt) j'"
    and l: "l = slot (length xs) (length ys) i' j'"
    using assms(2) unfolding odometer2_def by blast
  have "base2 it = base2 jt" using f f' by (simp add: frame2_def)
  then show ?thesis
    using AtEnd2_at [OF f at] AtEnd2_at [OF f' at'] first.equals_at [OF at(1) at'(1)]
      second.equals_at [OF at(2) at'(2)] unfolding k l slot_eq
    by (auto simp: Equals2_def iterator_eq_def)
qed

lemma Current2_at:
  assumes "odometer2 this at1 xs at2 ys it k" "k < length xs * length ys"
  shows "Current2 it = Inr (List.product xs ys ! k, it)"
proof -
  obtain i j where k: "k = slot (length xs) (length ys) i j"
    and v: "i < length xs \<and> j < length ys \<longrightarrow> current_value2 it = Some (xs ! i, ys ! j)"
    using assms(1) unfolding odometer2_def by blast
  have "i < length xs" "j < length ys"
    using assms(2) slot_inside [of "length xs" "length ys" i j] unfolding k by blast+
  then show ?thesis using v product_slot [of i xs j ys] unfolding k by (simp add: Current2_def)
qed

end

sublocale two_generators \<subseteq> combined: param_generator "Combine2 this g1 g2"
  "odometer2 this at1 xs at2 ys" "List.product xs ys"
proof
  have n: "length (List.product xs ys) = length xs * length ys" by simp
  have first_slot: "slot (length xs) (length ys) 0 0 = 0" by (auto simp: slot_def)
  have last_slot: "slot (length xs) (length ys) (length xs) (length ys) = length xs * length ys"
    by (simp add: slot_def)
  show "\<exists>it. Begin (Combine2 this g1 g2) = Inr it \<and> odometer2 this at1 xs at2 ys it 0"
    using first.begin_at second.begin_at iterator2_new_at [of _ 0 _ 0]
    unfolding first_slot by (force simp: Combine2_def iterator_defs)
  show "\<exists>it. End (Combine2 this g1 g2) = Inr it \<and>
             odometer2 this at1 xs at2 ys it (length (List.product xs ys))"
    using first.end_at second.end_at iterator2_new_at [of _ "length xs" _ "length ys"]
    unfolding last_slot n by (force simp: Combine2_def iterator_defs)
  fix it k jt l assume at: "odometer2 this at1 xs at2 ys it k"
  show "\<exists>it'. Clone (Combine2 this g1 g2) it = Inr it' \<and> odometer2 this at1 xs at2 ys it' k"
    using Clone2_at [OF at] by (simp add: Combine2_def)
  show "k \<le> length (List.product xs ys)"
    using at slot_bound unfolding odometer2_def n by blast
  show "Equals (Combine2 this g1 g2) it jt = Inr (k = l)" if "odometer2 this at1 xs at2 ys jt l"
    using Equals2_at [OF at that] by (simp add: Combine2_def)
  assume k: "k < length (List.product xs ys)"
  then show "\<exists>it'. Advance (Combine2 this g1 g2) it = Inr it' \<and> odometer2 this at1 xs at2 ys it' (Suc k)"
    using Advance2_at [OF at] by (simp add: Combine2_def)
  show "\<exists>it'. Current (Combine2 this g1 g2) it = Inr (List.product xs ys ! k, it') \<and>
              odometer2 this at1 xs at2 ys it' k"
    using Current2_at [OF at] k at by (simp add: Combine2_def)
qed

interpretation combine_values: two_generators
  "ValuesIn a xs" "values_at a xs" xs "ValuesIn b ys" "values_at b ys" ys c
  for a b c xs ys
  by unfold_locales

end
