(* ===== verification/Cartesian_Product3.thy ===== *)
theory Cartesian_Product3
  imports Cartesian_Product
begin

text \<open>
  \<open>CartesianProductGenerator3\<close> of
  \<open>GoogleTestFramework/.../internal/gtest-param-util-generated.h\<close>, the product of three
  generators, with the carry going through the middle component. The positions of an iterator are
  those of a product with a product, so the facts on \<open>slot\<close> of \<open>Cartesian_Product\<close> carry over.
\<close>

record ('i, 'j, 'k, 'a, 'b, 'c) iterator3 =
  base3 :: nat
  i3_begin1 :: 'i
  i3_end1 :: 'i
  i3_current1 :: 'i
  i3_begin2 :: 'j
  i3_end2 :: 'j
  i3_current2 :: 'j
  i3_begin3 :: 'k
  i3_end3 :: 'k
  i3_current3 :: 'k
  current_value3 :: "('a \<times> 'b \<times> 'c) option"

definition AtEnd3 ::
  "('i, 'a) generator \<Rightarrow> ('j, 'b) generator \<Rightarrow> ('k, 'c) generator \<Rightarrow>
   ('i, 'j, 'k, 'a, 'b, 'c) iterator3 \<Rightarrow> bool outcome" where
  "AtEnd3 g1 g2 g3 it =
     and_then (iterator_eq g1 False (i3_current1 it) (i3_end1 it)) (\<lambda>e1.
       if e1 then Inr True
       else and_then (iterator_eq g2 False (i3_current2 it) (i3_end2 it)) (\<lambda>e2.
         if e2 then Inr True else iterator_eq g3 False (i3_current3 it) (i3_end3 it)))"

definition ComputeCurrentValue3 ::
  "('i, 'a) generator \<Rightarrow> ('j, 'b) generator \<Rightarrow> ('k, 'c) generator \<Rightarrow>
   ('i, 'j, 'k, 'a, 'b, 'c) iterator3 \<Rightarrow> ('i, 'j, 'k, 'a, 'b, 'c) iterator3 outcome" where
  "ComputeCurrentValue3 g1 g2 g3 it =
     and_then (AtEnd3 g1 g2 g3 it) (\<lambda>at_end.
       if at_end then Inr it
       else and_then (iterator_deref g1 (i3_current1 it)) (\<lambda>(x, c1).
            and_then (iterator_deref g2 (i3_current2 it)) (\<lambda>(y, c2).
            and_then (iterator_deref g3 (i3_current3 it)) (\<lambda>(z, c3).
              Inr (it\<lparr>i3_current1 := c1, i3_current2 := c2, i3_current3 := c3,
                      current_value3 := Some (x, y, z)\<rparr>)))))"

definition iterator3_new ::
  "('i, 'a) generator \<Rightarrow> ('j, 'b) generator \<Rightarrow> ('k, 'c) generator \<Rightarrow> nat \<Rightarrow> 'i \<Rightarrow> 'j \<Rightarrow> 'k \<Rightarrow>
   ('i, 'j, 'k, 'a, 'b, 'c) iterator3 outcome" where
  "iterator3_new g1 g2 g3 base current1 current2 current3 =
     and_then (generator_begin g1) (\<lambda>b1. and_then (generator_end g1) (\<lambda>e1.
     and_then (iterator_copy g1 current1) (\<lambda>c1.
     and_then (generator_begin g2) (\<lambda>b2. and_then (generator_end g2) (\<lambda>e2.
     and_then (iterator_copy g2 current2) (\<lambda>c2.
     and_then (generator_begin g3) (\<lambda>b3. and_then (generator_end g3) (\<lambda>e3.
     and_then (iterator_copy g3 current3) (\<lambda>c3.
       ComputeCurrentValue3 g1 g2 g3
         \<lparr>base3 = base, i3_begin1 = b1, i3_end1 = e1, i3_current1 = c1,
          i3_begin2 = b2, i3_end2 = e2, i3_current2 = c2,
          i3_begin3 = b3, i3_end3 = e3, i3_current3 = c3, current_value3 = None\<rparr>)))))))))"

text \<open>\<open>Advance\<close>: the two carries are consecutive conditionals, not nested ones.\<close>

definition carry3 ::
  "('j, 'b) generator \<Rightarrow> ('k, 'c) generator \<Rightarrow> ('i, 'j, 'k, 'a, 'b, 'c) iterator3 \<Rightarrow>
   ('i, 'j, 'k, 'a, 'b, 'c) iterator3 outcome" where
  "carry3 g2 g3 it =
     and_then (iterator_eq g3 False (i3_current3 it) (i3_end3 it)) (\<lambda>carry.
       if carry
       then and_then (iterator_assign g3 False (i3_current3 it) (i3_begin3 it)) (\<lambda>c3.
            and_then (iterator_incr g2 (i3_current2 it)) (\<lambda>c2.
              Inr (it\<lparr>i3_current2 := c2, i3_current3 := c3\<rparr>)))
       else Inr it)"

definition carry2 ::
  "('i, 'a) generator \<Rightarrow> ('j, 'b) generator \<Rightarrow> ('i, 'j, 'k, 'a, 'b, 'c) iterator3 \<Rightarrow>
   ('i, 'j, 'k, 'a, 'b, 'c) iterator3 outcome" where
  "carry2 g1 g2 it =
     and_then (iterator_eq g2 False (i3_current2 it) (i3_end2 it)) (\<lambda>carry.
       if carry
       then and_then (iterator_assign g2 False (i3_current2 it) (i3_begin2 it)) (\<lambda>c2.
            and_then (iterator_incr g1 (i3_current1 it)) (\<lambda>c1.
              Inr (it\<lparr>i3_current1 := c1, i3_current2 := c2\<rparr>)))
       else Inr it)"

definition Advance3 ::
  "('i, 'a) generator \<Rightarrow> ('j, 'b) generator \<Rightarrow> ('k, 'c) generator \<Rightarrow>
   ('i, 'j, 'k, 'a, 'b, 'c) iterator3 \<Rightarrow> ('i, 'j, 'k, 'a, 'b, 'c) iterator3 outcome" where
  "Advance3 g1 g2 g3 it =
     and_then (AtEnd3 g1 g2 g3 it) (\<lambda>at_end.
       if at_end then Inl AssertFailed
       else and_then (iterator_incr g3 (i3_current3 it)) (\<lambda>c3.
            and_then (carry3 g2 g3 (it\<lparr>i3_current3 := c3\<rparr>)) (\<lambda>it1.
            and_then (carry2 g1 g2 it1) (ComputeCurrentValue3 g1 g2 g3))))"

definition Clone3 ::
  "('i, 'a) generator \<Rightarrow> ('j, 'b) generator \<Rightarrow> ('k, 'c) generator \<Rightarrow>
   ('i, 'j, 'k, 'a, 'b, 'c) iterator3 \<Rightarrow> ('i, 'j, 'k, 'a, 'b, 'c) iterator3 outcome" where
  "Clone3 g1 g2 g3 other =
     and_then (iterator_copy g1 (i3_begin1 other)) (\<lambda>b1. and_then (iterator_copy g1 (i3_end1 other)) (\<lambda>e1.
     and_then (iterator_copy g1 (i3_current1 other)) (\<lambda>c1.
     and_then (iterator_copy g2 (i3_begin2 other)) (\<lambda>b2. and_then (iterator_copy g2 (i3_end2 other)) (\<lambda>e2.
     and_then (iterator_copy g2 (i3_current2 other)) (\<lambda>c2.
     and_then (iterator_copy g3 (i3_begin3 other)) (\<lambda>b3. and_then (iterator_copy g3 (i3_end3 other)) (\<lambda>e3.
     and_then (iterator_copy g3 (i3_current3 other)) (\<lambda>c3.
       ComputeCurrentValue3 g1 g2 g3
         \<lparr>base3 = base3 other, i3_begin1 = b1, i3_end1 = e1, i3_current1 = c1,
          i3_begin2 = b2, i3_end2 = e2, i3_current2 = c2,
          i3_begin3 = b3, i3_end3 = e3, i3_current3 = c3, current_value3 = None\<rparr>)))))))))"

definition Current3 ::
  "('i, 'j, 'k, 'a, 'b, 'c) iterator3 \<Rightarrow>
   (('a \<times> 'b \<times> 'c) \<times> ('i, 'j, 'k, 'a, 'b, 'c) iterator3) outcome" where
  "Current3 it = (case current_value3 it of None \<Rightarrow> Inl Undefined | Some v \<Rightarrow> Inr (v, it))"

definition Equals3 ::
  "('i, 'a) generator \<Rightarrow> ('j, 'b) generator \<Rightarrow> ('k, 'c) generator \<Rightarrow>
   ('i, 'j, 'k, 'a, 'b, 'c) iterator3 \<Rightarrow> ('i, 'j, 'k, 'a, 'b, 'c) iterator3 \<Rightarrow> bool outcome" where
  "Equals3 g1 g2 g3 it other =
     (if base3 it \<noteq> base3 other then Inl AssertFailed
      else and_then (AtEnd3 g1 g2 g3 it) (\<lambda>a.
           and_then (if a then AtEnd3 g1 g2 g3 other else Inr False) (\<lambda>both.
             if both then Inr True
             else and_then (iterator_eq g1 False (i3_current1 it) (i3_current1 other)) (\<lambda>same1.
                    if same1
                    then and_then (iterator_eq g2 False (i3_current2 it) (i3_current2 other)) (\<lambda>same2.
                      if same2 then iterator_eq g3 False (i3_current3 it) (i3_current3 other) else Inr False)
                    else Inr False))))"

definition Combine3 ::
  "nat \<Rightarrow> ('i, 'a) generator \<Rightarrow> ('j, 'b) generator \<Rightarrow> ('k, 'c) generator \<Rightarrow>
   (('i, 'j, 'k, 'a, 'b, 'c) iterator3, 'a \<times> 'b \<times> 'c) generator" where
  "Combine3 this g1 g2 g3 =
     \<lparr>Begin = and_then (generator_begin g1) (\<lambda>c1. and_then (generator_begin g2) (\<lambda>c2.
                and_then (generator_begin g3) (iterator3_new g1 g2 g3 this c1 c2))),
      End = and_then (generator_end g1) (\<lambda>c1. and_then (generator_end g2) (\<lambda>c2.
              and_then (generator_end g3) (iterator3_new g1 g2 g3 this c1 c2))),
      Advance = Advance3 g1 g2 g3,
      Clone = Clone3 g1 g2 g3,
      Current = Current3,
      Equals = Equals3 g1 g2 g3\<rparr>"

subsection \<open>Positions\<close>

abbreviation slot3 :: "nat \<Rightarrow> nat \<Rightarrow> nat \<Rightarrow> nat \<Rightarrow> nat \<Rightarrow> nat \<Rightarrow> nat" where
  "slot3 l m n i j k \<equiv> slot l (m * n) i (slot m n j k)"

lemma slot3_eq:
  "slot3 l m n i j k = slot3 l m n i' j' k' \<longleftrightarrow>
   (i < l \<and> j < m \<and> k < n \<or> i' < l \<and> j' < m \<and> k' < n \<longrightarrow> i = i' \<and> j = j' \<and> k = k')"
  unfolding slot_eq [of l] slot_inside by (auto simp: slot_eq)

lemma slot3_next: "i < l \<Longrightarrow> j < m \<Longrightarrow> Suc k < n \<Longrightarrow> slot3 l m n i j (Suc k) = Suc (slot3 l m n i j k)"
  using slot_next [of i l "slot m n j k" "m * n"] slot_next [of j m k n] slot_inside [of m n j "Suc k"]
  by auto

lemma slot3_carry: "i < l \<Longrightarrow> Suc j < m \<Longrightarrow> Suc k = n \<Longrightarrow> slot3 l m n i (Suc j) 0 = Suc (slot3 l m n i j k)"
  using slot_next [of i l "slot m n j k" "m * n"] slot_carry [of j m k n] slot_inside [of m n "Suc j" 0]
  by auto

lemma slot3_carry_twice:
  assumes "i < l" "Suc j = m" "Suc k = n"
  shows "slot3 l m n (Suc i) 0 0 = Suc (slot3 l m n i j k)"
proof -
  have "Suc (slot m n j k) = m * n" "slot m n 0 0 = 0" using assms by (auto simp: slot_def)
  then show ?thesis using slot_carry [OF assms(1), of "slot m n j k" "m * n"] by simp
qed

subsection \<open>The product of three keeps the contract\<close>

definition dials ::
  "nat \<Rightarrow> ('i \<Rightarrow> nat \<Rightarrow> bool) \<Rightarrow> nat \<Rightarrow> ('j \<Rightarrow> nat \<Rightarrow> bool) \<Rightarrow> nat \<Rightarrow> ('k \<Rightarrow> nat \<Rightarrow> bool) \<Rightarrow> nat \<Rightarrow>
   ('i, 'j, 'k, 'a, 'b, 'c) iterator3 \<Rightarrow> nat \<Rightarrow> nat \<Rightarrow> nat \<Rightarrow> bool" where
  "dials this at1 l at2 m at3 n it i j k \<longleftrightarrow>
     base3 it = this \<and>
     at1 (i3_begin1 it) 0 \<and> at1 (i3_end1 it) l \<and> at1 (i3_current1 it) i \<and>
     at2 (i3_begin2 it) 0 \<and> at2 (i3_end2 it) m \<and> at2 (i3_current2 it) j \<and>
     at3 (i3_begin3 it) 0 \<and> at3 (i3_end3 it) n \<and> at3 (i3_current3 it) k"

definition odometer3 ::
  "nat \<Rightarrow> ('i \<Rightarrow> nat \<Rightarrow> bool) \<Rightarrow> 'a list \<Rightarrow> ('j \<Rightarrow> nat \<Rightarrow> bool) \<Rightarrow> 'b list \<Rightarrow> ('k \<Rightarrow> nat \<Rightarrow> bool) \<Rightarrow> 'c list \<Rightarrow>
   ('i, 'j, 'k, 'a, 'b, 'c) iterator3 \<Rightarrow> nat \<Rightarrow> bool" where
  "odometer3 this at1 xs at2 ys at3 zs it p \<longleftrightarrow>
     (\<exists>i j k. dials this at1 (length xs) at2 (length ys) at3 (length zs) it i j k \<and>
        p = slot3 (length xs) (length ys) (length zs) i j k \<and>
        (i < length xs \<and> j < length ys \<and> k < length zs \<longrightarrow>
           current_value3 it = Some (xs ! i, ys ! j, zs ! k)))"

locale three_generators =
  first: param_generator g1 at1 xs + second: param_generator g2 at2 ys + third: param_generator g3 at3 zs
  for g1 :: "('i, 'a) generator" and at1 xs and g2 :: "('j, 'b) generator" and at2 ys
    and g3 :: "('k, 'c) generator" and at3 zs +
  fixes this :: nat
begin

abbreviation "turned \<equiv> dials this at1 (length xs) at2 (length ys) at3 (length zs)"
abbreviation "reads \<equiv> odometer3 this at1 xs at2 ys at3 zs"
abbreviation "place \<equiv> slot3 (length xs) (length ys) (length zs)"

lemma AtEnd3_at:
  assumes "turned it i j k"
  shows "AtEnd3 g1 g2 g3 it = Inr (\<not> (i < length xs \<and> j < length ys \<and> k < length zs))"
  using assms first.equals_at [of "i3_current1 it" i "i3_end1 it" "length xs"]
    second.equals_at [of "i3_current2 it" j "i3_end2 it" "length ys"]
    third.equals_at [of "i3_current3 it" k "i3_end3 it" "length zs"]
    first.at_bound [of "i3_current1 it" i] second.at_bound [of "i3_current2 it" j]
    third.at_bound [of "i3_current3 it" k]
  by (auto simp: AtEnd3_def dials_def iterator_eq_def)

lemma ComputeCurrentValue3_at:
  assumes t: "turned it i j k"
  shows "\<exists>it'. ComputeCurrentValue3 g1 g2 g3 it = Inr it' \<and> reads it' (place i j k)"
proof (cases "i < length xs \<and> j < length ys \<and> k < length zs")
  case True
  have at: "at1 (i3_current1 it) i" "at2 (i3_current2 it) j" "at3 (i3_current3 it) k"
    using t by (auto simp: dials_def)
  obtain c1 c2 c3 where c: "Current g1 (i3_current1 it) = Inr (xs ! i, c1)" "at1 c1 i"
    "Current g2 (i3_current2 it) = Inr (ys ! j, c2)" "at2 c2 j"
    "Current g3 (i3_current3 it) = Inr (zs ! k, c3)" "at3 c3 k"
    using first.current_at [OF at(1)] second.current_at [OF at(2)] third.current_at [OF at(3)] True by blast
  let ?it = "it\<lparr>i3_current1 := c1, i3_current2 := c2, i3_current3 := c3,
               current_value3 := Some (xs ! i, ys ! j, zs ! k)\<rparr>"
  have "turned ?it i j k" using t c by (simp add: dials_def)
  then have "reads ?it (place i j k)" unfolding odometer3_def by force
  moreover have "ComputeCurrentValue3 g1 g2 g3 it = Inr ?it"
    using True AtEnd3_at [OF t] c by (simp add: ComputeCurrentValue3_def iterator_deref_def)
  ultimately show ?thesis by blast
next
  case False
  then have "reads it (place i j k)" using t unfolding odometer3_def by blast
  moreover have "ComputeCurrentValue3 g1 g2 g3 it = Inr it"
    using AtEnd3_at [OF t] False by (simp add: ComputeCurrentValue3_def)
  ultimately show ?thesis by blast
qed

lemma carry3_at:
  assumes t: "turned it i j k" and j: "j < length ys"
  shows "\<exists>it'. carry3 g2 g3 it = Inr it' \<and>
               (if k = length zs then turned it' i (Suc j) 0 else turned it' i j k)"
proof -
  have at: "at2 (i3_current2 it) j" "at3 (i3_begin3 it) 0" "at3 (i3_current3 it) k" "at3 (i3_end3 it) (length zs)"
    using t by (auto simp: dials_def)
  obtain c2 c3 where "Advance g2 (i3_current2 it) = Inr c2" "at2 c2 (Suc j)"
    "Clone g3 (i3_begin3 it) = Inr c3" "at3 c3 0"
    using second.advance_at [OF at(1) j] third.clone_at [OF at(2)] by blast
  then show ?thesis
    using t third.equals_at [OF at(3,4)] by (auto simp: carry3_def iterator_defs dials_def)
qed

lemma carry2_at:
  assumes t: "turned it i j k" and i: "i < length xs"
  shows "\<exists>it'. carry2 g1 g2 it = Inr it' \<and>
               (if j = length ys then turned it' (Suc i) 0 k else turned it' i j k)"
proof -
  have at: "at1 (i3_current1 it) i" "at2 (i3_begin2 it) 0" "at2 (i3_current2 it) j" "at2 (i3_end2 it) (length ys)"
    using t by (auto simp: dials_def)
  obtain c1 c2 where "Advance g1 (i3_current1 it) = Inr c1" "at1 c1 (Suc i)"
    "Clone g2 (i3_begin2 it) = Inr c2" "at2 c2 0"
    using first.advance_at [OF at(1) i] second.clone_at [OF at(2)] by blast
  then show ?thesis
    using t second.equals_at [OF at(3,4)] by (auto simp: carry2_def iterator_defs dials_def)
qed

lemma Advance3_at:
  assumes "reads it p" "p < length xs * (length ys * length zs)"
  shows "\<exists>it'. Advance3 g1 g2 g3 it = Inr it' \<and> reads it' (Suc p)"
proof -
  obtain i j k where t: "turned it i j k" and p: "p = place i j k"
    using assms(1) unfolding odometer3_def by blast
  have ijk: "i < length xs" "j < length ys" "k < length zs"
    using assms(2) unfolding p slot_inside by auto
  have at: "at3 (i3_current3 it) k" using t by (simp add: dials_def)
  obtain c3 where c3: "Advance g3 (i3_current3 it) = Inr c3" "at3 c3 (Suc k)"
    using third.advance_at [OF at ijk(3)] by blast
  have "turned (it\<lparr>i3_current3 := c3\<rparr>) i j (Suc k)" using t c3(2) by (simp add: dials_def)
  from carry3_at [OF this ijk(2)] obtain it1 where
    1: "carry3 g2 g3 (it\<lparr>i3_current3 := c3\<rparr>) = Inr it1"
      "if Suc k = length zs then turned it1 i (Suc j) 0 else turned it1 i j (Suc k)" by blast
  define j1 k1 where "j1 = (if Suc k = length zs then Suc j else j)"
    and "k1 = (if Suc k = length zs then 0 else Suc k)"
  have "turned it1 i j1 k1" using 1(2) unfolding j1_def k1_def by (auto split: if_splits)
  from carry2_at [OF this ijk(1)] obtain it2 where
    2: "carry2 g1 g2 it1 = Inr it2"
      "if j1 = length ys then turned it2 (Suc i) 0 k1 else turned it2 i j1 k1" by blast
  define i2 j2 where "i2 = (if j1 = length ys then Suc i else i)"
    and "j2 = (if j1 = length ys then 0 else j1)"
  have "turned it2 i2 j2 k1" using 2(2) unfolding i2_def j2_def by (auto split: if_splits)
  then obtain it' where c: "ComputeCurrentValue3 g1 g2 g3 it2 = Inr it'" "reads it' (place i2 j2 k1)"
    using ComputeCurrentValue3_at by blast
  have "place i2 j2 k1 = Suc p"
    using ijk slot3_next [of i "length xs" j "length ys" k "length zs"]
      slot3_carry [of i "length xs" j "length ys" k "length zs"]
      slot3_carry_twice [of i "length xs" j "length ys" k "length zs"]
    unfolding p i2_def j2_def j1_def k1_def by auto
  then show ?thesis
    using c 1(1) 2(1) c3(1) AtEnd3_at [OF t] ijk by (simp add: Advance3_def iterator_incr_def)
qed

lemma iterator3_new_at:
  assumes "at1 c1 i" "at2 c2 j" "at3 c3 k"
  shows "\<exists>it. iterator3_new g1 g2 g3 this c1 c2 c3 = Inr it \<and> reads it (place i j k)"
proof -
  obtain b1 e1 d1 where 1: "Begin g1 = Inr b1" "at1 b1 0" "End g1 = Inr e1" "at1 e1 (length xs)"
    "Clone g1 c1 = Inr d1" "at1 d1 i"
    using first.begin_at first.end_at first.clone_at [OF assms(1)] by blast
  obtain b2 e2 d2 where 2: "Begin g2 = Inr b2" "at2 b2 0" "End g2 = Inr e2" "at2 e2 (length ys)"
    "Clone g2 c2 = Inr d2" "at2 d2 j"
    using second.begin_at second.end_at second.clone_at [OF assms(2)] by blast
  obtain b3 e3 d3 where 3: "Begin g3 = Inr b3" "at3 b3 0" "End g3 = Inr e3" "at3 e3 (length zs)"
    "Clone g3 c3 = Inr d3" "at3 d3 k"
    using third.begin_at third.end_at third.clone_at [OF assms(3)] by blast
  let ?it = "\<lparr>base3 = this, i3_begin1 = b1, i3_end1 = e1, i3_current1 = d1,
              i3_begin2 = b2, i3_end2 = e2, i3_current2 = d2,
              i3_begin3 = b3, i3_end3 = e3, i3_current3 = d3, current_value3 = None\<rparr>"
  have "iterator3_new g1 g2 g3 this c1 c2 c3 = ComputeCurrentValue3 g1 g2 g3 ?it"
    using 1 2 3 by (simp add: iterator3_new_def iterator_defs)
  then show ?thesis using ComputeCurrentValue3_at [of ?it i j k] 1 2 3 by (simp add: dials_def)
qed

lemma Clone3_at:
  assumes "reads it p"
  shows "\<exists>it'. Clone3 g1 g2 g3 it = Inr it' \<and> reads it' p"
proof -
  obtain i j k where t: "turned it i j k" and p: "p = place i j k"
    using assms unfolding odometer3_def by blast
  obtain b1 e1 d1 where 1: "Clone g1 (i3_begin1 it) = Inr b1" "at1 b1 0"
    "Clone g1 (i3_end1 it) = Inr e1" "at1 e1 (length xs)" "Clone g1 (i3_current1 it) = Inr d1" "at1 d1 i"
    using first.clone_at t unfolding dials_def by metis
  obtain b2 e2 d2 where 2: "Clone g2 (i3_begin2 it) = Inr b2" "at2 b2 0"
    "Clone g2 (i3_end2 it) = Inr e2" "at2 e2 (length ys)" "Clone g2 (i3_current2 it) = Inr d2" "at2 d2 j"
    using second.clone_at t unfolding dials_def by metis
  obtain b3 e3 d3 where 3: "Clone g3 (i3_begin3 it) = Inr b3" "at3 b3 0"
    "Clone g3 (i3_end3 it) = Inr e3" "at3 e3 (length zs)" "Clone g3 (i3_current3 it) = Inr d3" "at3 d3 k"
    using third.clone_at t unfolding dials_def by metis
  let ?it = "\<lparr>base3 = base3 it, i3_begin1 = b1, i3_end1 = e1, i3_current1 = d1,
              i3_begin2 = b2, i3_end2 = e2, i3_current2 = d2,
              i3_begin3 = b3, i3_end3 = e3, i3_current3 = d3, current_value3 = None\<rparr>"
  have "Clone3 g1 g2 g3 it = ComputeCurrentValue3 g1 g2 g3 ?it"
    using 1 2 3 by (simp add: Clone3_def iterator_defs)
  then show ?thesis using ComputeCurrentValue3_at [of ?it i j k] 1 2 3 t unfolding p by (simp add: dials_def)
qed

lemma Equals3_at:
  assumes "reads it p" "reads jt q"
  shows "Equals3 g1 g2 g3 it jt = Inr (p = q)"
proof -
  obtain i j k where t: "turned it i j k" and p: "p = place i j k"
    using assms(1) unfolding odometer3_def by blast
  obtain i' j' k' where t': "turned jt i' j' k'" and q: "q = place i' j' k'"
    using assms(2) unfolding odometer3_def by blast
  have "base3 it = base3 jt" "Equals g1 (i3_current1 it) (i3_current1 jt) = Inr (i = i')"
    "Equals g2 (i3_current2 it) (i3_current2 jt) = Inr (j = j')"
    "Equals g3 (i3_current3 it) (i3_current3 jt) = Inr (k = k')"
    using t t' by (simp_all add: dials_def first.equals_at second.equals_at third.equals_at)
  then show ?thesis
    using AtEnd3_at [OF t] AtEnd3_at [OF t'] unfolding p q slot3_eq
    by (auto simp: Equals3_def iterator_eq_def)
qed

lemma Current3_at:
  assumes "reads it p" "p < length xs * (length ys * length zs)"
  shows "Current3 it = Inr (List.product xs (List.product ys zs) ! p, it)"
proof -
  obtain i j k where p: "p = place i j k"
    and v: "i < length xs \<and> j < length ys \<and> k < length zs \<longrightarrow> current_value3 it = Some (xs ! i, ys ! j, zs ! k)"
    using assms(1) unfolding odometer3_def by blast
  have ijk: "i < length xs" "j < length ys" "k < length zs"
    using assms(2) unfolding p slot_inside by auto
  then show ?thesis
    using v product_slot [of i xs "slot (length ys) (length zs) j k" "List.product ys zs"]
      product_slot [of j ys k zs] unfolding p by (simp add: Current3_def)
qed

end

sublocale three_generators \<subseteq> combined: param_generator "Combine3 this g1 g2 g3"
  "odometer3 this at1 xs at2 ys at3 zs" "List.product xs (List.product ys zs)"
proof
  have n: "length (List.product xs (List.product ys zs)) = length xs * (length ys * length zs)" by simp
  have first_place: "place 0 0 0 = 0" by (auto simp: slot_def)
  have last_place: "place (length xs) (length ys) (length zs) = length xs * (length ys * length zs)"
    by (simp add: slot_def)
  show "\<exists>it. Begin (Combine3 this g1 g2 g3) = Inr it \<and> reads it 0"
    using first.begin_at second.begin_at third.begin_at iterator3_new_at [of _ 0 _ 0 _ 0]
    unfolding first_place by (force simp: Combine3_def iterator_defs)
  show "\<exists>it. End (Combine3 this g1 g2 g3) = Inr it \<and> reads it (length (List.product xs (List.product ys zs)))"
    using first.end_at second.end_at third.end_at iterator3_new_at [of _ "length xs" _ "length ys" _ "length zs"]
    unfolding last_place n by (force simp: Combine3_def iterator_defs)
  fix it p jt q assume at: "reads it p"
  show "\<exists>it'. Clone (Combine3 this g1 g2 g3) it = Inr it' \<and> reads it' p"
    using Clone3_at [OF at] by (simp add: Combine3_def)
  show "p \<le> length (List.product xs (List.product ys zs))"
    using at slot_bound unfolding odometer3_def n by blast
  show "Equals (Combine3 this g1 g2 g3) it jt = Inr (p = q)" if "reads jt q"
    using Equals3_at [OF at that] by (simp add: Combine3_def)
  assume p: "p < length (List.product xs (List.product ys zs))"
  then show "\<exists>it'. Advance (Combine3 this g1 g2 g3) it = Inr it' \<and> reads it' (Suc p)"
    using Advance3_at [OF at] by (simp add: Combine3_def)
  show "\<exists>it'. Current (Combine3 this g1 g2 g3) it = Inr (List.product xs (List.product ys zs) ! p, it') \<and>
              reads it' p"
    using Current3_at [OF at] p at by (simp add: Combine3_def)
qed

interpretation combine_values3: three_generators
  "ValuesIn a xs" "values_at a xs" xs "ValuesIn b ys" "values_at b ys" ys
  "ValuesIn c zs" "values_at c zs" zs d
  for a b c d xs ys zs
  by unfold_locales

text \<open>
  \<open>testing::Combine\<close> of two and of three \<open>ValuesIn\<close> generators: a loop over the
  product ends and runs its body on every tuple of the Cartesian product once, in lexicographic
  order with the last component fastest; when a component is empty it runs its body on nothing.
\<close>

theorem Combine_enumerates:
  "for_each_param (Combine2 c (ValuesIn a xs) (ValuesIn b ys)) body2 st =
     Some (run_over body2 (List.product xs ys) st) \<and>
   for_each_param (Combine3 e (ValuesIn a xs) (ValuesIn b ys) (ValuesIn d zs)) body3 st' =
     Some (run_over body3 (List.product xs (List.product ys zs)) st')"
  by (rule conjI [OF combine_values.combined.for_each_runs combine_values3.combined.for_each_runs])

end
