(* ===== verification/Generator_Functions.thy ===== *)
theory Generator_Functions
  imports Cartesian_Product3
begin

text \<open>
  The functions a test writes to make generators, of
  \<open>GoogleTestFramework/.../gtest-param-test.h\<close>, with the holders of
  \<open>internal/gtest-param-util-generated.h\<close> through which \<open>Values\<close> and
  \<open>Combine\<close> are converted to a generator of the test's parameter type. \<open>this\<close> is the
  address of the generator made; \<open>cast\<close> functions are the \<open>static_cast\<close>s to that type.
\<close>

definition ValuesIn_range :: "nat \<Rightarrow> 'a list \<Rightarrow> nat \<Rightarrow> nat \<Rightarrow> ('a values_iterator, 'a) generator" where
  "ValuesIn_range this source begin end = ValuesIn this (take (end - begin) (drop begin source))"

definition ValuesIn_array :: "nat \<Rightarrow> 'a list \<Rightarrow> ('a values_iterator, 'a) generator" where
  "ValuesIn_array this array = ValuesIn_range this array 0 (length array)"

definition ValuesIn_container :: "nat \<Rightarrow> 'a list \<Rightarrow> ('a values_iterator, 'a) generator" where
  "ValuesIn_container this container = ValuesIn_range this container 0 (length container)"

record 'b ValueArray1 =
  va1_v1 :: 'b

definition ValueArray1_generator :: "('b \<Rightarrow> 'a) \<Rightarrow> nat \<Rightarrow> 'b ValueArray1 \<Rightarrow> ('a values_iterator, 'a) generator" where
  "ValueArray1_generator cast1 this va = ValuesIn_array this [cast1 (va1_v1 va)]"

record ('b, 'c) ValueArray2 =
  va2_v1 :: 'b
  va2_v2 :: 'c

definition ValueArray2_generator ::
  "('b \<Rightarrow> 'a) \<Rightarrow> ('c \<Rightarrow> 'a) \<Rightarrow> nat \<Rightarrow> ('b, 'c) ValueArray2 \<Rightarrow> ('a values_iterator, 'a) generator" where
  "ValueArray2_generator cast1 cast2 this va = ValuesIn_array this [cast1 (va2_v1 va), cast2 (va2_v2 va)]"

definition Values1 :: "'b \<Rightarrow> 'b ValueArray1" where
  "Values1 v1 = \<lparr>va1_v1 = v1\<rparr>"

definition Values2 :: "'b \<Rightarrow> 'c \<Rightarrow> ('b, 'c) ValueArray2" where
  "Values2 v1 v2 = \<lparr>va2_v1 = v1, va2_v2 = v2\<rparr>"

text \<open>
  The classes of three to fifty values are one generated text: what they keep is the list of the
  values, and each is converted on its own (the types may differ, so \<open>'b\<close> is their sum).
\<close>

record 'b ValueArrayN =
  va_values :: "'b list"

definition ValueArrayN_generator :: "('b \<Rightarrow> 'a) \<Rightarrow> nat \<Rightarrow> 'b ValueArrayN \<Rightarrow> ('a values_iterator, 'a) generator" where
  "ValueArrayN_generator cast this va = ValuesIn_array this (map cast (va_values va))"

definition ValueArrayN_copy :: "'b ValueArrayN \<Rightarrow> 'b ValueArrayN" where
  "ValueArrayN_copy other = \<lparr>va_values = va_values other\<rparr>"

definition ValuesN :: "'b list \<Rightarrow> 'b ValueArrayN" where
  "ValuesN vs = \<lparr>va_values = vs\<rparr>"

definition Bool :: "nat \<Rightarrow> (bool values_iterator, bool) generator" where
  "Bool this = ValueArray2_generator id id this (Values2 False True)"

text \<open>A holder keeps what it was given, converted to generators when it is itself converted.\<close>

record ('g, 'h) CartesianProductHolder2 =
  holder2_g1 :: 'g
  holder2_g2 :: 'h

definition holder2_generator ::
  "('g \<Rightarrow> ('i, 'a) generator) \<Rightarrow> ('h \<Rightarrow> ('j, 'b) generator) \<Rightarrow> nat \<Rightarrow> ('g, 'h) CartesianProductHolder2 \<Rightarrow>
   (('i, 'j, 'a, 'b) iterator2, 'a \<times> 'b) generator" where
  "holder2_generator cast1 cast2 this holder = Combine2 this (cast1 (holder2_g1 holder)) (cast2 (holder2_g2 holder))"

record ('g, 'h, 'k) CartesianProductHolder3 =
  holder3_g1 :: 'g
  holder3_g2 :: 'h
  holder3_g3 :: 'k

definition holder3_generator ::
  "('g \<Rightarrow> ('i, 'a) generator) \<Rightarrow> ('h \<Rightarrow> ('j, 'b) generator) \<Rightarrow> ('k \<Rightarrow> ('l, 'c) generator) \<Rightarrow> nat \<Rightarrow>
   ('g, 'h, 'k) CartesianProductHolder3 \<Rightarrow> (('i, 'j, 'l, 'a, 'b, 'c) iterator3, 'a \<times> 'b \<times> 'c) generator" where
  "holder3_generator cast1 cast2 cast3 this holder =
     Combine3 this (cast1 (holder3_g1 holder)) (cast2 (holder3_g2 holder)) (cast3 (holder3_g3 holder))"

definition combine_two :: "'g \<Rightarrow> 'h \<Rightarrow> ('g, 'h) CartesianProductHolder2" where
  "combine_two g1 g2 = \<lparr>holder2_g1 = g1, holder2_g2 = g2\<rparr>"

definition combine_three :: "'g \<Rightarrow> 'h \<Rightarrow> 'k \<Rightarrow> ('g, 'h, 'k) CartesianProductHolder3" where
  "combine_three g1 g2 g3 = \<lparr>holder3_g1 = g1, holder3_g2 = g2, holder3_g3 = g3\<rparr>"

lemma ValuesIn_array_eq [simp]: "ValuesIn_array this xs = ValuesIn this xs"
  by (simp add: ValuesIn_array_def ValuesIn_range_def)

lemma ValuesIn_container_eq [simp]: "ValuesIn_container this xs = ValuesIn this xs"
  by (simp add: ValuesIn_container_def ValuesIn_range_def)

text \<open>\<open>ValuesIn(begin, end)\<close> runs over the half-open range of the source.\<close>

lemma ValuesIn_range_runs:
  "for_each_param (ValuesIn_range this source b e) body s = Some (run_over body (take (e - b) (drop b source)) s)"
  unfolding ValuesIn_range_def by (rule values_in.for_each_runs)

text \<open>
  \<open>Values(v1, ..., vn)\<close>, through any number of copies of its holder, runs over the converted values
  in the order written.
\<close>

lemma ValuesN_runs:
  "for_each_param (ValueArrayN_generator cast this ((ValueArrayN_copy ^^ k) (ValuesN vs))) body s
   = Some (run_over body (map cast vs) s)"
proof -
  have "(ValueArrayN_copy ^^ k) (ValuesN vs) = ValuesN vs"
    by (induction k) (simp_all add: ValueArrayN_copy_def ValuesN_def)
  then show ?thesis by (simp add: ValueArrayN_generator_def ValuesN_def values_in.for_each_runs)
qed

text \<open>The example of the header: \<open>Combine(Bool(), Bool())\<close> has the four pairs of flags.\<close>

lemma Combine_Bool_Bool:
  "for_each_param (holder2_generator Bool Bool this (combine_two a b)) body s =
     Some (run_over body [(False, False), (False, True), (True, False), (True, True)] s)"
proof -
  have "Bool c = ValuesIn c [False, True]" for c
    by (simp add: Bool_def ValueArray2_generator_def Values2_def)
  then show ?thesis
    using combine_values.combined.for_each_runs [of this a "[False, True]" b "[False, True]" body s]
    by (simp add: holder2_generator_def combine_two_def)
qed

end
