(* ===== verification/Param_Registry.thy ===== *)
theory Param_Registry
  imports Param_Generators Cxx_Strings
begin

text \<open>
  The registry of value-parameterized tests, \<open>ParameterizedTestCaseInfo\<close> and
  \<open>ParameterizedTestCaseRegistry\<close> of
  \<open>GoogleTestFramework/.../internal/gtest-param-util.h\<close>, with the macros of
  \<open>gtest-param-test.h\<close> that fill it and \<open>WithParamInterface\<close> of \<open>gtest.h\<close>.
  A test case keeps its test patterns and its instantiations; \<open>RegisterTests\<close> registers
  every pattern with every parameter of every instantiation. A failed \<open>GTEST_CHECK_\<close> and
  \<open>posix::Abort\<close> are \<open>AssertFailed\<close>. The C++ templates have one parameter type
  per test case; here one type \<open>'a\<close> covers all of them, and \<open>type_id\<close> is what
  \<open>GetTypeId<TestCase>()\<close> returns. \<open>MakeAndRegisterTestInfo\<close> and
  \<open>PrintToString\<close>, which the program links from the framework's library, are the arguments
  \<open>enrol\<close> and \<open>print\<close>.
\<close>

subsection \<open>Parameters of a fixture and test factories\<close>

text \<open>The static \<open>parameter_\<close> of \<open>WithParamInterface<T>\<close>, null before the first \<open>SetParam\<close>.\<close>

definition SetParam :: "'a \<Rightarrow> 'a option \<Rightarrow> 'a option" where
  "SetParam parameter static_parameter = Some parameter"

definition GetParam :: "'a option \<Rightarrow> 'a outcome" where
  "GetParam static_parameter =
     (case static_parameter of None \<Rightarrow> Inl AssertFailed | Some p \<Rightarrow> Inr p)"

record 'a test_factory =
  factory_class :: nat
  factory_parameter :: 'a

definition CreateTestFactory :: "nat \<Rightarrow> 'a \<Rightarrow> 'a test_factory" where
  "CreateTestFactory test_class parameter = \<lparr>factory_class = test_class, factory_parameter = parameter\<rparr>"

definition CreateTest :: "'a test_factory \<Rightarrow> 'a option \<Rightarrow> nat \<times> 'a option" where
  "CreateTest f static_parameter = (factory_class f, SetParam (factory_parameter f) static_parameter)"

subsection \<open>A test case\<close>

record code_location =
  cl_file :: string
  cl_line :: int

record test_pattern =
  test_case_base_name :: string
  test_base_name :: string
  test_meta_factory :: nat

text \<open>An instantiation holds the function that makes its generator, which may fail or not return.\<close>

record ('it, 'a) instantiation_info =
  inst_name :: string
  inst_generator :: "('it, 'a) generator outcome option"
  inst_name_func :: "'a \<times> nat \<Rightarrow> string"
  inst_file :: string
  inst_line :: int

record ('it, 'a) test_case_info =
  test_case_name :: string
  type_id :: nat
  info_location :: code_location
  tests :: "test_pattern list"
  instantiations :: "('it, 'a) instantiation_info list"

definition test_case_info_new :: "string \<Rightarrow> nat \<Rightarrow> code_location \<Rightarrow> ('it, 'a) test_case_info" where
  "test_case_info_new name tid loc =
     \<lparr>test_case_name = c_str name, type_id = tid, info_location = loc, tests = [], instantiations = []\<rparr>"

definition AddTestPattern ::
  "string \<Rightarrow> string \<Rightarrow> nat \<Rightarrow> ('it, 'a) test_case_info \<Rightarrow> ('it, 'a) test_case_info" where
  "AddTestPattern case_name base_name meta_factory info =
     info\<lparr>tests := tests info @
       [\<lparr>test_case_base_name = c_str case_name, test_base_name = c_str base_name,
         test_meta_factory = meta_factory\<rparr>]\<rparr>"

definition AddTestCaseInstantiation ::
  "string \<Rightarrow> ('it, 'a) generator outcome option \<Rightarrow> ('a \<times> nat \<Rightarrow> string) \<Rightarrow> string \<Rightarrow> int \<Rightarrow>
   ('it, 'a) test_case_info \<Rightarrow> ('it, 'a) test_case_info" where
  "AddTestCaseInstantiation name func name_func file line info =
     info\<lparr>instantiations := instantiations info @
       [\<lparr>inst_name = name, inst_generator = func, inst_name_func = name_func,
         inst_file = file, inst_line = line\<rparr>]\<rparr>"

text \<open>\<open>isalnum\<close> of the C locale.\<close>

definition isalnum :: "char \<Rightarrow> bool" where
  "isalnum c \<longleftrightarrow>
     is_digit c \<or>
     (let n = (of_char c :: nat) in 65 \<le> n \<and> n \<le> 90 \<or> 97 \<le> n \<and> n \<le> 122)"

fun valid_chars :: "string \<Rightarrow> bool" where
  "valid_chars [] = True"
| "valid_chars (c # cs) = (if \<not> isalnum c \<and> c \<noteq> CHR ''_'' then False else valid_chars cs)"

definition IsValidParamName :: "string \<Rightarrow> bool" where
  "IsValidParamName name = (if name = [] then False else valid_chars name)"

definition DefaultParamName :: "'a \<times> nat \<Rightarrow> string" where
  "DefaultParamName info = to_string_nat (snd info)"

definition PrintToStringParamName :: "('a \<Rightarrow> string) \<Rightarrow> 'a \<times> nat \<Rightarrow> string" where
  "PrintToStringParamName print info = print (fst info)"

definition GetParamNameGen :: "('a \<times> nat \<Rightarrow> string) option \<Rightarrow> 'a \<times> nat \<Rightarrow> string" where
  "GetParamNameGen func = (case func of None \<Rightarrow> DefaultParamName | Some f \<Rightarrow> f)"

subsection \<open>\<open>RegisterTests\<close>\<close>

text \<open>The arguments of one call of \<open>MakeAndRegisterTestInfo\<close>.\<close>

record 'a registration =
  reg_case_name :: string
  reg_name :: string
  reg_value_param :: string
  reg_location :: code_location
  reg_type_id :: nat
  reg_factory :: "'a test_factory"

definition full_case_name :: "string \<Rightarrow> string \<Rightarrow> string" where
  "full_case_name instantiation_name base_name =
     (if instantiation_name \<noteq> [] then instantiation_name @ ''/'' else []) @ base_name"

definition registration_of ::
  "('a \<Rightarrow> string) \<Rightarrow> ('it, 'a) test_case_info \<Rightarrow> test_pattern \<Rightarrow> ('it, 'a) instantiation_info \<Rightarrow>
   string \<Rightarrow> 'a \<Rightarrow> 'a registration" where
  "registration_of print info t inst param_name x =
     \<lparr>reg_case_name = c_str (full_case_name (inst_name inst) (test_case_base_name t)),
      reg_name = c_str (test_base_name t @ ''/'' @ param_name),
      reg_value_param = c_str (print x),
      reg_location = info_location info,
      reg_type_id = type_id info,
      reg_factory = CreateTestFactory (test_meta_factory t) x\<rparr>"

text \<open>
  The body of the innermost loop. Its state is the index \<open>i\<close>, the set
  \<open>test_param_names\<close> and the program's state \<open>s\<close>; \<open>*param_it\<close> is read once and reused.
\<close>

definition register_param ::
  "('a registration \<Rightarrow> 's \<Rightarrow> 's) \<Rightarrow> ('a \<Rightarrow> string) \<Rightarrow> ('it, 'a) test_case_info \<Rightarrow> test_pattern \<Rightarrow>
   ('it, 'a) instantiation_info \<Rightarrow> 'a \<Rightarrow> nat \<times> string set \<times> 's \<Rightarrow> (nat \<times> string set \<times> 's) outcome" where
  "register_param enrol print info t inst x = (\<lambda>(i, names, s).
     let param_name = inst_name_func inst (x, i)
     in if \<not> IsValidParamName param_name then Inl AssertFailed
        else if param_name \<in> names then Inl AssertFailed
        else Inr (i + 1, insert param_name names, enrol (registration_of print info t inst param_name x) s))"

fun register_instantiations ::
  "('a registration \<Rightarrow> 's \<Rightarrow> 's) \<Rightarrow> ('a \<Rightarrow> string) \<Rightarrow> ('it, 'a) test_case_info \<Rightarrow> test_pattern \<Rightarrow>
   ('it, 'a) instantiation_info list \<Rightarrow> 's \<Rightarrow> 's outcome option" where
  "register_instantiations enrol print info t [] s = Some (Inr s)"
| "register_instantiations enrol print info t (inst # insts) s =
     (case inst_generator inst of
        None \<Rightarrow> None
      | Some (Inl e) \<Rightarrow> Some (Inl e)
      | Some (Inr g) \<Rightarrow>
          (case for_each_param g (register_param enrol print info t inst) (0, {}, s) of
             None \<Rightarrow> None
           | Some (Inl e) \<Rightarrow> Some (Inl e)
           | Some (Inr (i, names, s')) \<Rightarrow> register_instantiations enrol print info t insts s'))"

fun register_patterns ::
  "('a registration \<Rightarrow> 's \<Rightarrow> 's) \<Rightarrow> ('a \<Rightarrow> string) \<Rightarrow> ('it, 'a) test_case_info \<Rightarrow> test_pattern list \<Rightarrow>
   's \<Rightarrow> 's outcome option" where
  "register_patterns enrol print info [] s = Some (Inr s)"
| "register_patterns enrol print info (t # ts) s =
     (case register_instantiations enrol print info t (instantiations info) s of
        Some (Inr s') \<Rightarrow> register_patterns enrol print info ts s'
      | r \<Rightarrow> r)"

definition RegisterTests ::
  "('a registration \<Rightarrow> 's \<Rightarrow> 's) \<Rightarrow> ('a \<Rightarrow> string) \<Rightarrow> ('it, 'a) test_case_info \<Rightarrow> 's \<Rightarrow> 's outcome option" where
  "RegisterTests enrol print info s = register_patterns enrol print info (tests info) s"

subsection \<open>The registry\<close>

text \<open>
  \<open>GetTestCasePatternHolder\<close> returns the position of the test case in
  \<open>test_case_infos_\<close>, where the macros then add to it.
\<close>

type_synonym ('it, 'a) registry = "('it, 'a) test_case_info list"

fun find_holder :: "string \<Rightarrow> nat \<Rightarrow> nat \<Rightarrow> ('it, 'a) registry \<Rightarrow> nat option outcome" where
  "find_holder name tid k [] = Inr None"
| "find_holder name tid k (info # infos) =
     (if test_case_name info = c_str name
      then (if type_id info \<noteq> tid then Inl AssertFailed else Inr (Some k))
      else find_holder name tid (Suc k) infos)"

definition GetTestCasePatternHolder ::
  "string \<Rightarrow> nat \<Rightarrow> code_location \<Rightarrow> ('it, 'a) registry \<Rightarrow> (nat \<times> ('it, 'a) registry) outcome" where
  "GetTestCasePatternHolder name tid loc reg =
     and_then (find_holder name tid 0 reg) (\<lambda>found.
       case found of
         Some k \<Rightarrow> Inr (k, reg)
       | None \<Rightarrow> Inr (length reg, reg @ [test_case_info_new name tid loc]))"

definition TEST_P ::
  "string \<Rightarrow> string \<Rightarrow> nat \<Rightarrow> nat \<Rightarrow> code_location \<Rightarrow> ('it, 'a) registry \<Rightarrow> ('it, 'a) registry outcome" where
  "TEST_P case_name test_name tid test_class loc reg =
     and_then (GetTestCasePatternHolder case_name tid loc reg) (\<lambda>(k, reg').
       Inr (reg'[k := AddTestPattern case_name test_name test_class (reg' ! k)]))"

definition INSTANTIATE_TEST_CASE_P ::
  "string \<Rightarrow> string \<Rightarrow> nat \<Rightarrow> ('it, 'a) generator outcome option \<Rightarrow> ('a \<times> nat \<Rightarrow> string) option \<Rightarrow>
   code_location \<Rightarrow> ('it, 'a) registry \<Rightarrow> ('it, 'a) registry outcome" where
  "INSTANTIATE_TEST_CASE_P prefix case_name tid generator name_gen loc reg =
     and_then (GetTestCasePatternHolder case_name tid loc reg) (\<lambda>(k, reg').
       Inr (reg'[k := AddTestCaseInstantiation prefix generator (GetParamNameGen name_gen)
                        (cl_file loc) (cl_line loc) (reg' ! k)]))"

fun registry_RegisterTests ::
  "('a registration \<Rightarrow> 's \<Rightarrow> 's) \<Rightarrow> ('a \<Rightarrow> string) \<Rightarrow> ('it, 'a) registry \<Rightarrow> 's \<Rightarrow> 's outcome option" where
  "registry_RegisterTests enrol print [] s = Some (Inr s)"
| "registry_RegisterTests enrol print (info # infos) s =
     (case RegisterTests enrol print info s of
        Some (Inr s') \<Rightarrow> registry_RegisterTests enrol print infos s'
      | r \<Rightarrow> r)"

subsection \<open>What is registered\<close>

definition generates :: "('it, 'a) generator \<Rightarrow> 'a list \<Rightarrow> bool" where
  "generates g xs \<longleftrightarrow> (\<exists>at. param_generator g at xs)"

lemma for_each_generates: "generates g xs \<Longrightarrow> for_each_param g body s = Some (run_over body xs s)"
  unfolding generates_def by (erule exE, rule param_generator.for_each_runs)

lemma generates_ValuesIn: "generates (ValuesIn this xs) xs"
  unfolding generates_def by (rule exI, rule values_in.param_generator_axioms)

text \<open>The names of the parameters from index \<open>i\<close> on, and whether they may be registered.\<close>

fun names_from :: "('a \<times> nat \<Rightarrow> string) \<Rightarrow> nat \<Rightarrow> 'a list \<Rightarrow> string list" where
  "names_from f i [] = []"
| "names_from f i (x # xs) = f (x, i) # names_from f (Suc i) xs"

definition names_ok :: "string list \<Rightarrow> bool" where
  "names_ok names \<longleftrightarrow> list_all IsValidParamName names \<and> distinct names"

definition inst_registrations ::
  "('a \<Rightarrow> string) \<Rightarrow> ('it, 'a) test_case_info \<Rightarrow> ('it, 'a) instantiation_info \<Rightarrow> test_pattern \<Rightarrow>
   'a list \<Rightarrow> 'a registration list" where
  "inst_registrations print info inst t xs =
     map2 (registration_of print info t inst) (names_from (inst_name_func inst) 0 xs) xs"

definition all_registrations ::
  "('a \<Rightarrow> string) \<Rightarrow> ('it, 'a) test_case_info \<Rightarrow> (('it, 'a) instantiation_info \<Rightarrow> 'a list) \<Rightarrow>
   'a registration list" where
  "all_registrations print info params =
     concat (map (\<lambda>t. concat (map (\<lambda>inst. inst_registrations print info inst t (params inst))
                                 (instantiations info)))
                 (tests info))"

definition provides ::
  "(('it, 'a) instantiation_info \<Rightarrow> 'a list) \<Rightarrow> ('it, 'a) instantiation_info \<Rightarrow> bool" where
  "provides params inst \<longleftrightarrow> (\<exists>g. inst_generator inst = Some (Inr g) \<and> generates g (params inst))"

lemma run_over_register_param:
  "run_over (register_param enrol print info t inst) xs (i, names, s) =
     (let ns = names_from (inst_name_func inst) i xs
      in if names_ok ns \<and> set ns \<inter> names = {}
         then Inr (i + length xs, names \<union> set ns, fold enrol (map2 (registration_of print info t inst) ns xs) s)
         else Inl AssertFailed)"
proof (induction xs arbitrary: i names s)
  case Nil
  then show ?case by (simp add: names_ok_def)
next
  case (Cons x xs)
  then show ?case by (auto simp: register_param_def names_ok_def Let_def)
qed

lemma register_instantiations_spec:
  "\<forall>inst \<in> set insts. provides params inst \<Longrightarrow>
   register_instantiations enrol print info t insts s =
     Some (if \<forall>inst \<in> set insts. names_ok (names_from (inst_name_func inst) 0 (params inst))
           then Inr (fold enrol (concat (map (\<lambda>inst. inst_registrations print info inst t (params inst)) insts)) s)
           else Inl AssertFailed)"
proof (induction insts arbitrary: s)
  case (Cons inst insts)
  then obtain g where g: "inst_generator inst = Some (Inr g)" "generates g (params inst)"
    by (auto simp: provides_def)
  show ?case
    using Cons g(1) by (simp add: for_each_generates [OF g(2)] run_over_register_param Let_def inst_registrations_def)
qed simp

lemma register_patterns_spec:
  assumes "\<forall>inst \<in> set (instantiations info). provides params inst"
  shows "register_patterns enrol print info ts s =
     Some (if ts = [] \<or> (\<forall>inst \<in> set (instantiations info). names_ok (names_from (inst_name_func inst) 0 (params inst)))
           then Inr (fold enrol (concat (map (\<lambda>t. concat (map (\<lambda>inst. inst_registrations print info inst t (params inst))
                                                        (instantiations info))) ts)) s)
           else Inl AssertFailed)"
  by (induction ts arbitrary: s) (auto simp: register_instantiations_spec [OF assms] cong: if_cong)

lemma names_from_nth:
  "k < length xs \<Longrightarrow> names_from f i xs ! k = f (xs ! k, i + k)"
  by (induction xs arbitrary: i k) (auto simp: nth_Cons split: nat.splits)

lemma length_names_from [simp]: "length (names_from f i xs) = length xs"
  by (induction xs arbitrary: i) auto

lemma to_string_nat_inject: "to_string_nat m = to_string_nat n \<longleftrightarrow> m = n"
  using digits_value_to_string_nat by metis

lemma valid_chars_iff: "valid_chars cs \<longleftrightarrow> (\<forall>c \<in> set cs. isalnum c \<or> c = CHR ''_'')"
  by (induction cs) auto

lemma IsValidParamName_default [simp]: "IsValidParamName (to_string_nat n)"
  using to_string_nat_digits by (fastforce simp: IsValidParamName_def valid_chars_iff isalnum_def)

text \<open>The default names, the indices, can always be registered.\<close>

lemma names_ok_default: "names_ok (names_from DefaultParamName i xs)"
  unfolding names_ok_def list_all_length distinct_conv_nth
  by (auto simp: names_from_nth DefaultParamName_def to_string_nat_inject)

text \<open>
  C35. \<open>ParameterizedTestCaseInfo::RegisterTests\<close>: where every instantiation's generator
  returns and enumerates its parameters, the call registers exactly one test for every test pattern,
  every instantiation and every parameter, in that order, under the names
  \<open>Instantiation/Case\<close> and \<open>Test/parameter\<close>, each with a factory for its own parameter;
  and when a name of some instantiation is empty, has a character that is neither alphanumeric nor
  an underscore, or occurs twice, the program is aborted.
\<close>

theorem RegisterTests_combinations:
  assumes "\<forall>inst \<in> set (instantiations info). provides params inst"
  shows "RegisterTests enrol print info s =
     Some (if tests info = [] \<or>
              (\<forall>inst \<in> set (instantiations info). names_ok (names_from (inst_name_func inst) 0 (params inst)))
           then Inr (fold enrol (all_registrations print info params) s)
           else Inl AssertFailed)"
  unfolding RegisterTests_def all_registrations_def by (rule register_patterns_spec [OF assms])

theorem RegisterTests_combinations_witness:
  "let info = AddTestCaseInstantiation ''Pets'' (Some (Inr (ValuesIn 1 [''cat'', ''dog'']))) DefaultParamName ''f'' 7
                (AddTestPattern ''FooTest'' ''DoBar'' 5
                  (test_case_info_new ''FooTest'' 3 \<lparr>cl_file = ''f'', cl_line = 1\<rparr>))
   in RegisterTests (\<lambda>r rs. rs @ [(reg_case_name r, reg_name r, snd (CreateTest (reg_factory r) None))]) id info [] =
        Some (Inr [(''Pets/FooTest'', ''DoBar/0'', Some ''cat''), (''Pets/FooTest'', ''DoBar/1'', Some ''dog'')])"
proof -
  let ?log = "\<lambda>r rs. rs @ [(reg_case_name r, reg_name r, snd (CreateTest (reg_factory r) None))]"
  let ?info = "AddTestCaseInstantiation ''Pets'' (Some (Inr (ValuesIn 1 [''cat'', ''dog'']))) DefaultParamName ''f'' 7
                (AddTestPattern ''FooTest'' ''DoBar'' 5
                  (test_case_info_new ''FooTest'' 3 \<lparr>cl_file = ''f'', cl_line = 1\<rparr>))"
  have p: "\<forall>inst \<in> set (instantiations ?info). provides (\<lambda>_. [''cat'', ''dog'']) inst"
    by (simp add: AddTestCaseInstantiation_def AddTestPattern_def test_case_info_new_def provides_def generates_ValuesIn)
  have ok: "\<forall>inst \<in> set (instantiations ?info). names_ok (names_from (inst_name_func inst) 0 [''cat'', ''dog''])"
    by (simp add: AddTestCaseInstantiation_def AddTestPattern_def test_case_info_new_def names_ok_default del: names_from.simps)
  have names: "to_string_nat 0 = ''0''" "to_string_nat (Suc 0) = ''1''"
    by (simp_all add: to_string_nat.simps digit_char_def char_of_def bit_Suc_0_iff)
  have "fold ?log (all_registrations id ?info (\<lambda>_. [''cat'', ''dog''])) [] =
          [(''Pets/FooTest'', ''DoBar/0'', Some ''cat''), (''Pets/FooTest'', ''DoBar/1'', Some ''dog'')]"
    by (simp add: all_registrations_def inst_registrations_def registration_of_def full_case_name_def
        AddTestCaseInstantiation_def AddTestPattern_def test_case_info_new_def DefaultParamName_def names
        CreateTestFactory_def CreateTest_def SetParam_def c_str_def NUL_def)
  then show ?thesis
    using RegisterTests_combinations [OF p, of ?log id "[]"] ok unfolding Let_def by (simp del: names_from.simps)
qed

subsection \<open>What the macros build\<close>

text \<open>
  The static initialisers of a test program run its \<open>TEST_P\<close> and
  \<open>INSTANTIATE_TEST_CASE_P\<close> macros one after the other; \<open>tid\<close> gives the type of the
  fixture class each test case name stands for.
\<close>

datatype ('it, 'a) macro =
    Test_macro string string nat code_location
  | Instantiate_macro string string "('it, 'a) generator outcome option" "('a \<times> nat \<Rightarrow> string) option" code_location

fun macro_case :: "('it, 'a) macro \<Rightarrow> string" where
  "macro_case (Test_macro case_name _ _ _) = c_str case_name"
| "macro_case (Instantiate_macro _ case_name _ _ _) = c_str case_name"

fun run_macro :: "(string \<Rightarrow> nat) \<Rightarrow> ('it, 'a) macro \<Rightarrow> ('it, 'a) registry \<Rightarrow> ('it, 'a) registry outcome" where
  "run_macro tid (Test_macro case_name test_name test_class loc) reg =
     TEST_P case_name test_name (tid (c_str case_name)) test_class loc reg"
| "run_macro tid (Instantiate_macro prefix case_name generator name_gen loc) reg =
     INSTANTIATE_TEST_CASE_P prefix case_name (tid (c_str case_name)) generator name_gen loc reg"

fun run_macros :: "(string \<Rightarrow> nat) \<Rightarrow> ('it, 'a) macro list \<Rightarrow> ('it, 'a) registry \<Rightarrow> ('it, 'a) registry outcome" where
  "run_macros tid [] reg = Inr reg"
| "run_macros tid (m # ms) reg = and_then (run_macro tid m reg) (run_macros tid ms)"

text \<open>What a case should hold: its own patterns and instantiations, in program order.\<close>

fun pattern_of :: "string \<Rightarrow> ('it, 'a) macro \<Rightarrow> test_pattern list" where
  "pattern_of n (Test_macro case_name test_name test_class loc) =
     (if c_str case_name = n
      then [\<lparr>test_case_base_name = c_str case_name, test_base_name = c_str test_name, test_meta_factory = test_class\<rparr>]
      else [])"
| "pattern_of n (Instantiate_macro _ _ _ _ _) = []"

fun instantiation_of :: "string \<Rightarrow> ('it, 'a) macro \<Rightarrow> ('it, 'a) instantiation_info list" where
  "instantiation_of n (Test_macro _ _ _ _) = []"
| "instantiation_of n (Instantiate_macro prefix case_name generator name_gen loc) =
     (if c_str case_name = n
      then [\<lparr>inst_name = prefix, inst_generator = generator, inst_name_func = GetParamNameGen name_gen,
             inst_file = cl_file loc, inst_line = cl_line loc\<rparr>]
      else [])"

definition holds_case :: "(string \<Rightarrow> nat) \<Rightarrow> ('it, 'a) macro list \<Rightarrow> ('it, 'a) test_case_info \<Rightarrow> bool" where
  "holds_case tid ms info \<longleftrightarrow>
     type_id info = tid (test_case_name info) \<and>
     tests info = concat (map (pattern_of (test_case_name info)) ms) \<and>
     instantiations info = concat (map (instantiation_of (test_case_name info)) ms)"

definition registry_of :: "(string \<Rightarrow> nat) \<Rightarrow> ('it, 'a) macro list \<Rightarrow> ('it, 'a) registry \<Rightarrow> bool" where
  "registry_of tid ms reg \<longleftrightarrow>
     distinct (map test_case_name reg) \<and> set (map test_case_name reg) = macro_case ` set ms \<and>
     (\<forall>info \<in> set reg. holds_case tid ms info)"

lemma find_holder_spec:
  "\<forall>info \<in> set reg. test_case_name info = c_str n \<longrightarrow> type_id info = t \<Longrightarrow>
   find_holder n t k reg =
     (if c_str n \<in> test_case_name ` set reg
      then Inr (Some (k + length (takeWhile (\<lambda>info. test_case_name info \<noteq> c_str n) reg)))
      else Inr None)"
  by (induction reg arbitrary: k) auto

lemma takeWhile_stops: "x \<in> set xs \<Longrightarrow> \<not> P x \<Longrightarrow> length (takeWhile P xs) < length xs"
  by (induction xs) auto

lemma no_macros_of_case:
  "n \<notin> macro_case ` set ms \<Longrightarrow>
   concat (map (pattern_of n) ms) = [] \<and> concat (map (instantiation_of n) ms) = []"
proof (induction ms)
  case (Cons m ms)
  then show ?case by (cases m) auto
qed simp

text \<open>The holder of a case exists after the lookup, is unique and is where the macros add.\<close>

lemma GetTestCasePatternHolder_spec:
  assumes "registry_of tid ms reg"
  shows "\<exists>k reg'. GetTestCasePatternHolder n (tid (c_str n)) loc reg = Inr (k, reg') \<and>
           k < length reg' \<and> test_case_name (reg' ! k) = c_str n \<and> distinct (map test_case_name reg') \<and>
           set (map test_case_name reg') = insert (c_str n) (macro_case ` set ms) \<and>
           (\<forall>info \<in> set reg'. holds_case tid ms info)"
proof (cases "c_str n \<in> test_case_name ` set reg")
  case True
  let ?k = "length (takeWhile (\<lambda>info. test_case_name info \<noteq> c_str n) reg)"
  have k: "?k < length reg" using True takeWhile_stops by force
  have "find_holder n (tid (c_str n)) 0 reg = Inr (Some ?k)"
    using True assms find_holder_spec [of reg n "tid (c_str n)" 0]
    by (auto simp: registry_of_def holds_case_def)
  moreover have "test_case_name (reg ! ?k) = c_str n" using nth_length_takeWhile [OF k] by simp
  ultimately show ?thesis
    using k True assms by (auto simp: GetTestCasePatternHolder_def registry_of_def)
next
  case False
  then have new: "c_str n \<notin> macro_case ` set ms" using assms by (auto simp: registry_of_def)
  have "find_holder n (tid (c_str n)) 0 reg = Inr None"
    using False find_holder_spec [of reg n "tid (c_str n)" 0] by force
  moreover have "holds_case tid ms (test_case_info_new n (tid (c_str n)) loc)"
    using no_macros_of_case [OF new] by (simp add: holds_case_def test_case_info_new_def)
  ultimately show ?thesis
    using False assms
    by (auto simp: GetTestCasePatternHolder_def registry_of_def test_case_info_new_def nth_append)
qed

lemma holder_update:
  assumes "k < length reg" "test_case_name (reg ! k) = macro_case m" "distinct (map test_case_name reg)"
    and "set (map test_case_name reg) = insert (macro_case m) (macro_case ` set ms)"
    and "\<forall>info \<in> set reg. holds_case tid ms info"
    and "test_case_name info' = macro_case m" "holds_case tid (ms @ [m]) info'"
  shows "registry_of tid (ms @ [m]) (reg[k := info'])"
proof -
  have names: "map test_case_name (reg[k := info']) = map test_case_name reg"
    using assms(1,2,6) by (metis list_update_id map_update nth_map)
  have "holds_case tid (ms @ [m]) info" if "info \<in> set (reg[k := info'])" for info
  proof -
    obtain i where i: "i < length reg" "info = reg[k := info'] ! i"
      using \<open>info \<in> _\<close> by (metis in_set_conv_nth length_list_update)
    show ?thesis
    proof (cases "i = k")
      case True
      then show ?thesis using i assms(1,7) by simp
    next
      case False
      then have "test_case_name info \<noteq> macro_case m" "info \<in> set reg"
        using i assms(1-3) nth_eq_iff_index_eq [of "map test_case_name reg" i k] by auto
      then show ?thesis using assms(5) by (cases m) (auto simp: holds_case_def)
    qed
  qed
  then show ?thesis using assms(3,4) unfolding registry_of_def names by auto
qed

lemma run_macro_spec:
  assumes "registry_of tid ms reg"
  shows "\<exists>reg'. run_macro tid m reg = Inr reg' \<and> registry_of tid (ms @ [m]) reg'"
proof (cases m)
  case (Test_macro case_name test_name test_class loc)
  obtain k reg' where r: "GetTestCasePatternHolder case_name (tid (c_str case_name)) loc reg = Inr (k, reg')"
    "k < length reg'" "test_case_name (reg' ! k) = macro_case m" "distinct (map test_case_name reg')"
    "set (map test_case_name reg') = insert (macro_case m) (macro_case ` set ms)"
    "\<forall>info \<in> set reg'. holds_case tid ms info"
    using GetTestCasePatternHolder_spec [OF assms, of case_name loc] Test_macro by auto
  let ?info = "AddTestPattern case_name test_name test_class (reg' ! k)"
  have "registry_of tid (ms @ [m]) (reg'[k := ?info])"
    by (rule holder_update [OF r(2-6)])
      (use r(2,3,6) Test_macro in \<open>auto simp: AddTestPattern_def holds_case_def\<close>)
  then show ?thesis using r(1) Test_macro by (simp add: TEST_P_def)
next
  case (Instantiate_macro prefix case_name generator name_gen loc)
  obtain k reg' where r: "GetTestCasePatternHolder case_name (tid (c_str case_name)) loc reg = Inr (k, reg')"
    "k < length reg'" "test_case_name (reg' ! k) = macro_case m" "distinct (map test_case_name reg')"
    "set (map test_case_name reg') = insert (macro_case m) (macro_case ` set ms)"
    "\<forall>info \<in> set reg'. holds_case tid ms info"
    using GetTestCasePatternHolder_spec [OF assms, of case_name loc] Instantiate_macro by auto
  let ?info = "AddTestCaseInstantiation prefix generator (GetParamNameGen name_gen) (cl_file loc) (cl_line loc) (reg' ! k)"
  have "registry_of tid (ms @ [m]) (reg'[k := ?info])"
    by (rule holder_update [OF r(2-6)])
      (use r(2,3,6) Instantiate_macro in \<open>auto simp: AddTestCaseInstantiation_def holds_case_def\<close>)
  then show ?thesis using r(1) Instantiate_macro by (simp add: INSTANTIATE_TEST_CASE_P_def)
qed

lemma run_macros_spec:
  "registry_of tid ms reg \<Longrightarrow> \<exists>reg'. run_macros tid ms' reg = Inr reg' \<and> registry_of tid (ms @ ms') reg'"
proof (induction ms' arbitrary: ms reg)
  case (Cons m ms')
  then obtain reg1 where "run_macro tid m reg = Inr reg1" "registry_of tid (ms @ [m]) reg1"
    using run_macro_spec by blast
  then show ?case using Cons.IH [of "ms @ [m]" reg1] by simp
qed simp

text \<open>
  The macros: whatever the order in which a program's \<open>TEST_P\<close> and
  \<open>INSTANTIATE_TEST_CASE_P\<close> macros run, the registry ends with exactly one entry for every
  test case named, and each entry holds that case's own test patterns and instantiations, all of
  them, in program order. (A case name used with two fixture types aborts the program; here every
  name has one type.)
\<close>

theorem macros_fill_registry:
  "\<exists>reg. run_macros tid ms [] = Inr reg \<and>
     distinct (map test_case_name reg) \<and> set (map test_case_name reg) = macro_case ` set ms \<and>
     (\<forall>info. info \<in> set reg \<longrightarrow>
        tests info = concat (map (pattern_of (test_case_name info)) ms) \<and>
        instantiations info = concat (map (instantiation_of (test_case_name info)) ms))"
proof -
  have "registry_of tid [] []" by (simp add: registry_of_def)
  then obtain reg where "run_macros tid ms [] = Inr reg" "registry_of tid ms reg"
    using run_macros_spec [of tid "[]" "[]" ms] by auto
  then show ?thesis by (auto simp: registry_of_def holds_case_def)
qed

theorem macros_fill_registry_witness:
  "\<exists>info :: (nat values_iterator, nat) test_case_info.
     run_macros (\<lambda>_. 4)
       [Instantiate_macro ''Few'' ''Foo'' (Some (Inr (ValuesIn 1 [3, 5]))) None \<lparr>cl_file = ''f'', cl_line = 1\<rparr>,
        Test_macro ''Foo'' ''Bar'' 2 \<lparr>cl_file = ''f'', cl_line = 2\<rparr>] [] = Inr [info] \<and>
     test_case_name info = ''Foo'' \<and> map test_base_name (tests info) = [''Bar''] \<and>
     map inst_name (instantiations info) = [''Few'']"
proof -
  let ?ms = "[Instantiate_macro ''Few'' ''Foo'' (Some (Inr (ValuesIn 1 [3, 5]))) None \<lparr>cl_file = ''f'', cl_line = 1\<rparr>,
        Test_macro ''Foo'' ''Bar'' 2 \<lparr>cl_file = ''f'', cl_line = 2\<rparr>] :: (nat values_iterator, nat) macro list"
  have c: "c_str ''Foo'' = ''Foo''" "c_str ''Bar'' = ''Bar''" by (simp_all add: c_str_def NUL_def)
  obtain reg where r: "run_macros (\<lambda>_. 4) ?ms [] = Inr reg" "distinct (map test_case_name reg)"
    "set (map test_case_name reg) = {''Foo''}"
    "\<forall>info. info \<in> set reg \<longrightarrow> tests info = concat (map (pattern_of (test_case_name info)) ?ms) \<and>
        instantiations info = concat (map (instantiation_of (test_case_name info)) ?ms)"
    using macros_fill_registry [of "\<lambda>_. 4" ?ms] c by auto
  have "length (map test_case_name reg) = 1" using distinct_card [OF r(2)] r(3) by simp
  then obtain info where "reg = [info]" by (auto simp: length_Suc_conv)
  with r c show ?thesis by (intro exI [of _ info]) auto
qed

end
