(* ===== verification/Typed_Tests.thy ===== *)
theory Typed_Tests
  imports Param_Registry
begin

text \<open>
  Type-parameterized tests, \<open>TypedTestCasePState\<close>, \<open>TypeParameterizedTest\<close> and
  \<open>TypeParameterizedTestCase\<close> of
  \<open>GoogleTestFramework/.../internal/gtest-internal.h\<close>, with the string helpers they use.
  The names of the tests reach the code as one string, the text of the macro's arguments, which is
  cut at its commas in step with the list of test templates. Type lists and template lists, which
  the compiler recurses over, are lists of the types' and templates' identities; the names of types,
  the identities of fixtures and \<open>MakeAndRegisterTestInfo\<close> are arguments. A null
  \<open>const char *\<close> is \<open>None\<close>.
\<close>

subsection \<open>Strings\<close>

definition SkipComma :: "string \<Rightarrow> string option" where
  "SkipComma str =
     (let comma = dropWhile (\<lambda>c. c \<noteq> CHR '','') (c_str str)
      in if comma = [] then None else Some (dropWhile is_space (tl comma)))"

definition GetPrefixUntilComma :: "string \<Rightarrow> string" where
  "GetPrefixUntilComma str = takeWhile (\<lambda>c. c \<noteq> CHR '','') (c_str str)"

function StripTrailingSpaces :: "string \<Rightarrow> string" where
  "StripTrailingSpaces str =
     (if str \<noteq> [] \<and> is_space (last str) then StripTrailingSpaces (butlast str) else str)"
  by auto
termination by (relation "measure length") (auto intro: diff_less)

declare StripTrailingSpaces.simps [simp del]

subsection \<open>\<open>TypedTestCasePState\<close>\<close>

record typed_state =
  ts_registered :: bool
  ts_tests :: "string \<rightharpoonup> code_location"

definition typed_state_new :: typed_state where
  "typed_state_new = \<lparr>ts_registered = False, ts_tests = Map.empty\<rparr>"

text \<open>\<open>std::map::insert\<close> keeps an entry that is already there.\<close>

definition AddTestName :: "string \<Rightarrow> int \<Rightarrow> string \<Rightarrow> typed_state \<Rightarrow> typed_state outcome" where
  "AddTestName file line test_name st =
     (if ts_registered st then Inl AssertFailed
      else Inr (if ts_tests st (c_str test_name) = None
                then st\<lparr>ts_tests := (ts_tests st)(c_str test_name \<mapsto> \<lparr>cl_file = file, cl_line = line\<rparr>)\<rparr>
                else st))"

definition TestExists :: "string \<Rightarrow> typed_state \<Rightarrow> bool" where
  "TestExists test_name st \<longleftrightarrow> ts_tests st test_name \<noteq> None"

definition GetCodeLocation :: "string \<Rightarrow> typed_state \<Rightarrow> code_location outcome" where
  "GetCodeLocation test_name st =
     (case ts_tests st test_name of None \<Rightarrow> Inl AssertFailed | Some loc \<Rightarrow> Inr loc)"

subsection \<open>Names of types\<close>

definition DefaultNameGenerator :: "'ty \<Rightarrow> nat \<Rightarrow> string" where
  "DefaultNameGenerator ty i = to_string_nat i"

primrec GenerateNamesRecursively :: "('ty \<Rightarrow> nat \<Rightarrow> string) \<Rightarrow> 'ty list \<Rightarrow> string list \<Rightarrow> nat \<Rightarrow> string list" where
  "GenerateNamesRecursively GetName [] result i = result"
| "GenerateNamesRecursively GetName (ty # tys) result i =
     GenerateNamesRecursively GetName tys (result @ [GetName ty i]) (i + 1)"

definition GenerateNames :: "('ty \<Rightarrow> nat \<Rightarrow> string) \<Rightarrow> 'ty list \<Rightarrow> string list" where
  "GenerateNames GetName types = GenerateNamesRecursively GetName types [] 0"

subsection \<open>Registration\<close>

text \<open>The arguments of one call of \<open>MakeAndRegisterTestInfo\<close> for a type-parameterized test.\<close>

record ('ty, 'tst) typed_registration =
  tr_case_name :: string
  tr_name :: string
  tr_type_param :: string
  tr_location :: code_location
  tr_fixture :: nat
  tr_test :: 'tst
  tr_type :: 'ty

primrec TypeParameterizedTest_Register ::
  "(('ty, 'tst) typed_registration \<Rightarrow> 's \<Rightarrow> 's) \<Rightarrow> ('ty \<Rightarrow> string) \<Rightarrow> ('ty \<Rightarrow> nat) \<Rightarrow> 'tst \<Rightarrow> 'ty list \<Rightarrow>
   string \<Rightarrow> code_location \<Rightarrow> string \<Rightarrow> string \<Rightarrow> nat \<Rightarrow> string list \<Rightarrow> 's \<Rightarrow> 's outcome" where
  "TypeParameterizedTest_Register enrol type_name fixture_id t [] prefix loc case_name test_names index type_names s = Inr s"
| "TypeParameterizedTest_Register enrol type_name fixture_id t (ty # tys) prefix loc case_name test_names index type_names s =
     (if index < length type_names
      then TypeParameterizedTest_Register enrol type_name fixture_id t tys prefix loc case_name test_names (index + 1) type_names
             (enrol \<lparr>tr_case_name = c_str (c_str prefix @ (if c_str prefix = [] then [] else ''/'') @ c_str case_name @ ''/'' @
                                          type_names ! index),
                     tr_name = c_str (StripTrailingSpaces (GetPrefixUntilComma test_names)),
                     tr_type_param = c_str (type_name ty), tr_location = loc, tr_fixture = fixture_id ty,
                     tr_test = t, tr_type = ty\<rparr> s)
      else Inl Undefined)"

primrec TypeParameterizedTestCase_Register ::
  "(('ty, 'tst) typed_registration \<Rightarrow> 's \<Rightarrow> 's) \<Rightarrow> ('ty \<Rightarrow> string) \<Rightarrow> ('ty \<Rightarrow> nat) \<Rightarrow> 'ty list \<Rightarrow>
   string \<Rightarrow> typed_state \<Rightarrow> string \<Rightarrow> string list \<Rightarrow> 'tst list \<Rightarrow> string option \<Rightarrow> 's \<Rightarrow> 's outcome" where
  "TypeParameterizedTestCase_Register enrol type_name fixture_id types prefix st case_name type_names [] test_names s = Inr s"
| "TypeParameterizedTestCase_Register enrol type_name fixture_id types prefix st case_name type_names (t # ts) test_names s =
     (case test_names of
        None \<Rightarrow> Inl Undefined
      | Some names \<Rightarrow>
          let test_name = StripTrailingSpaces (GetPrefixUntilComma names)
          in if \<not> TestExists test_name st then Inl AssertFailed
             else and_then (GetCodeLocation test_name st) (\<lambda>loc.
                  and_then (TypeParameterizedTest_Register enrol type_name fixture_id t types prefix loc case_name names 0
                              type_names s)
                    (TypeParameterizedTestCase_Register enrol type_name fixture_id types prefix st case_name type_names ts
                       (SkipComma names))))"

subsection \<open>The comma-separated names\<close>

text \<open>The text of the arguments \<open>A, B, C\<close> of \<open>REGISTER_TYPED_TEST_CASE_P\<close>.\<close>

fun arguments_text :: "string list \<Rightarrow> string" where
  "arguments_text [] = []"
| "arguments_text [n] = n"
| "arguments_text (n # ns) = n @ '', '' @ arguments_text ns"

lemma identifier_char:
  assumes "IsValidParamName n" "c \<in> set n"
  shows "c \<noteq> CHR '',''" "\<not> is_space c" "c \<noteq> NUL"
proof -
  have c: "isalnum c \<or> c = CHR ''_''" using assms by (auto simp: IsValidParamName_def valid_chars_iff split: if_splits)
  then show "c \<noteq> CHR '',''" "\<not> is_space c" "c \<noteq> NUL"
    by (auto simp: isalnum_def is_digit_def is_space_def NUL_def Let_def)
qed

lemma identifier_nonempty: "IsValidParamName n \<Longrightarrow> n \<noteq> []"
  by (auto simp: IsValidParamName_def)

lemma StripTrailingSpaces_identifier: "IsValidParamName n \<Longrightarrow> StripTrailingSpaces n = n"
  using identifier_char(2) [of n "last n"] by (subst StripTrailingSpaces.simps) auto

lemma arguments_text_Cons: "arguments_text (n # ns) = n @ (if ns = [] then [] else '', '' @ arguments_text ns)"
  by (cases ns) auto

lemma c_str_arguments_text [simp]: "list_all IsValidParamName ns \<Longrightarrow> c_str (arguments_text ns) = arguments_text ns"
proof (rule c_str_nul_free, induction ns)
  case (Cons n ns)
  then show ?case using identifier_char(3) [of n] by (auto simp: arguments_text_Cons NUL_def)
qed simp

lemma GetPrefixUntilComma_arguments:
  "list_all IsValidParamName (n # ns) \<Longrightarrow> GetPrefixUntilComma (arguments_text (n # ns)) = n"
  using identifier_char(1) [of n] c_str_arguments_text [of "n # ns"]
  by (simp add: GetPrefixUntilComma_def) (auto simp: arguments_text_Cons takeWhile_append2 takeWhile_eq_all_conv)

lemma SkipComma_arguments:
  assumes ok: "list_all IsValidParamName (n # ns)"
  shows "SkipComma (arguments_text (n # ns)) = (if ns = [] then None else Some (arguments_text ns))"
proof -
  have d: "dropWhile (\<lambda>c. c \<noteq> CHR '','') (arguments_text (n # ns)) = (if ns = [] then [] else '', '' @ arguments_text ns)"
    using identifier_char(1) [of n] ok by (auto simp: arguments_text_Cons dropWhile_append2 dropWhile_eq_Nil_conv)
  have "dropWhile is_space (arguments_text ns) = arguments_text ns" if ne: "ns \<noteq> []"
  proof -
    obtain n' ns' where ns: "ns = n' # ns'" using ne by (cases ns) auto
    then have "n' \<noteq> []" "\<not> is_space (hd n')"
      using ok identifier_nonempty [of n'] identifier_char(2) [of n' "hd n'"] by auto
    then show ?thesis unfolding ns arguments_text_Cons by (cases n') auto
  qed
  then show ?thesis
    using d c_str_arguments_text [OF ok] by (auto simp: SkipComma_def Let_def is_space_def)
qed

subsection \<open>What is registered\<close>

definition typed_registration_of ::
  "('ty \<Rightarrow> string) \<Rightarrow> ('ty \<Rightarrow> nat) \<Rightarrow> string \<Rightarrow> string \<Rightarrow> string list \<Rightarrow> code_location \<Rightarrow> string \<Rightarrow> 'tst \<Rightarrow>
   nat \<Rightarrow> 'ty \<Rightarrow> ('ty, 'tst) typed_registration" where
  "typed_registration_of type_name fixture_id prefix case_name type_names loc test_name t i ty =
     \<lparr>tr_case_name = c_str (c_str prefix @ (if c_str prefix = [] then [] else ''/'') @ c_str case_name @ ''/'' @ type_names ! i),
      tr_name = test_name, tr_type_param = c_str (type_name ty), tr_location = loc, tr_fixture = fixture_id ty,
      tr_test = t, tr_type = ty\<rparr>"

lemma TypeParameterizedTest_Register_spec:
  "index + length types \<le> length type_names \<Longrightarrow>
   TypeParameterizedTest_Register enrol type_name fixture_id t types prefix loc case_name test_names index type_names s =
     Inr (fold enrol
            (map2 (typed_registration_of type_name fixture_id prefix case_name type_names loc
                     (c_str (StripTrailingSpaces (GetPrefixUntilComma test_names))) t)
                  [index..<index + length types] types) s)"
proof (induction types arbitrary: index s)
  case (Cons ty tys)
  then show ?case by (simp add: upt_conv_Cons typed_registration_of_def del: upt_Suc)
qed simp

text \<open>
  Every test is registered with every type: when the text of the macro names as many tests as
  there are templates, each defined before by \<open>TYPED_TEST_P\<close>, the two lists are cut in step and
  each test is registered under its own name, at the place of its definition.
\<close>

lemma TypeParameterizedTestCase_Register_spec:
  assumes "length types \<le> length type_names"
  shows "length names = length ts \<Longrightarrow> list_all IsValidParamName names \<Longrightarrow>
     list_all (\<lambda>n. ts_tests st n = Some (loc n)) names \<Longrightarrow>
     test_names = (if names = [] then None else Some (arguments_text names)) \<Longrightarrow>
     TypeParameterizedTestCase_Register enrol type_name fixture_id types prefix st case_name type_names ts test_names s =
       Inr (fold enrol (concat (map2 (\<lambda>t n. map2 (typed_registration_of type_name fixture_id prefix case_name type_names
                                                   (loc n) n t) [0..<length types] types) ts names)) s)"
proof (induction ts arbitrary: names test_names s)
  case (Cons t ts)
  then obtain n ns where names: "names = n # ns" by (cases names) auto
  have n: "IsValidParamName n" "ts_tests st n = Some (loc n)" using Cons.prems names by auto
  have prefix_cut: "StripTrailingSpaces (GetPrefixUntilComma (arguments_text (n # ns))) = n"
    using GetPrefixUntilComma_arguments [of n ns] StripTrailingSpaces_identifier [OF n(1)] Cons.prems(2) names by simp
  have "c_str n = n" using identifier_char(3) [OF n(1)] by (intro c_str_nul_free) auto
  then have first: "TypeParameterizedTest_Register enrol type_name fixture_id t types prefix (loc n) case_name
          (arguments_text (n # ns)) 0 type_names s =
        Inr (fold enrol (map2 (typed_registration_of type_name fixture_id prefix case_name type_names (loc n) n t)
               [0..<length types] types) s)"
    using assms prefix_cut by (simp add: TypeParameterizedTest_Register_spec)
  have rest: "SkipComma (arguments_text (n # ns)) = (if ns = [] then None else Some (arguments_text ns))"
    using SkipComma_arguments Cons.prems(2) names by blast
  have IH: "TypeParameterizedTestCase_Register enrol type_name fixture_id types prefix st case_name type_names ts
      (SkipComma (arguments_text (n # ns))) s' =
       Inr (fold enrol (concat (map2 (\<lambda>t n. map2 (typed_registration_of type_name fixture_id prefix case_name type_names
                                                   (loc n) n t) [0..<length types] types) ts ns)) s')" for s'
    using Cons.IH [of ns "SkipComma (arguments_text (n # ns))" s'] Cons.prems names rest by simp
  show ?case
    using Cons.prems(4) first IH prefix_cut n(2) unfolding names
    by (simp add: TestExists_def GetCodeLocation_def Let_def del: arguments_text.simps)
qed simp

lemma GenerateNamesRecursively_eq:
  "GenerateNamesRecursively GetName tys result i = result @ map2 GetName tys [i..<i + length tys]"
  by (induction tys arbitrary: result i) (auto simp: upt_conv_Cons simp del: upt_Suc)

lemma length_GenerateNames: "length (GenerateNames GetName types) = length types"
  by (simp add: GenerateNames_def GenerateNamesRecursively_eq)

text \<open>A redefinition of a test keeps the first place; after registration a definition aborts.\<close>

lemma AddTestName_keeps_first:
  "AddTestName file line n st = Inr st' \<Longrightarrow> ts_tests st m = Some loc \<Longrightarrow> ts_tests st' m = Some loc"
  by (auto simp: AddTestName_def split: if_splits)

lemma AddTestName_exists:
  "AddTestName file line n st = Inr st' \<Longrightarrow> TestExists (c_str n) st' \<and> \<not> ts_registered st"
  by (auto simp: AddTestName_def TestExists_def split: if_splits)

end
