(* ===== verification/Native_Array.thy ===== *)
theory Native_Array
  imports Prelude
begin

text \<open>
  Native arrays as containers: \<open>ArrayEq\<close>, \<open>ArrayAwareFind\<close>, \<open>CopyArray\<close> and
  \<open>NativeArray\<close> of \<open>GoogleTestFramework/.../internal/gtest-internal.h\<close>. An array of
  any number of dimensions is an \<open>ndarray\<close>; \<open>eq\<close> is the elements'
  \<open>operator==\<close>. The overloads of the source are chosen by the dimension, which are the cases
  of the definitions; arrays the compiler compares or copies have the same shape.
  Blocks of memory are kept by address, so that an array that refers to its source differs from
  one that owns a copy.
\<close>

datatype 'a ndarray = Scalar 'a | Array "'a ndarray list"

subsection \<open>Comparison, search, copy\<close>

fun ArrayEq :: "('a \<Rightarrow> 'a \<Rightarrow> bool) \<Rightarrow> 'a ndarray \<Rightarrow> 'a ndarray \<Rightarrow> bool"
and ArrayEq_loop :: "('a \<Rightarrow> 'a \<Rightarrow> bool) \<Rightarrow> 'a ndarray list \<Rightarrow> 'a ndarray list \<Rightarrow> bool" where
  "ArrayEq eq (Scalar x) (Scalar y) = eq x y"
| "ArrayEq eq (Array xs) (Array ys) = ArrayEq_loop eq xs ys"
| "ArrayEq eq _ _ = False"
| "ArrayEq_loop eq (x # xs) (y # ys) = (if \<not> ArrayEq eq x y then False else ArrayEq_loop eq xs ys)"
| "ArrayEq_loop eq [] _ = True"
| "ArrayEq_loop eq (x # xs) [] = False"

fun ArrayAwareFind_from :: "('a \<Rightarrow> 'a \<Rightarrow> bool) \<Rightarrow> 'a ndarray list \<Rightarrow> 'a ndarray \<Rightarrow> nat \<Rightarrow> nat" where
  "ArrayAwareFind_from eq [] elem it = it"
| "ArrayAwareFind_from eq (x # xs) elem it =
     (if ArrayEq eq x elem then it else ArrayAwareFind_from eq xs elem (it + 1))"

definition ArrayAwareFind :: "('a \<Rightarrow> 'a \<Rightarrow> bool) \<Rightarrow> 'a ndarray list \<Rightarrow> 'a ndarray \<Rightarrow> nat" where
  "ArrayAwareFind eq xs elem = ArrayAwareFind_from eq xs elem 0"

fun CopyArray :: "'a ndarray \<Rightarrow> 'a ndarray \<Rightarrow> 'a ndarray"
and CopyArray_loop :: "'a ndarray list \<Rightarrow> 'a ndarray list \<Rightarrow> 'a ndarray list" where
  "CopyArray (Scalar x) to = Scalar x"
| "CopyArray (Array xs) (Array ys) = Array (CopyArray_loop xs ys)"
| "CopyArray (Array xs) (Scalar y) = Scalar y"
| "CopyArray_loop (x # xs) (y # ys) = CopyArray x y # CopyArray_loop xs ys"
| "CopyArray_loop [] ys = ys"
| "CopyArray_loop (x # xs) [] = []"

text \<open>Two arrays of one type: the same number of elements in every dimension.\<close>

fun same_shape :: "'a ndarray \<Rightarrow> 'b ndarray \<Rightarrow> bool"
and same_shapes :: "'a ndarray list \<Rightarrow> 'b ndarray list \<Rightarrow> bool" where
  "same_shape (Scalar x) (Scalar y) = True"
| "same_shape (Array xs) (Array ys) = same_shapes xs ys"
| "same_shape _ _ = False"
| "same_shapes (x # xs) (y # ys) = (same_shape x y \<and> same_shapes xs ys)"
| "same_shapes [] [] = True"
| "same_shapes _ _ = False"

lemma same_shapes_length: "same_shapes xs ys \<Longrightarrow> length xs = length ys"
  by (induction xs arbitrary: ys) (case_tac ys; simp)+

lemma same_shapes_all: "(\<And>x. x \<in> set xs \<Longrightarrow> same_shape x x) \<Longrightarrow> same_shapes xs xs"
  by (induction xs) auto

lemma same_shape_refl: "same_shape x x"
  by (induction x) (auto intro: same_shapes_all)

lemma ArrayEq_equal:
  fixes x y :: "'a ndarray" and xs ys :: "'a ndarray list"
  shows
    "same_shape x y \<Longrightarrow> ArrayEq (=) x y \<longleftrightarrow> x = y"
    and "same_shapes xs ys \<Longrightarrow> ArrayEq_loop (=) xs ys \<longleftrightarrow> xs = ys"
  by (induction x y and xs ys rule: same_shape_same_shapes.induct) auto

lemma CopyArray_copies:
  fixes x y :: "'a ndarray" and xs ys :: "'a ndarray list"
  shows
    "same_shape x y \<Longrightarrow> CopyArray x y = x"
    and "same_shapes xs ys \<Longrightarrow> CopyArray_loop xs ys = xs"
  by (induction x y and xs ys rule: same_shape_same_shapes.induct) auto

lemma ArrayAwareFind_from_first:
  "ArrayAwareFind_from eq xs elem it = it + length (takeWhile (\<lambda>x. \<not> ArrayEq eq x elem) xs)"
  by (induction xs arbitrary: it) auto

text \<open>The search stops at the first element that equals the one sought, or at the end.\<close>

lemma ArrayAwareFind_first:
  "ArrayAwareFind eq xs elem = length (takeWhile (\<lambda>x. \<not> ArrayEq eq x elem) xs)"
  by (simp add: ArrayAwareFind_def ArrayAwareFind_from_first)

subsection \<open>\<open>NativeArray\<close>\<close>

type_synonym 'a blocks = "nat \<rightharpoonup> 'a ndarray list"

record native_array =
  na_array :: nat
  na_size :: nat
  na_copies :: bool

definition InitRef :: "nat \<Rightarrow> nat \<Rightarrow> native_array" where
  "InitRef array a_size = \<lparr>na_array = array, na_size = a_size, na_copies = False\<rparr>"

text \<open>\<open>new Element[a_size]\<close> gives a block at a fresh address, of elements of the same shape.\<close>

definition InitCopy :: "nat \<Rightarrow> 'a ndarray list \<Rightarrow> nat \<Rightarrow> nat \<Rightarrow> 'a blocks \<Rightarrow> (native_array \<times> 'a blocks) outcome" where
  "InitCopy fresh elements array a_size mem =
     (case mem array of
        None \<Rightarrow> Inl Undefined
      | Some block \<Rightarrow>
          if a_size \<le> length block
          then Inr (\<lparr>na_array = fresh, na_size = a_size, na_copies = True\<rparr>,
                    mem(fresh \<mapsto> CopyArray_loop (take a_size block) elements))
          else Inl Undefined)"

definition NativeArray_copy ::
  "nat \<Rightarrow> 'a ndarray list \<Rightarrow> native_array \<Rightarrow> 'a blocks \<Rightarrow> (native_array \<times> 'a blocks) outcome" where
  "NativeArray_copy fresh elements rhs mem =
     (if na_copies rhs then InitCopy fresh elements (na_array rhs) (na_size rhs) mem
      else Inr (InitRef (na_array rhs) (na_size rhs), mem))"

definition NativeArray_destroy :: "native_array \<Rightarrow> 'a blocks \<Rightarrow> 'a blocks outcome" where
  "NativeArray_destroy a mem =
     (if na_copies a
      then (if mem (na_array a) = None then Inl Undefined else Inr (mem(na_array a := None)))
      else Inr mem)"

definition NativeArray_eq :: "('a \<Rightarrow> 'a \<Rightarrow> bool) \<Rightarrow> native_array \<Rightarrow> native_array \<Rightarrow> 'a blocks \<Rightarrow> bool outcome" where
  "NativeArray_eq eq a rhs mem =
     (if na_size a \<noteq> na_size rhs then Inr False
      else (case (mem (na_array a), mem (na_array rhs)) of
              (Some xs, Some ys) \<Rightarrow>
                if na_size a \<le> length xs \<and> na_size a \<le> length ys
                then Inr (ArrayEq_loop eq (take (na_size a) xs) (take (na_size a) ys))
                else Inl Undefined
            | _ \<Rightarrow> Inl Undefined))"

text \<open>
  A copy equals its source, lives at its own address, and destroying it leaves every other block,
  the source's included, as it was.
\<close>

lemma InitCopy_spec:
  assumes "mem array = Some block" "n \<le> length block" "mem fresh = None" "same_shapes (take n block) elements"
  shows "\<exists>a mem'. InitCopy fresh elements array n mem = Inr (a, mem') \<and>
           mem' (na_array a) = Some (take n block) \<and> mem' array = Some block \<and>
           NativeArray_eq (=) a (InitRef array n) mem' = Inr True \<and>
           NativeArray_destroy a mem' = Inr mem"
proof -
  let ?a = "\<lparr>na_array = fresh, na_size = n, na_copies = True\<rparr>" and ?mem = "mem(fresh \<mapsto> take n block)"
  have "ArrayEq_loop (=) (take n block) (take n block)"
    using ArrayEq_equal(2) [OF same_shapes_all] same_shape_refl by blast
  then have "NativeArray_eq (=) ?a (InitRef array n) ?mem = Inr True"
    using assms by (auto simp: NativeArray_eq_def InitRef_def)
  moreover have "InitCopy fresh elements array n mem = Inr (?a, ?mem)"
    using assms CopyArray_copies(2) [OF assms(4)] by (simp add: InitCopy_def)
  moreover have "mem(fresh := None) = mem" using assms(3) by (simp add: fun_upd_idem)
  ultimately show ?thesis
    using assms by (intro exI [of _ ?a] exI [of _ ?mem]) (auto simp: NativeArray_destroy_def)
qed

end
