(* ===== verification/Floating_Point.thy ===== *)
theory Floating_Point
  imports Prelude "HOL-Library.Word"
begin

text \<open>
  The floating-point comparison of the test framework, the template \<open>FloatingPoint\<close> of
  \<open>GoogleTestFramework/.../internal/gtest-internal.h\<close>. A number is its IEEE bit pattern,
  a word of the template's width: the union of the class makes the two one object.
  \<open>f\<close> is \<open>kFractionBitCount\<close>, 23 on 32 bits for \<open>float\<close> and 52 on 64 bits
  for \<open>double\<close>; arithmetic on \<open>Bits\<close> wraps as the unsigned type does.
\<close>

unbundle bit_operations_syntax

subsection \<open>Constants and parts of a number\<close>

definition kExponentBitCount :: "'w::len itself \<Rightarrow> nat \<Rightarrow> nat" where
  "kExponentBitCount w f = LENGTH('w) - 1 - f"

definition kSignBitMask :: "'w::len word" where
  "kSignBitMask = push_bit (LENGTH('w) - 1) 1"

definition kFractionBitMask :: "nat \<Rightarrow> 'w::len word" where
  "kFractionBitMask f = drop_bit (kExponentBitCount TYPE('w) f + 1) (NOT 0)"

definition kExponentBitMask :: "nat \<Rightarrow> 'w::len word" where
  "kExponentBitMask f = NOT (kSignBitMask OR kFractionBitMask f)"

definition kMaxUlps :: "'w::len word" where
  "kMaxUlps = 4"

definition ReinterpretBits :: "'w::len word \<Rightarrow> 'w word" where
  "ReinterpretBits bits = bits"

definition Infinity :: "nat \<Rightarrow> 'w::len word" where
  "Infinity f = ReinterpretBits (kExponentBitMask f)"

definition exponent_bits :: "nat \<Rightarrow> 'w::len word \<Rightarrow> 'w word" where
  "exponent_bits f x = kExponentBitMask f AND x"

definition fraction_bits :: "nat \<Rightarrow> 'w::len word \<Rightarrow> 'w word" where
  "fraction_bits f x = kFractionBitMask f AND x"

definition sign_bit :: "'w::len word \<Rightarrow> 'w word" where
  "sign_bit x = kSignBitMask AND x"

definition is_nan :: "nat \<Rightarrow> 'w::len word \<Rightarrow> bool" where
  "is_nan f x \<longleftrightarrow> exponent_bits f x = kExponentBitMask f \<and> fraction_bits f x \<noteq> 0"

subsection \<open>Comparison\<close>

definition SignAndMagnitudeToBiased :: "'w::len word \<Rightarrow> 'w word" where
  "SignAndMagnitudeToBiased sam =
     (if kSignBitMask AND sam \<noteq> 0 then NOT sam + 1 else kSignBitMask OR sam)"

definition DistanceBetweenSignAndMagnitudeNumbers :: "'w::len word \<Rightarrow> 'w word \<Rightarrow> 'w word" where
  "DistanceBetweenSignAndMagnitudeNumbers sam1 sam2 =
     (let biased1 = SignAndMagnitudeToBiased sam1; biased2 = SignAndMagnitudeToBiased sam2
      in if biased2 \<le> biased1 then biased1 - biased2 else biased2 - biased1)"

definition AlmostEquals :: "nat \<Rightarrow> 'w::len word \<Rightarrow> 'w word \<Rightarrow> bool" where
  "AlmostEquals f x rhs =
     (if is_nan f x \<or> is_nan f rhs then False
      else DistanceBetweenSignAndMagnitudeNumbers x rhs \<le> kMaxUlps)"

subsection \<open>Bits and fields\<close>

text \<open>The number a sign-and-magnitude pattern stands for.\<close>

definition sam_value :: "'w::len word \<Rightarrow> int" where
  "sam_value x = (if 2 ^ (LENGTH('w) - 1) \<le> uint x then 2 ^ (LENGTH('w) - 1) - uint x else uint x)"

lemma two_halves: "(2::int) ^ LENGTH('w::len) = 2 * 2 ^ (LENGTH('w) - 1)"
  by (metis len_gt_0 power_eq_if not_gr_zero)

lemma bit_kSignBitMask [simp]: "bit (kSignBitMask :: 'w::len word) n \<longleftrightarrow> n = LENGTH('w) - 1"
  by (auto simp: kSignBitMask_def bit_exp_iff)

lemma top_bit: "bit (x :: 'w::len word) (LENGTH('w) - 1) \<longleftrightarrow> 2 ^ (LENGTH('w) - 1) \<le> uint x"
proof -
  have "uint x < 2 * 2 ^ (LENGTH('w) - 1)" using uint_bounded [of x] two_halves [where 'w = 'w] by simp
  then have "uint x div 2 ^ (LENGTH('w) - 1) = (if 2 ^ (LENGTH('w) - 1) \<le> uint x then 1 else 0)"
    by (auto simp: div_pos_pos_trivial intro!: int_div_pos_eq [of _ _ _ "uint x - 2 ^ (LENGTH('w) - 1)"])
  moreover have "bit x (LENGTH('w) - 1) \<longleftrightarrow> odd (uint x div 2 ^ (LENGTH('w) - 1))"
    using bit_uint_iff [of x "LENGTH('w) - 1"] bit_iff_odd [of "uint x" "LENGTH('w) - 1"] by simp
  ultimately show ?thesis by (auto split: if_splits)
qed

lemma sign_test: "kSignBitMask AND (x :: 'w::len word) \<noteq> 0 \<longleftrightarrow> 2 ^ (LENGTH('w) - 1) \<le> uint x"
proof -
  have "kSignBitMask AND x = 0 \<longleftrightarrow> \<not> bit x (LENGTH('w) - 1)"
    by (auto simp: bit_eq_iff [where 'a = "'w word"] bit_and_iff)
  then show ?thesis using top_bit by blast
qed

text \<open>The biased pattern is the number plus half the range, so it never wraps.\<close>

lemma uint_biased:
  "uint (SignAndMagnitudeToBiased (x :: 'w::len word)) = sam_value x + 2 ^ (LENGTH('w) - 1)"
proof (cases "2 ^ (LENGTH('w) - 1) \<le> uint x")
  case True
  have "(0::int) < 2 ^ (LENGTH('w) - 1)" by simp
  with True have "x \<noteq> 0" by auto
  then have "uint (- x) = 2 ^ LENGTH('w) - uint x"
    by (simp add: uint_word_ariths zmod_zminus1_eq_if uint_0_iff)
  then show ?thesis
    using True two_halves [where 'w = 'w] sign_test [of x]
    by (simp add: SignAndMagnitudeToBiased_def sam_value_def minus_eq_not_plus_1)
next
  case False
  then have "\<not> bit x (LENGTH('w) - 1)" using top_bit [of x] by blast
  then have "kSignBitMask AND x = 0" by (auto simp: bit_eq_iff [where 'a = "'w word"] bit_and_iff)
  then have "uint (kSignBitMask OR x) = uint (kSignBitMask :: 'w word) + uint x"
    by (metis disjunctive_add_eq_or uint_or uint_and uint_0_eq)
  moreover have "uint (kSignBitMask :: 'w word) = 2 ^ (LENGTH('w) - 1)"
    unfolding kSignBitMask_def unsigned_push_bit_eq by (simp add: take_bit_eq_mod two_halves)
  ultimately show ?thesis
    using False sign_test [of x] by (simp add: SignAndMagnitudeToBiased_def sam_value_def)
qed

lemma uint_distance:
  "uint (DistanceBetweenSignAndMagnitudeNumbers x y) = \<bar>sam_value x - sam_value (y :: 'w::len word)\<bar>"
  using uint_biased [of x] uint_biased [of y]
    uint_sub_lem [of "SignAndMagnitudeToBiased y" "SignAndMagnitudeToBiased x"]
    uint_sub_lem [of "SignAndMagnitudeToBiased x" "SignAndMagnitudeToBiased y"]
  by (cases "sam_value y \<le> sam_value x")
    (auto simp: DistanceBetweenSignAndMagnitudeNumbers_def Let_def word_le_def)

subsection \<open>Fields\<close>

text \<open>The magnitude of a pattern splits into exponent field and fraction field.\<close>

definition magnitude :: "'w::len word \<Rightarrow> nat" where
  "magnitude x = nat \<bar>sam_value x\<bar>"

lemma magnitude_take_bit: "magnitude (x :: 'w::len word) = take_bit (LENGTH('w) - 1) (unat x)"
proof -
  have "uint x mod 2 ^ (LENGTH('w) - 1) = \<bar>sam_value x\<bar>"
    using uint_bounded [of x] uint_ge_0 [of x] two_halves [where 'w = 'w]
      mod_pos_pos_trivial [of "uint x - 2 ^ (LENGTH('w) - 1)" "2 ^ (LENGTH('w) - 1)"]
    by (auto simp: sam_value_def)
  then have "int (magnitude x) = int (take_bit (LENGTH('w) - 1) (unat x))"
    unfolding magnitude_def take_bit_eq_mod of_nat_mod by simp
  then show ?thesis by (simp only: of_nat_eq_iff)
qed

lemma magnitude_bits: "bit (magnitude (x :: 'w::len word)) k \<longleftrightarrow> k < LENGTH('w) - 1 \<and> bit x k"
  by (auto simp: magnitude_take_bit bit_take_bit_iff bit_unsigned_iff)

lemma bit_kFractionBitMask:
  "f < LENGTH('w) \<Longrightarrow> bit (kFractionBitMask f :: 'w::len word) k \<longleftrightarrow> k < f"
  by (auto simp: kFractionBitMask_def kExponentBitCount_def bit_drop_bit_eq bit_simps)

lemma bit_kExponentBitMask:
  "f < LENGTH('w) \<Longrightarrow> bit (kExponentBitMask f :: 'w::len word) k \<longleftrightarrow> f \<le> k \<and> k < LENGTH('w) - 1"
  by (auto simp: kExponentBitMask_def bit_kFractionBitMask bit_simps)

lemma is_nan_bits:
  assumes "f < LENGTH('w)"
  shows "is_nan f (x :: 'w::len word) \<longleftrightarrow>
         (\<forall>k. f \<le> k \<and> k < LENGTH('w) - 1 \<longrightarrow> bit x k) \<and> (\<exists>k<f. bit x k)"
proof -
  have "exponent_bits f x = kExponentBitMask f \<longleftrightarrow> (\<forall>k. f \<le> k \<and> k < LENGTH('w) - 1 \<longrightarrow> bit x k)" (is "?l \<longleftrightarrow> ?r")
  proof
    assume l: ?l
    have "bit (exponent_bits f x) k = bit (kExponentBitMask f :: 'w word) k" for k using l by simp
    then show ?r using bit_kExponentBitMask [OF assms] unfolding exponent_bits_def bit_and_iff by blast
  next
    assume ?r
    then show ?l
      using assms by (intro bit_word_eqI) (auto simp: exponent_bits_def bit_and_iff bit_kExponentBitMask)
  qed
  moreover have "fraction_bits f x = 0 \<longleftrightarrow> (\<forall>k<f. \<not> bit x k)" (is "?l \<longleftrightarrow> ?r")
  proof
    assume l: ?l
    have "\<not> bit (fraction_bits f x) k" for k using l by simp
    then show ?r using assms by (simp add: fraction_bits_def bit_and_iff bit_kFractionBitMask)
  next
    assume ?r
    then show ?l
      using assms by (intro bit_word_eqI) (auto simp: fraction_bits_def bit_and_iff bit_kFractionBitMask)
  qed
  ultimately show ?thesis unfolding is_nan_def by blast
qed

lemma exponent_field:
  assumes "f < LENGTH('w)"
  shows "(\<forall>k. f \<le> k \<and> k < LENGTH('w) - 1 \<longrightarrow> bit x k) \<longleftrightarrow>
         magnitude (x :: 'w::len word) div 2 ^ f = 2 ^ (LENGTH('w) - 1 - f) - 1"
proof -
  have "magnitude x div 2 ^ f = 2 ^ (LENGTH('w) - 1 - f) - 1 \<longleftrightarrow>
        drop_bit f (magnitude x) = mask (LENGTH('w) - 1 - f)"
    by (simp add: drop_bit_eq_div mask_eq_exp_minus_1)
  also have "\<dots> \<longleftrightarrow> (\<forall>k. f + k < LENGTH('w) - 1 \<longrightarrow> bit x (f + k))"
    unfolding bit_eq_iff [of "drop_bit f (magnitude x)"]
    by (auto simp: bit_drop_bit_eq bit_mask_iff magnitude_bits less_diff_conv add.commute)
  also have "\<dots> \<longleftrightarrow> (\<forall>k. f \<le> k \<and> k < LENGTH('w) - 1 \<longrightarrow> bit x k)"
    by (auto simp: le_iff_add)
  finally show ?thesis by blast
qed

lemma fraction_field:
  assumes "f < LENGTH('w)"
  shows "(\<exists>k<f. bit x k) \<longleftrightarrow> magnitude (x :: 'w::len word) mod 2 ^ f \<noteq> 0"
proof -
  have "magnitude x mod 2 ^ f = 0 \<longleftrightarrow> take_bit f (magnitude x) = 0" by (simp add: take_bit_eq_mod)
  also have "\<dots> \<longleftrightarrow> (\<forall>k<f. \<not> bit x k)"
    unfolding bit_eq_iff [of "take_bit f (magnitude x)"] using assms by (auto simp: bit_take_bit_iff magnitude_bits)
  finally show ?thesis by auto
qed

lemma magnitude_less: "magnitude (x :: 'w::len word) < 2 ^ (LENGTH('w) - 1)"
  by (simp add: magnitude_take_bit)

lemma magnitude_Infinity:
  assumes "f < LENGTH('w)"
  shows "magnitude (Infinity f :: 'w::len word) = (2 ^ (LENGTH('w) - 1 - f) - 1) * 2 ^ f"
proof -
  have b: "bit (Infinity f :: 'w word) k \<longleftrightarrow> f \<le> k \<and> k < LENGTH('w) - 1" for k
    unfolding Infinity_def ReinterpretBits_def by (rule bit_kExponentBitMask [OF assms])
  have "magnitude (Infinity f :: 'w word) div 2 ^ f = 2 ^ (LENGTH('w) - 1 - f) - 1"
    by (rule exponent_field [OF assms, THEN iffD1]) (simp add: b)
  moreover have "magnitude (Infinity f :: 'w word) mod 2 ^ f = 0"
    using fraction_field [OF assms, of "Infinity f"] b by (meson not_less)
  ultimately show ?thesis by (metis add_0_right div_mult_mod_eq)
qed

text \<open>The patterns that are not a number are those beyond infinity.\<close>

lemma is_nan_iff:
  assumes "f < LENGTH('w)"
  shows "is_nan f (x :: 'w::len word) \<longleftrightarrow> magnitude (Infinity f :: 'w word) < magnitude x"
proof -
  let ?E = "2 ^ (LENGTH('w) - 1 - f) - 1 :: nat" and ?e = "magnitude x div 2 ^ f" and ?m = "magnitude x mod 2 ^ f"
  have "?e < 2 ^ (LENGTH('w) - 1 - f)"
    using magnitude_less [of x] assms by (intro less_mult_imp_div_less) (simp flip: power_add)
  then have e: "?e \<le> ?E" by simp
  have x: "magnitude x = ?e * 2 ^ f + ?m" "?m < 2 ^ f" by (rule div_mult_mod_eq [symmetric]) simp
  have "?E * 2 ^ f < magnitude x \<longleftrightarrow> ?e = ?E \<and> ?m \<noteq> 0"
  proof (cases "?e = ?E")
    case False
    with e have "?e + 1 \<le> ?E" by simp
    then have "(?e + 1) * 2 ^ f \<le> ?E * 2 ^ f" by (rule mult_right_mono) simp
    moreover have "magnitude x < (?e + 1) * 2 ^ f"
      using x(2) by (subst x(1)) (simp only: add_mult_distrib mult_1 add_less_cancel_left)
    ultimately have "\<not> ?E * 2 ^ f < magnitude x" by (meson not_less less_imp_le less_le_trans)
    then show ?thesis using False by blast
  next
    case True
    then show ?thesis using x by (metis less_add_same_cancel1 not_gr_zero)
  qed
  then show ?thesis
    unfolding magnitude_Infinity [OF assms] is_nan_bits [OF assms] exponent_field [OF assms] fraction_field [OF assms]
    by simp
qed

subsection \<open>Ranks of numbers\<close>

text \<open>
  The real number of a finite pattern, in units of the smallest positive number: with exponent field
  \<open>e\<close> and fraction field \<open>m\<close> it is \<open>m\<close> for the subnormal numbers (\<open>e = 0\<close>)
  and \<open>(2^f + m) * 2^(e-1)\<close> for the others, as IEEE 754 defines it.
\<close>

definition scaled_magnitude :: "nat \<Rightarrow> nat \<Rightarrow> nat" where
  "scaled_magnitude f n =
     (let e = n div 2 ^ f; m = n mod 2 ^ f in if e = 0 then m else (2 ^ f + m) * 2 ^ (e - 1))"

definition scaled_value :: "nat \<Rightarrow> 'w::len word \<Rightarrow> int" where
  "scaled_value f x =
     (if sam_value x < 0 then - int (scaled_magnitude f (magnitude x)) else int (scaled_magnitude f (magnitude x)))"

lemma scaled_magnitude_Suc: "scaled_magnitude f n < scaled_magnitude f (Suc n)"
proof (cases "Suc (n mod 2 ^ f) = 2 ^ f")
  case True
  then have s: "Suc n div 2 ^ f = Suc (n div 2 ^ f)" "Suc n mod 2 ^ f = 0" by (simp_all add: div_Suc mod_Suc)
  have m: "n mod 2 ^ f < 2 ^ f" by simp
  show ?thesis
  proof (cases "n div 2 ^ f")
    case 0
    then show ?thesis using s m by (simp add: scaled_magnitude_def Let_def)
  next
    case (Suc k)
    have "(2 ^ f + n mod 2 ^ f) * 2 ^ k < (2 * 2 ^ f) * (2 ^ k :: nat)" using m by (intro mult_strict_right_mono) auto
    then show ?thesis using s Suc by (simp add: scaled_magnitude_def Let_def algebra_simps)
  qed
next
  case False
  then have "Suc n div 2 ^ f = n div 2 ^ f" "Suc n mod 2 ^ f = Suc (n mod 2 ^ f)"
    by (simp_all add: div_Suc mod_Suc)
  then show ?thesis by (simp add: scaled_magnitude_def Let_def)
qed

lemma scaled_magnitude_less: "scaled_magnitude f m < scaled_magnitude f n \<longleftrightarrow> m < n"
  using lift_Suc_mono_less_iff [of "scaled_magnitude f" m n] scaled_magnitude_Suc by blast

lemma scaled_magnitude_0 [simp]: "scaled_magnitude f 0 = 0"
  by (simp add: scaled_magnitude_def)

text \<open>
  C40. \<open>FloatingPoint::AlmostEquals\<close>, at any width of at least three bits and any split into
  exponent and fraction: two patterns are almost equal exactly when neither is a NaN (that is,
  neither lies beyond infinity in magnitude) and the sign-and-magnitude numbers they stand for
  differ by at most four. So a NaN equals nothing, the two zeros are equal, and the largest finite
  numbers are almost equal to infinity; no wrap-around of the unsigned arithmetic shows.
\<close>

theorem AlmostEquals_iff:
  assumes "f < LENGTH('w)" "3 \<le> LENGTH('w)"
  shows "AlmostEquals f (x :: 'w::len word) y \<longleftrightarrow>
         \<bar>sam_value x\<bar> \<le> \<bar>sam_value (Infinity f :: 'w word)\<bar> \<and>
         \<bar>sam_value y\<bar> \<le> \<bar>sam_value (Infinity f :: 'w word)\<bar> \<and>
         \<bar>sam_value x - sam_value y\<bar> \<le> 4"
proof -
  have nan: "is_nan f z \<longleftrightarrow> \<bar>sam_value (Infinity f :: 'w word)\<bar> < \<bar>sam_value z\<bar>" for z :: "'w word"
    using is_nan_iff [OF assms(1), of z] by (auto simp: magnitude_def)
  have "(2::int) ^ 3 \<le> 2 ^ LENGTH('w)" using assms(2) by (intro power_increasing) auto
  then have "uint (kMaxUlps :: 'w word) = 4" by (simp add: kMaxUlps_def take_bit_eq_mod)
  then have "DistanceBetweenSignAndMagnitudeNumbers x y \<le> kMaxUlps \<longleftrightarrow> \<bar>sam_value x - sam_value y\<bar> \<le> 4"
    by (simp add: word_le_def uint_distance)
  then show ?thesis unfolding AlmostEquals_def nan by auto
qed

theorem AlmostEquals_iff_witness:
  "AlmostEquals 23 (0x80000000 :: 32 word) 1 \<and> \<not> AlmostEquals 23 (0x7FC00000 :: 32 word) 0x7FC00000 \<and>
   AlmostEquals 23 (0x7F7FFFFF :: 32 word) 0x7F800000 \<and> \<not> AlmostEquals 23 (0x3F800000 :: 32 word) 0x3F800005"
proof -
  have inf: "\<bar>sam_value (Infinity 23 :: 32 word)\<bar> = 0x7F800000"
    using magnitude_Infinity [where 'w = 32 and f = 23] by (simp add: magnitude_def)
  show ?thesis
    using AlmostEquals_iff [where f = 23 and x = "0x80000000 :: 32 word" and y = "1"] AlmostEquals_iff [where f = 23 and x = "0x7FC00000 :: 32 word" and y = "0x7FC00000"]
      AlmostEquals_iff [where f = 23 and x = "0x7F7FFFFF :: 32 word" and y = "0x7F800000"] AlmostEquals_iff [where f = 23 and x = "0x3F800000 :: 32 word" and y = "0x3F800005"]
    unfolding inf by (simp add: sam_value_def)
qed

text \<open>
  What the distance counts: the biased patterns that \<open>AlmostEquals\<close> subtracts are ordered
  as the real numbers of the patterns are, so the distance of two numbers is the number of steps
  from one representable number to the next between them.
\<close>

theorem biased_order:
  "SignAndMagnitudeToBiased x < SignAndMagnitudeToBiased (y :: 'w::len word) \<longleftrightarrow>
   scaled_value f x < scaled_value f y"
proof -
  have neg: "0 < scaled_magnitude f (magnitude z)" if "sam_value z < 0" for z :: "'w word"
    using that scaled_magnitude_less [of f 0 "magnitude z"] by (simp add: magnitude_def)
  have "scaled_value f x < scaled_value f y \<longleftrightarrow> sam_value x < sam_value y"
  proof (cases "sam_value x < 0"; cases "sam_value y < 0")
    assume "sam_value x < 0" "\<not> sam_value y < 0"
    then show ?thesis using neg [of x] by (simp add: scaled_value_def)
  next
    assume "\<not> sam_value x < 0" "sam_value y < 0"
    then show ?thesis using neg [of y] by (simp add: scaled_value_def)
  qed (simp_all add: scaled_value_def scaled_magnitude_less, auto simp: magnitude_def)
  then show ?thesis unfolding word_less_def uint_biased by simp
qed

end
