(* ===== verification/Interleaving.thy ===== *)
theory Interleaving
  imports Lifecycle
begin

text \<open>
  The command functions as the worker threads of the server execute them, side by side. WRITE,
  COMMIT and ABORT consist of sections with no lock in between: the look-up under the member
  lock, the acquisition of the transaction's mutex through the copied pointer, the second
  check under the member lock, the work under the transaction's mutex alone, and, for COMMIT,
  the flush under the file's mutex, with one step per buffer, and the removal under the member
  lock. A thread is its place in the code (\<open>pc\<close>) with the values it holds; the sections are
  the steps that any thread can take between any two steps of another.

  The mutexes of the tuples are numbered; a number is never used twice, so the number a thread
  has copied also tells whether its references into the map still refer to the tuple they were
  made for. READ and NEW\_TXN are one step each, as is every call of \<open>logTransaction\<close>.
\<close>

datatype pc =
  Start RequestTuple env bool
| Waiting RequestTuple env bool nat
| Checking RequestTuple env bool nat
| Working RequestTuple env bool nat
| Opening RequestTuple env bool nat
| Appending RequestTuple env bool nat File SeqNum
| Logging RequestTuple env bool nat File
| RollingBack RequestTuple env bool nat
| Finishing RequestTuple env bool nat
| Done RequestTuple "(Reply \<times> bool) outcome"

record conc =
  backend :: ServerBackend
  mtx_of :: "TxnId \<rightharpoonup> nat"
  next_mtx :: nat
  txn_lock :: "nat \<rightharpoonup> nat"
  file_lock :: "FileName \<rightharpoonup> nat"
  threads :: "nat \<rightharpoonup> pc"

definition goto :: "nat \<Rightarrow> pc \<Rightarrow> conc \<Rightarrow> conc" where
  "goto th pc c = c\<lparr>threads := (threads c)(th \<mapsto> pc)\<rparr>"

text \<open>The mutex of a tuple goes with the tuple; who has copied the pointer keeps its number.\<close>

definition adopt :: "ServerBackend \<Rightarrow> conc \<Rightarrow> conc" where
  "adopt b c = c\<lparr>backend := b, mtx_of := (\<lambda>i. if m_txns b i = None then None else mtx_of c i)\<rparr>"

text \<open>\<open>transaction_grd\<close> is released when the function returns.\<close>

definition finish :: "nat \<Rightarrow> nat \<Rightarrow> RequestTuple \<Rightarrow> command_result \<Rightarrow> conc \<Rightarrow> conc" where
  "finish th m req x c =
     goto th (Done req (fst x)) ((adopt (snd x) c)\<lparr>txn_lock := (txn_lock c)(m := None)\<rparr>)"

definition undefined_behaviour :: "nat \<Rightarrow> RequestTuple \<Rightarrow> conc \<Rightarrow> conc" where
  "undefined_behaviour th req c = goto th (Done req (Inl Undefined)) c"

text \<open>The tuple the references of a thread refer to; \<open>None\<close> when they dangle.\<close>

definition txn_tuple :: "TxnId \<Rightarrow> nat \<Rightarrow> conc \<Rightarrow> TransactionAttributes option" where
  "txn_tuple i m c = (if mtx_of c i = Some m then m_txns (backend c) i else None)"

subsection \<open>The sections\<close>

text \<open>Up to the first release of the member lock; the two commands of a single section as a whole.\<close>

definition section_enter :: "nat \<Rightarrow> RequestTuple \<Rightarrow> env \<Rightarrow> bool \<Rightarrow> conc \<Rightarrow> conc" where
  "section_enter th req e p c =
     (let b = backend c in
      case req of (command, txn_id, seq_num, content_len, data) \<Rightarrow>
        if command = write_cmd \<or> command = abort_cmd then
          (case committed_or_invalid_id txn_id b of
             Some err \<Rightarrow> goto th (Done req (fst (SET_ERROR err txn_id seq_num b))) c
           | None \<Rightarrow> goto th (Waiting req e p (the (mtx_of c txn_id))) c)
        else if command = commit_cmd then
          (if txn_id \<in> m_commits b then goto th (Done req (fst (SET_ACK txn_id seq_num p b))) c
           else if m_txns b txn_id = None
           then goto th (Done req (fst (SET_ERROR InvalidTransactionId txn_id seq_num b))) c
           else goto th (Waiting req e p (the (mtx_of c txn_id))) c)
        else
          (case processCommand req e p b of
             (r, b') \<Rightarrow>
               let c' = goto th (Done req r) (adopt b' c) in
               (case r of
                  Inr ((_, j, _), _) \<Rightarrow>
                    if m_txns b j = None \<and> m_txns b' j \<noteq> None
                    then c'\<lparr>mtx_of := (mtx_of c')(j \<mapsto> next_mtx c), next_mtx := Suc (next_mtx c)\<rparr>
                    else c'
                | Inl _ \<Rightarrow> c')))"

definition section_acquire :: "nat \<Rightarrow> RequestTuple \<Rightarrow> env \<Rightarrow> bool \<Rightarrow> nat \<Rightarrow> conc \<Rightarrow> conc option" where
  "section_acquire th req e p m c =
     (if txn_lock c m = None
      then Some (goto th (Checking req e p m) (c\<lparr>txn_lock := (txn_lock c)(m \<mapsto> th)\<rparr>))
      else None)"

text \<open>
  The second check. ABORT keeps the member lock from here to its end; it reaches the file's
  name through its reference to the tuple.
\<close>

definition section_check :: "nat \<Rightarrow> RequestTuple \<Rightarrow> env \<Rightarrow> bool \<Rightarrow> nat \<Rightarrow> conc \<Rightarrow> conc" where
  "section_check th req e p m c =
     (let b = backend c in
      case req of (command, txn_id, seq_num, content_len, data) \<Rightarrow>
        (case committed_or_aborted txn_id b of
           Some err \<Rightarrow> finish th m req (SET_ERROR err txn_id seq_num b) c
         | None \<Rightarrow>
             if command = abort_cmd then
               (if txn_tuple txn_id m c = None then undefined_behaviour th req c
                else finish th m req (ABORT_locked req p b) c)
             else goto th (Working req e p m) c))"

text \<open>
  Under the transaction's mutex: all of WRITE, and COMMIT up to the flush (\<open>None\<close>: every
  write is there).
\<close>

definition COMMIT_check ::
  "RequestTuple \<Rightarrow> env \<Rightarrow> bool \<Rightarrow> TransactionAttributes \<Rightarrow> ServerBackend \<Rightarrow> ((Reply \<times> bool) outcome) option \<times> ServerBackend" where
  "COMMIT_check req e p t b =
     (case req of (command, txn_id, seq_num, content_len, data) \<Rightarrow>
        let t = t\<lparr>curr_timestamp := now e\<rparr> in
        if seq_num < max_seq_num t
        then (Some (fst (SET_ERROR CommitWithInvalidSequenceNumber txn_id seq_num b)),
              b\<lparr>m_txns := (m_txns b)(txn_id \<mapsto> t)\<rparr>)
        else
          (let t = t\<lparr>max_seq_num := seq_num\<rparr>;
               b = b\<lparr>m_txns := (m_txns b)(txn_id \<mapsto> t)\<rparr> in
           case first_missing (buffers t) (initial_seq_num + 1) (max_seq_num t) of
             Some missing \<Rightarrow> (Some (fst (SET_ASK_RESEND txn_id missing p b)), b)
           | None \<Rightarrow> (None, b)))"

definition section_work :: "nat \<Rightarrow> RequestTuple \<Rightarrow> env \<Rightarrow> bool \<Rightarrow> nat \<Rightarrow> conc \<Rightarrow> conc" where
  "section_work th req e p m c =
     (let b = backend c in
      case req of (command, txn_id, seq_num, content_len, data) \<Rightarrow>
        (case txn_tuple txn_id m c of
           None \<Rightarrow> undefined_behaviour th req c
         | Some t \<Rightarrow>
             if command = write_cmd then finish th m req (WRITE_locked req e p b) c
             else (case COMMIT_check req e p t b of
                     (Some r, b) \<Rightarrow> finish th m req (r, b) c
                   | (None, b) \<Rightarrow> goto th (Opening req e p m) (c\<lparr>backend := b\<rparr>))))"

text \<open>
  The flush. \<open>file_grd\<close> is acquired before the file is opened; it is released, after the
  file is closed, by leaving the \<open>try\<close> block, on the way to a handler too.
\<close>

definition section_open :: "nat \<Rightarrow> RequestTuple \<Rightarrow> env \<Rightarrow> bool \<Rightarrow> nat \<Rightarrow> conc \<Rightarrow> conc option" where
  "section_open th req e p m c =
     (let b = backend c in
      case req of (command, txn_id, seq_num, content_len, data) \<Rightarrow>
        (case txn_tuple txn_id m c of
           None \<Rightarrow> Some (undefined_behaviour th req c)
         | Some t \<Rightarrow>
             if file_lock c (sp_file_attributes t) \<noteq> None then None
             else Some
               (case File_open (m_directory b @ sp_file_attributes t) (O_CREAT OR O_WRONLY OR O_APPEND) (m_os b) of
                  (None, s) \<Rightarrow> finish th m req (SET_ERROR ErrorOpeningFile txn_id seq_num (b\<lparr>m_os := s\<rparr>)) c
                | (Some file, s) \<Rightarrow>
                    goto th (Appending req e p m file (initial_seq_num + 1))
                      (c\<lparr>backend := b\<lparr>m_os := s\<rparr>, file_lock := (file_lock c)(sp_file_attributes t \<mapsto> th)\<rparr>))))"

definition section_append ::
  "nat \<Rightarrow> RequestTuple \<Rightarrow> env \<Rightarrow> bool \<Rightarrow> nat \<Rightarrow> File \<Rightarrow> SeqNum \<Rightarrow> conc \<Rightarrow> conc" where
  "section_append th req e p m file i c =
     (let b = backend c in
      case req of (command, txn_id, seq_num, content_len, data) \<Rightarrow>
        (case txn_tuple txn_id m c of
           None \<Rightarrow> undefined_behaviour th req c
         | Some t \<Rightarrow>
             if i \<le> max_seq_num t then
               (case buffers t i of
                  None \<Rightarrow> goto th (Done req (Inl Terminate)) c
                | Some d \<Rightarrow>
                    (case File_write file d (m_os b) of
                       (Inl x, s) \<Rightarrow> goto th (Done req (Inl x)) (c\<lparr>backend := b\<lparr>m_os := s\<rparr>\<rparr>)
                     | (Inr True, s) \<Rightarrow>
                         goto th (Appending req e p m file (i + 1)) (c\<lparr>backend := b\<lparr>m_os := s\<rparr>\<rparr>)
                     | (Inr False, s) \<Rightarrow>
                         goto th (RollingBack req e p m)
                           (c\<lparr>backend := b\<lparr>m_os := File_close file s\<rparr>,
                              file_lock := (file_lock c)(sp_file_attributes t := None)\<rparr>)))
             else goto th (Logging req e p m file) c))"

definition section_log :: "nat \<Rightarrow> RequestTuple \<Rightarrow> env \<Rightarrow> bool \<Rightarrow> nat \<Rightarrow> File \<Rightarrow> conc \<Rightarrow> conc" where
  "section_log th req e p m file c =
     (let b = backend c in
      case req of (command, txn_id, seq_num, content_len, data) \<Rightarrow>
        (case txn_tuple txn_id m c of
           None \<Rightarrow> undefined_behaviour th req c
         | Some t \<Rightarrow>
             (case logTransaction m_commit_log txn_id (sp_file_attributes t)
                     (b\<lparr>m_commits := insert txn_id (m_commits b)\<rparr>) of
                (Inl x, b) \<Rightarrow> goto th (Done req (Inl x)) (c\<lparr>backend := b\<rparr>)
              | (Inr _, b) \<Rightarrow>
                  (case getFileSize file (m_os b) of
                     Inl x \<Rightarrow> goto th (Done req (Inl x)) (c\<lparr>backend := b\<rparr>)
                   | Inr new_size \<Rightarrow>
                       goto th (Finishing req e p m)
                         (c\<lparr>backend := b\<lparr>m_files := (m_files b)(sp_file_attributes t :=
                                map_option (m_file_size_update (\<lambda>_. new_size)) (m_files b (sp_file_attributes t))),
                              m_os := File_close file (m_os b)\<rparr>,
                            file_lock := (file_lock c)(sp_file_attributes t := None)\<rparr>)))))"

text \<open>The handler of \<open>ErrorWritingToFile\<close>, with no file mutex held.\<close>

definition section_rollback :: "nat \<Rightarrow> RequestTuple \<Rightarrow> nat \<Rightarrow> conc \<Rightarrow> conc" where
  "section_rollback th req m c =
     (let b = backend c in
      case req of (command, txn_id, seq_num, content_len, data) \<Rightarrow>
        (case txn_tuple txn_id m c of
           None \<Rightarrow> undefined_behaviour th req c
         | Some t \<Rightarrow>
             (case m_files b (sp_file_attributes t) of
                None \<Rightarrow> undefined_behaviour th req c
              | Some fa \<Rightarrow>
                  finish th m req
                    (SET_ERROR ErrorWritingFile txn_id seq_num
                      (b\<lparr>m_os := snd (sys_truncate (m_file_name fa) (m_file_size fa) (m_os b))\<rparr>)) c)))"

definition section_finish :: "nat \<Rightarrow> RequestTuple \<Rightarrow> bool \<Rightarrow> nat \<Rightarrow> conc \<Rightarrow> conc" where
  "section_finish th req p m c =
     (case req of (command, txn_id, seq_num, content_len, data) \<Rightarrow>
        finish th m req (SET_ACK txn_id seq_num p (removeTransaction txn_id (backend c))) c)"

text \<open>One step of a thread; \<open>None\<close> when it has returned or waits for a mutex.\<close>

definition conc_step :: "nat \<Rightarrow> conc \<Rightarrow> conc option" where
  "conc_step th c =
     (case threads c th of
        None \<Rightarrow> None
      | Some (Start req e p) \<Rightarrow> Some (section_enter th req e p c)
      | Some (Waiting req e p m) \<Rightarrow> section_acquire th req e p m c
      | Some (Checking req e p m) \<Rightarrow> Some (section_check th req e p m c)
      | Some (Working req e p m) \<Rightarrow> Some (section_work th req e p m c)
      | Some (Opening req e p m) \<Rightarrow> section_open th req e p m c
      | Some (Appending req e p m file i) \<Rightarrow> Some (section_append th req e p m file i c)
      | Some (Logging req e p m file) \<Rightarrow> Some (section_log th req e p m file c)
      | Some (RollingBack req e p m) \<Rightarrow> Some (section_rollback th req m c)
      | Some (Finishing req e p m) \<Rightarrow> Some (section_finish th req p m c)
      | Some (Done req r) \<Rightarrow> None)"

fun conc_steps :: "nat list \<Rightarrow> conc \<Rightarrow> conc option" where
  "conc_steps [] c = Some c"
| "conc_steps (th # ths) c = Option.bind (conc_step th c) (conc_steps ths)"

text \<open>The threads of a backend with nothing under way.\<close>

definition conc_idle :: "(TxnId \<rightharpoonup> nat) \<Rightarrow> nat \<Rightarrow> ServerBackend \<Rightarrow> conc" where
  "conc_idle mtxs n b = \<lparr>backend = b, mtx_of = mtxs, next_mtx = n, txn_lock = Map.empty,
     file_lock = Map.empty, threads = Map.empty\<rparr>"


subsection \<open>A thread with nobody else around\<close>

lemma goto_simps [simp]:
  "backend (goto th pc c) = backend c" "mtx_of (goto th pc c) = mtx_of c" "next_mtx (goto th pc c) = next_mtx c"
  "txn_lock (goto th pc c) = txn_lock c" "file_lock (goto th pc c) = file_lock c"
  "threads (goto th pc c) = (threads c)(th \<mapsto> pc)"
  by (simp_all add: goto_def)

lemma adopt_simps [simp]:
  "backend (adopt b c) = b" "mtx_of (adopt b c) = (\<lambda>i. if m_txns b i = None then None else mtx_of c i)"
  "next_mtx (adopt b c) = next_mtx c" "txn_lock (adopt b c) = txn_lock c" "file_lock (adopt b c) = file_lock c"
  "threads (adopt b c) = threads c"
  by (simp_all add: adopt_def)

lemma txn_tuple_Some: "txn_tuple i m c = Some t \<longleftrightarrow> mtx_of c i = Some m \<and> m_txns (backend c) i = Some t"
  by (simp add: txn_tuple_def)

lemma finish_simps [simp]:
  "backend (finish th m req x c) = snd x" "file_lock (finish th m req x c) = file_lock c"
  "next_mtx (finish th m req x c) = next_mtx c" "txn_lock (finish th m req x c) = (txn_lock c)(m := None)"
  "threads (finish th m req x c) = (threads c)(th \<mapsto> Done req (fst x))"
  "mtx_of (finish th m req x c) = (\<lambda>i. if m_txns (snd x) i = None then None else mtx_of c i)"
  by (simp_all add: finish_def)

text \<open>\<open>c'\<close> is reached from \<open>c\<close> by steps of one thread, which returns \<open>r\<close> and has released its locks.\<close>

definition returns :: "nat \<Rightarrow> RequestTuple \<Rightarrow> command_result \<Rightarrow> conc \<Rightarrow> bool" where
  "returns th req x c \<longleftrightarrow> (\<exists>n c'. conc_steps (replicate n th) c = Some c' \<and> threads c' = (threads c)(th \<mapsto> Done req (fst x))
     \<and> backend c' = snd x \<and> txn_lock c' = Map.empty \<and> file_lock c' = Map.empty)"

lemma returns_now:
  assumes "threads c th = Some (Done req (fst x))" "backend c = snd x" "txn_lock c = Map.empty" "file_lock c = Map.empty"
  shows "returns th req x c"
  unfolding returns_def by (rule exI [of _ 0], rule exI [of _ c]) (use assms in auto)

lemmas section_defs = section_enter_def section_acquire_def section_check_def section_work_def section_open_def
  section_append_def section_log_def section_rollback_def section_finish_def undefined_behaviour_def

lemma conc_step_others:
  assumes "conc_step th c = Some c'" "u \<noteq> th"
  shows "threads c' u = threads c u"
proof -
  have "threads (section_enter th req e p c) u = threads c u" for req e p
    using assms(2) by (auto simp: section_enter_def Let_def split: option.split sum.split prod.split)
  moreover have "threads (section_check th req e p m c) u = threads c u" for req e p m
    using assms(2) by (auto simp: section_check_def undefined_behaviour_def Let_def split: option.split prod.split)
  moreover have "threads (section_work th req e p m c) u = threads c u" for req e p m
    using assms(2) by (auto simp: section_work_def undefined_behaviour_def Let_def split: option.split prod.split)
  moreover have "threads (section_append th req e p m fl j c) u = threads c u" for req e p m fl j
    using assms(2) by (auto simp: section_append_def undefined_behaviour_def Let_def split: option.split prod.split sum.split bool.split)
  moreover have "threads (section_log th req e p m fl c) u = threads c u" for req e p m fl
    using assms(2) by (auto simp: section_log_def undefined_behaviour_def Let_def split: option.split prod.split sum.split)
  moreover have "threads (section_rollback th req m c) u = threads c u" for req m
    using assms(2) by (auto simp: section_rollback_def undefined_behaviour_def Let_def split: option.split prod.split)
  moreover have "section_open th req e p m c = Some c' \<Longrightarrow> threads c' u = threads c u" for req e p m
    using assms(2) by (auto simp: section_open_def undefined_behaviour_def Let_def split: option.splits prod.splits if_splits)
  ultimately show ?thesis
    using assms by (auto simp: conc_step_def section_acquire_def section_finish_def split: option.splits pc.splits if_splits prod.splits)
qed

lemma returns_step:
  assumes "conc_step th c = Some c'" "returns th req x c'"
  shows "returns th req x c"
proof -
  note others = conc_step_others [OF assms(1)]
  from assms(2) obtain n c'' where n: "conc_steps (replicate n th) c' = Some c''"
    "threads c'' = (threads c')(th \<mapsto> Done req (fst x))" and
    r: "backend c'' = snd x" "txn_lock c'' = Map.empty" "file_lock c'' = Map.empty"
    by (auto simp: returns_def)
  have "threads c'' = (threads c)(th \<mapsto> Done req (fst x))" using n(2) others by auto
  with assms(1) n(1) r show ?thesis unfolding returns_def by (intro exI [of _ "Suc n"] exI [of _ c'']) simp
qed

lemma returns_last:
  assumes "conc_step th c = Some c'" "threads c' th = Some (Done req (fst x))" "backend c' = snd x"
    and "txn_lock c' = Map.empty" "file_lock c' = Map.empty"
  shows "returns th req x c"
  by (rule returns_step [OF assms(1) returns_now [OF assms(2-5)]])

text \<open>The loop over the buffers, one step each, against \<open>write_buffers\<close>.\<close>

definition after_writes :: "nat \<Rightarrow> RequestTuple \<Rightarrow> env \<Rightarrow> bool \<Rightarrow> nat \<Rightarrow> FileName \<Rightarrow> File \<Rightarrow> bool outcome \<Rightarrow> os \<Rightarrow> conc \<Rightarrow> conc" where
  "after_writes th req e p m f file w s c =
     (case w of
        Inl x \<Rightarrow> goto th (Done req (Inl x)) (c\<lparr>backend := (backend c)\<lparr>m_os := s\<rparr>\<rparr>)
      | Inr True \<Rightarrow> goto th (Logging req e p m file) (c\<lparr>backend := (backend c)\<lparr>m_os := s\<rparr>\<rparr>)
      | Inr False \<Rightarrow> goto th (RollingBack req e p m)
          (c\<lparr>backend := (backend c)\<lparr>m_os := File_close file s\<rparr>, file_lock := (file_lock c)(f := None)\<rparr>))"

lemma appending_returns:
  assumes "threads c th = Some (Appending (cmd, i, k, n, d) e p m file j)" "txn_tuple i m c = Some t"
    and "write_buffers file (buffers t) j (max_seq_num t) (m_os (backend c)) = (w, s)"
    and "returns th (cmd, i, k, n, d) x (after_writes th (cmd, i, k, n, d) e p m (sp_file_attributes t) file w s c)"
  shows "returns th (cmd, i, k, n, d) x c"
  using assms
proof (induction "nat (max_seq_num t + 1 - j)" arbitrary: c j)
  case (0 j c)
  then have j: "\<not> j \<le> max_seq_num t" by simp
  then have "w = Inr True" "s = m_os (backend c)" using "0.prems"(3) by (simp_all add: write_buffers.simps)
  then have "after_writes th (cmd, i, k, n, d) e p m (sp_file_attributes t) file w s c
      = section_append th (cmd, i, k, n, d) e p m file j c"
    using "0.prems"(2) j by (simp add: after_writes_def section_append_def Let_def)
  with "0.prems"(1,4) show ?case
    by (intro returns_step [of th c "section_append th (cmd, i, k, n, d) e p m file j c"])
       (simp_all add: conc_step_def after_writes_def goto_def split: sum.splits bool.splits)
next
  case (Suc l j c)
  then have j: "j \<le> max_seq_num t" by simp
  let ?next = "section_append th (cmd, i, k, n, d) e p m file j c"
  have step: "conc_step th c = Some ?next" using Suc.prems(1) by (simp add: conc_step_def)
  have "returns th (cmd, i, k, n, d) x ?next"
  proof (cases "\<exists>d' s'. buffers t j = Some d' \<and> File_write file d' (m_os (backend c)) = (Inr True, s')")
    case True
    then obtain d' s' where d': "buffers t j = Some d'" "File_write file d' (m_os (backend c)) = (Inr True, s')" by auto
    let ?c = "goto th (Appending (cmd, i, k, n, d) e p m file (j + 1)) (c\<lparr>backend := (backend c)\<lparr>m_os := s'\<rparr>\<rparr>)"
    have "?next = ?c" using Suc.prems(2) j d' by (simp add: section_append_def Let_def)
    moreover have "write_buffers file (buffers t) (j + 1) (max_seq_num t) s' = (w, s)"
      using Suc.prems(3) j d' by (simp add: write_buffers.simps [of _ _ j])
    moreover have "l = nat (max_seq_num t + 1 - (j + 1))" using Suc.hyps(2) by simp
    moreover have "after_writes th (cmd, i, k, n, d) e p m (sp_file_attributes t) file w s ?c
        = after_writes th (cmd, i, k, n, d) e p m (sp_file_attributes t) file w s c"
      by (simp add: after_writes_def goto_def split: sum.split bool.split)
    moreover have "txn_tuple i m ?c = Some t" using Suc.prems(2) by (simp add: txn_tuple_Some)
    ultimately show ?thesis using Suc.prems(4) Suc.hyps(1) [of "j + 1" ?c] by simp
  next
    case False
    then have "(w, s) = (case buffers t j of None \<Rightarrow> (Inl Terminate, m_os (backend c))
        | Some d \<Rightarrow> File_write file d (m_os (backend c)))"
      using Suc.prems(3) j by (subst (asm) write_buffers.simps) (auto split: option.splits sum.splits prod.splits bool.splits)
    with False have "?next = after_writes th (cmd, i, k, n, d) e p m (sp_file_attributes t) file w s c"
      using Suc.prems(2) j
      by (cases "buffers t j") (auto simp: section_append_def Let_def after_writes_def split: sum.splits prod.splits bool.splits)
    with Suc.prems(4) show ?thesis by simp
  qed
  with step show ?case by (rule returns_step)
qed


lemma flush_returns:
  assumes th: "threads c th = Some (Opening (cmd, i, k, n, d) e p m)" and t: "txn_tuple i m c = Some t"
    and fa: "m_files (backend c) (sp_file_attributes t) = Some fa" "m_file_name fa = sp_file_attributes t"
    and locks: "file_lock c = Map.empty" "txn_lock c = [m \<mapsto> th]"
    and safe: "COMMIT_flush i k t fa p (backend c) = (Inr r, b')"
  shows "returns th (cmd, i, k, n, d) (Inr r, b') c"
proof -
  let ?req = "(cmd, i, k, n, d)" and ?b = "backend c" and ?f = "sp_file_attributes t"
  note t' = t [unfolded txn_tuple_Some]
  obtain fo s1 where o: "File_open (m_directory ?b @ ?f) append_flags (m_os ?b) = (fo, s1)" by fastforce
  show ?thesis
  proof (cases fo)
    case None
    let ?c1 = "finish th m ?req (SET_ERROR ErrorOpeningFile i k (?b\<lparr>m_os := s1\<rparr>)) c"
    have "conc_step th c = Some ?c1" using th t locks o None by (simp add: conc_step_def section_open_def)
    moreover have "SET_ERROR ErrorOpeningFile i k (?b\<lparr>m_os := s1\<rparr>) = (Inr r, b')"
      using safe o None fa(2) by (simp add: COMMIT_flush_def)
    ultimately show ?thesis using locks by (intro returns_last [of th c ?c1]) simp_all
  next
    case (Some fl)
    let ?c1 = "goto th (Appending ?req e p m fl (initial_seq_num + 1))
      (c\<lparr>backend := ?b\<lparr>m_os := s1\<rparr>, file_lock := (file_lock c)(?f \<mapsto> th)\<rparr>)"
    have step: "conc_step th c = Some ?c1"
      using th t locks o Some by (simp add: conc_step_def section_open_def Let_def)
    obtain w s2 where w: "write_buffers fl (buffers t) (initial_seq_num + 1) (max_seq_num t) s1 = (w, s2)" by fastforce
    let ?c2 = "after_writes th ?req e p m ?f fl w s2 ?c1"
    have "returns th ?req (Inr r, b') ?c2"
    proof -
      consider x where "w = Inl x" | "w = Inr False" | "w = Inr True" by (metis (full_types) sum.exhaust)
      then show ?thesis
      proof cases
        case 1
        then show ?thesis using safe o Some w fa(2) by (simp add: COMMIT_flush_def)
      next
        case 2
        let ?res = "SET_ERROR ErrorWritingFile i k (?b\<lparr>m_os := snd (sys_truncate ?f (m_file_size fa) (File_close fl s2))\<rparr>)"
        let ?c3 = "finish th m ?req ?res ?c2"
        have "conc_step th ?c2 = Some ?c3"
          using 2 t' fa by (simp add: conc_step_def section_rollback_def after_writes_def txn_tuple_def Let_def)
        moreover have "?res = (Inr r, b')" using safe o Some w 2 fa(2) by (simp add: COMMIT_flush_def)
        ultimately show ?thesis using locks 2 by (intro returns_last [of th ?c2 ?c3]) (simp_all add: after_writes_def)
      next
        case 3
        obtain l b3 where lg: "logTransaction m_commit_log i ?f (?b\<lparr>m_os := s2, m_commits := insert i (m_commits ?b)\<rparr>) = (l, b3)"
          by fastforce
        with safe o Some w 3 fa(2) obtain z where l: "l = Inr ()" "getFileSize fl (m_os b3) = Inr z"
          by (auto simp: COMMIT_flush_def Let_def split: sum.splits)
        let ?b4 = "b3\<lparr>m_files := (m_files b3)(?f := map_option (m_file_size_update (\<lambda>_. z)) (m_files b3 ?f)),
          m_os := File_close fl (m_os b3)\<rparr>"
        let ?c3 = "goto th (Finishing ?req e p m) (?c2\<lparr>backend := ?b4, file_lock := (file_lock ?c2)(?f := None)\<rparr>)"
        let ?c4 = "finish th m ?req (SET_ACK i k p (removeTransaction i ?b4)) ?c3"
        have "conc_step th ?c2 = Some ?c3"
          using 3 t' lg l by (simp add: conc_step_def section_log_def after_writes_def txn_tuple_def Let_def)
        moreover have "conc_step th ?c3 = Some ?c4" by (simp add: conc_step_def section_finish_def)
        moreover have "SET_ACK i k p (removeTransaction i ?b4) = (Inr r, b')"
          using safe o Some w 3 lg l fa(2) by (simp add: COMMIT_flush_def Let_def)
        ultimately show ?thesis
          using locks 3 by (intro returns_step [of th ?c2 ?c3] returns_last [of th ?c3 ?c4]) (simp_all add: after_writes_def)
      qed
    qed
    then have "returns th ?req (Inr r, b') ?c1"
      using t' w by (intro appending_returns [of ?c1 th cmd i k n d e p m fl "initial_seq_num + 1" t w s2])
        (simp_all add: txn_tuple_def)
    with step show ?thesis by (rule returns_step)
  qed
qed


definition conc_consistent :: "conc \<Rightarrow> bool" where
  "conc_consistent c \<longleftrightarrow> backend_inv (backend c) \<and> dom (mtx_of c) = dom (m_txns (backend c))
     \<and> (\<forall>i j m. mtx_of c i = Some m \<longrightarrow> mtx_of c j = Some m \<longrightarrow> i = j)
     \<and> (\<forall>i m. mtx_of c i = Some m \<longrightarrow> m < next_mtx c)"

lemma txn_tuple_own:
  "conc_consistent c \<Longrightarrow> m_txns (backend c) i = Some t \<Longrightarrow> txn_tuple i (the (mtx_of c i)) c = Some t"
  by (auto simp: conc_consistent_def txn_tuple_Some dom_def set_eq_iff)

text \<open>The three sections at the start of every command that names an open transaction.\<close>

lemma checked_returns:
  assumes c: "conc_consistent c" and th: "threads c th = Some (Start req e p)" and req: "req = (cmd, i, k, n, d)"
    and cmd: "cmd = write_cmd \<or> cmd = commit_cmd \<or> cmd = abort_cmd"
    and open_txn: "m_txns (backend c) i = Some t" "i \<notin> m_commits (backend c)"
    and locks: "txn_lock c = Map.empty"
    and rest: "\<And>m c'. m = the (mtx_of c i) \<Longrightarrow> c' = goto th (Checking req e p m) (c\<lparr>txn_lock := [m \<mapsto> th]\<rparr>) \<Longrightarrow>
      mtx_of c i = Some m \<Longrightarrow> returns th req x (section_check th req e p m c')"
  shows "returns th req x c"
proof -
  let ?m = "the (mtx_of c i)"
  let ?c1 = "goto th (Waiting req e p ?m) c" and ?c2 = "goto th (Checking req e p ?m) (c\<lparr>txn_lock := [?m \<mapsto> th]\<rparr>)"
  have 1: "conc_step th c = Some ?c1"
    using th cmd open_txn by (auto simp: conc_step_def section_enter_def committed_or_invalid_id_def req Let_def consts_simps)
  have 2: "conc_step th ?c1 = Some ?c2" using locks by (simp add: conc_step_def section_acquire_def goto_def)
  have 3: "conc_step th ?c2 = Some (section_check th req e p ?m ?c2)" by (simp add: conc_step_def)
  have "mtx_of c i = Some ?m" using txn_tuple_own [OF c open_txn(1)] by (simp only: txn_tuple_Some)
  from returns_step [OF 1 returns_step [OF 2 returns_step [OF 3 rest [OF refl refl this]]]] show ?thesis .
qed


lemma committed_or_invalid:
  assumes "i \<in> m_commits b \<or> m_txns b i = None"
  obtains err where "committed_or_invalid_id i b = Some err"
  using assms by (cases "committed_or_invalid_id i b") (auto simp: committed_or_invalid_id_def split: if_splits)

lemma WRITE_returns:
  assumes "conc_consistent c" "threads c th = Some (Start (cmd, i, k, n, d) e p)" "cmd = write_cmd"
    and "txn_lock c = Map.empty" "file_lock c = Map.empty"
  shows "returns th (cmd, i, k, n, d) (WRITE (cmd, i, k, n, d) e p (backend c)) c"
proof (cases "i \<in> m_commits (backend c) \<or> m_txns (backend c) i = None")
  case True
  then obtain err where err: "committed_or_invalid_id i (backend c) = Some err"
    by (rule committed_or_invalid)
  let ?c = "goto th (Done (cmd, i, k, n, d) (fst (SET_ERROR err i k (backend c)))) c"
  have "conc_step th c = Some ?c" using assms(2,3) err by (simp add: conc_step_def section_enter_def)
  then show ?thesis
    using assms(4,5) err by (intro returns_last [of th c ?c]) (simp_all add: WRITE_def reply_simps)
next
  case False
  then obtain t where t: "m_txns (backend c) i = Some t" "i \<notin> m_commits (backend c)" by auto
  show ?thesis
  proof (rule checked_returns [OF assms(1,2) refl _ t assms(4)])
    fix m c'
    assume m: "c' = goto th (Checking (cmd, i, k, n, d) e p m) (c\<lparr>txn_lock := [m \<mapsto> th]\<rparr>)" "mtx_of c i = Some m"
    let ?c = "goto th (Working (cmd, i, k, n, d) e p m) c'"
    have sc: "section_check th (cmd, i, k, n, d) e p m c' = ?c"
      using t assms(3) by (simp add: section_check_def m(1) committed_or_aborted_def consts_simps)
    let ?c' = "finish th m (cmd, i, k, n, d) (WRITE_locked (cmd, i, k, n, d) e p (backend c)) ?c"
    have "conc_step th ?c = Some ?c'"
      using m(2) t assms(3) by (simp add: conc_step_def section_work_def m(1) txn_tuple_def)
    moreover have "WRITE (cmd, i, k, n, d) e p (backend c) = WRITE_locked (cmd, i, k, n, d) e p (backend c)"
      using t by (simp add: command_defs)
    ultimately show "returns th (cmd, i, k, n, d) (WRITE (cmd, i, k, n, d) e p (backend c)) (section_check th (cmd, i, k, n, d) e p m c')"
      unfolding sc using assms(5) by (intro returns_last [of th ?c ?c']) (simp_all add: m(1))
  qed (use assms(3) in blast)
qed


lemma ABORT_returns:
  assumes "conc_consistent c" "threads c th = Some (Start (cmd, i, k, n, d) e p)" "cmd = abort_cmd"
    and "txn_lock c = Map.empty" "file_lock c = Map.empty"
  shows "returns th (cmd, i, k, n, d) (ABORT (cmd, i, k, n, d) p (backend c)) c"
proof (cases "i \<in> m_commits (backend c) \<or> m_txns (backend c) i = None")
  case True
  then obtain err where err: "committed_or_invalid_id i (backend c) = Some err"
    by (rule committed_or_invalid)
  let ?c = "goto th (Done (cmd, i, k, n, d) (fst (SET_ERROR err i k (backend c)))) c"
  have "conc_step th c = Some ?c" using assms(2,3) err by (simp add: conc_step_def section_enter_def)
  then show ?thesis
    using assms(4,5) err by (intro returns_last [of th c ?c]) (simp_all add: ABORT_def reply_simps)
next
  case False
  then obtain t where t: "m_txns (backend c) i = Some t" "i \<notin> m_commits (backend c)" by auto
  show ?thesis
  proof (rule checked_returns [OF assms(1,2) refl _ t assms(4)])
    fix m c'
    assume m: "c' = goto th (Checking (cmd, i, k, n, d) e p m) (c\<lparr>txn_lock := [m \<mapsto> th]\<rparr>)" "mtx_of c i = Some m"
    have "section_check th (cmd, i, k, n, d) e p m c' = finish th m (cmd, i, k, n, d) (ABORT_locked (cmd, i, k, n, d) p (backend c)) c'"
      using t assms(3) m(2) by (simp add: section_check_def m(1) committed_or_aborted_def txn_tuple_def)
    moreover have "ABORT (cmd, i, k, n, d) p (backend c) = ABORT_locked (cmd, i, k, n, d) p (backend c)"
      using t by (simp add: command_defs)
    ultimately show "returns th (cmd, i, k, n, d) (ABORT (cmd, i, k, n, d) p (backend c)) (section_check th (cmd, i, k, n, d) e p m c')"
      using assms(5) by (intro returns_now) (simp_all add: m(1))
  qed (use assms(3) in blast)
qed

lemma COMMIT_locked_split:
  assumes "m_txns b i = Some t" "m_files b (sp_file_attributes t) = Some fa"
  shows "COMMIT_locked (cmd, i, k, n, d) e p b =
    (case COMMIT_check (cmd, i, k, n, d) e p t b of
       (Some r, b') \<Rightarrow> (r, b')
     | (None, b') \<Rightarrow> COMMIT_flush i k (closed_at k (now e) t) fa p b')"
  using assms by (simp add: COMMIT_locked_def COMMIT_check_def Let_def closed_at_def reply_simps split: option.split)

lemma COMMIT_check_None:
  assumes "COMMIT_check (cmd, i, k, n, d) e p t b = (None, b')"
  shows "b' = with_txn i (closed_at k (now e) t) b" "max_seq_num t \<le> k" "first_missing (buffers t) (initial_seq_num + 1) k = None"
  using assms by (auto simp: COMMIT_check_def Let_def closed_at_def split: if_splits option.splits)

lemma COMMIT_returns:
  assumes c: "conc_consistent c" and th: "threads c th = Some (Start (cmd, i, k, n, d) e p)" and cmd: "cmd = commit_cmd"
    and ok: "request_ok (cmd, i, k, n, d)" and locks: "txn_lock c = Map.empty" "file_lock c = Map.empty"
  shows "returns th (cmd, i, k, n, d) (COMMIT (cmd, i, k, n, d) e p (backend c)) c"
proof (cases "i \<in> m_commits (backend c) \<or> m_txns (backend c) i = None")
  case True
  let ?x = "COMMIT (cmd, i, k, n, d) e p (backend c)"
  let ?c = "goto th (Done (cmd, i, k, n, d) (fst ?x)) c"
  have "conc_step th c = Some ?c" "snd ?x = backend c"
    using th cmd True by (auto simp: conc_step_def section_enter_def Let_def COMMIT_def reply_simps consts_simps)
  then show ?thesis using locks by (intro returns_last [of th c ?c]) simp_all
next
  case False
  let ?req = "(cmd, i, k, n, d)" and ?b = "backend c"
  obtain r b' where x: "COMMIT ?req e p ?b = (Inr r, b')"
    using COMMIT_safe [of ?b ?req e p] c ok by (metis conc_consistent_def surj_pair)
  from False obtain t where t: "m_txns ?b i = Some t" "i \<notin> m_commits ?b" by auto
  obtain fa where fa: "m_files ?b (sp_file_attributes t) = Some fa" "m_file_name fa = sp_file_attributes t"
    using c t by (auto simp: conc_consistent_def elim: backend_inv_file)
  have split: "COMMIT ?req e p ?b = (case COMMIT_check ?req e p t ?b of
       (Some r, b') \<Rightarrow> (r, b') | (None, b') \<Rightarrow> COMMIT_flush i k (closed_at k (now e) t) fa p b')"
    using t COMMIT_locked_split [OF t(1) fa(1)] by (simp add: command_defs)
  show ?thesis
  proof (rule checked_returns [OF c th refl _ t locks(1)])
    fix m c'
    assume m: "c' = goto th (Checking ?req e p m) (c\<lparr>txn_lock := [m \<mapsto> th]\<rparr>)" "mtx_of c i = Some m"
    let ?c = "goto th (Working ?req e p m) c'"
    have sc: "section_check th ?req e p m c' = ?c"
      using t cmd by (simp add: section_check_def m(1) committed_or_aborted_def consts_simps)
    show "returns th ?req (COMMIT ?req e p ?b) (section_check th ?req e p m c')"
      unfolding sc x
    proof (cases "COMMIT_check ?req e p t ?b")
      case (Pair ro b1)
      show "returns th ?req (Inr r, b') ?c"
      proof (cases ro)
        case (Some r')
        then have r': "(r', b1) = (Inr r, b')" using split x Pair by simp
        let ?c2 = "finish th m ?req (r', b1) ?c"
        have "conc_step th ?c = Some ?c2"
          using t m(2) cmd Pair Some by (simp add: conc_step_def section_work_def txn_tuple_def m(1) consts_simps)
        then show ?thesis using locks r' by (intro returns_last [of th ?c ?c2]) (simp_all add: m(1))
      next
        case None
        note b1 = COMMIT_check_None [OF Pair [unfolded None]]
        let ?c2 = "goto th (Opening ?req e p m) (?c\<lparr>backend := b1\<rparr>)"
        have "conc_step th ?c = Some ?c2"
          using t m(2) cmd Pair None by (simp add: conc_step_def section_work_def txn_tuple_def m(1) consts_simps)
        moreover have "returns th ?req (Inr r, b') ?c2"
        proof (rule flush_returns)
          show "txn_tuple i m ?c2 = Some (closed_at k (now e) t)" using m(2) by (simp add: txn_tuple_Some m(1) b1(1))
          show "COMMIT_flush i k (closed_at k (now e) t) fa p (backend ?c2) = (Inr r, b')"
            using split x Pair None by simp
        qed (use fa locks in \<open>simp_all add: b1(1) m(1)\<close>)
        ultimately show ?thesis by (rule returns_step)
      qed
    qed
  qed (use cmd in blast)
qed

text \<open>
  C8. A thread that runs a request while no other thread takes a step: it never waits, it
  returns after finitely many steps, and the reply and the state of the backend are the ones
  of \<open>processCommand\<close>; no lock is left behind.
\<close>

theorem sections_compose:
  assumes c: "conc_consistent c" and th: "threads c th = Some (Start req e p)" and ok: "request_ok req"
    and locks: "txn_lock c = Map.empty" "file_lock c = Map.empty"
  shows "\<exists>n c'. conc_steps (replicate n th) c = Some c'
    \<and> threads c' = (threads c)(th \<mapsto> Done req (fst (processCommand req e p (backend c))))
    \<and> backend c' = snd (processCommand req e p (backend c)) \<and> txn_lock c' = Map.empty \<and> file_lock c' = Map.empty"
  unfolding returns_def [symmetric]
proof -
  obtain cmd i k n d where req: "req = (cmd, i, k, n, d)" by (cases req)
  consider "cmd = write_cmd" | "cmd = commit_cmd" | "cmd = abort_cmd"
    | "cmd \<noteq> write_cmd" "cmd \<noteq> commit_cmd" "cmd \<noteq> abort_cmd" by blast
  then show "returns th req (processCommand req e p (backend c)) c"
  proof cases
    case 1
    with WRITE_returns [OF c th [unfolded req] _ locks] show ?thesis by (simp add: req processCommand_def consts_simps)
  next
    case 2
    with COMMIT_returns [OF c th [unfolded req] _ ok [unfolded req] locks] show ?thesis
      by (simp add: req processCommand_def consts_simps)
  next
    case 3
    with ABORT_returns [OF c th [unfolded req] _ locks] show ?thesis by (simp add: req processCommand_def consts_simps)
  next
    case 4
    let ?c = "section_enter th req e p c"
    have "conc_step th c = Some ?c" using th by (simp add: conc_step_def)
    moreover have "threads ?c th = Some (Done req (fst (processCommand req e p (backend c))))
        \<and> backend ?c = snd (processCommand req e p (backend c)) \<and> txn_lock ?c = Map.empty \<and> file_lock ?c = Map.empty"
      using 4 locks by (auto simp: req section_enter_def Let_def split: prod.split sum.split)
    ultimately show ?thesis by (intro returns_last [of th c ?c]) auto
  qed
qed

end
