(* ===== verification/Interleaving_Safety.thy ===== *)
theory Interleaving_Safety
  imports Interleaving
begin

text \<open>
  Every interleaving of the sections. The invariant says of each thread, by its place in the
  code, what it owns; the proof is by rely and guarantee: a step changes only what its thread
  owns or what nobody refers to, and what a thread knows of the state survives such steps.

  The discipline under which no reference dangles has two conditions, which the code leaves to
  chance: \<open>rand\<close> does not deliver an identifier that a request under way names, and no timer
  expires a transaction while a request for it is under way. Without the first or the second,
  undefined behaviour is reached.
\<close>

subsection \<open>Runs\<close>

fun under_way :: "pc \<Rightarrow> (RequestTuple \<times> nat) option" where
  "under_way (Start req e p) = None"
| "under_way (Waiting req e p m) = Some (req, m)"
| "under_way (Checking req e p m) = Some (req, m)"
| "under_way (Working req e p m) = Some (req, m)"
| "under_way (Opening req e p m) = Some (req, m)"
| "under_way (Appending req e p m f j) = Some (req, m)"
| "under_way (Logging req e p m f) = Some (req, m)"
| "under_way (RollingBack req e p m) = Some (req, m)"
| "under_way (Finishing req e p m) = Some (req, m)"
| "under_way (Done req r) = None"

abbreviation id_of :: "RequestTuple \<Rightarrow> TxnId" where
  "id_of req \<equiv> fst (snd req)"

definition in_use :: "TxnId \<Rightarrow> conc \<Rightarrow> bool" where
  "in_use i c \<longleftrightarrow> (\<exists>th pc req m. threads c th = Some pc \<and> under_way pc = Some (req, m) \<and> id_of req = i)"

definition opened :: "TxnId \<Rightarrow> conc \<Rightarrow> conc \<Rightarrow> bool" where
  "opened i c c' \<longleftrightarrow> m_txns (backend c) i = None \<and> m_txns (backend c') i \<noteq> None"

inductive conc_reach :: "bool \<Rightarrow> conc \<Rightarrow> conc \<Rightarrow> bool" for disciplined c0 where
  start: "conc_reach disciplined c0 c0"
| spawn: "conc_reach disciplined c0 c \<Longrightarrow> threads c th = None \<Longrightarrow> request_ok req \<Longrightarrow>
    conc_reach disciplined c0 (goto th (Start req e p) c)"
| step: "conc_reach disciplined c0 c \<Longrightarrow> conc_step th c = Some c' \<Longrightarrow>
    (disciplined \<Longrightarrow> \<forall>i. opened i c c' \<longrightarrow> \<not> in_use i c) \<Longrightarrow> conc_reach disciplined c0 c'"
| timer: "conc_reach disciplined c0 c \<Longrightarrow> nul_free (timer_file_name tm) \<Longrightarrow>
    txn_timer_turn tm w (backend c) = (r, b') \<Longrightarrow>
    (disciplined \<Longrightarrow> \<not> in_use (timer_txn_id tm) c) \<Longrightarrow> conc_reach disciplined c0 (adopt b' c)"

subsection \<open>The invariant\<close>

definition owns :: "nat \<Rightarrow> TxnId \<Rightarrow> nat \<Rightarrow> conc \<Rightarrow> bool" where
  "owns th i m c \<longleftrightarrow> txn_lock c m = Some th \<and> mtx_of c i = Some m"

definition names_txn :: "RequestTuple \<Rightarrow> bool" where
  "names_txn req \<longleftrightarrow> fst req \<in> {write_cmd, commit_cmd, abort_cmd}"

text \<open>A transaction all of whose writes are there and that is not committed yet.\<close>

definition complete :: "TxnId \<Rightarrow> conc \<Rightarrow> bool" where
  "complete i c \<longleftrightarrow> i \<notin> m_commits (backend c) \<and> (\<exists>t. m_txns (backend c) i = Some t
     \<and> first_missing (buffers t) (initial_seq_num + 1) (max_seq_num t) = None)"

definition owns_file :: "nat \<Rightarrow> TxnId \<Rightarrow> File \<Rightarrow> conc \<Rightarrow> bool" where
  "owns_file th i f c \<longleftrightarrow> (\<exists>t. m_txns (backend c) i = Some t \<and> file_lock c (sp_file_attributes t) = Some th
     \<and> m_fd f = data_key (sp_file_attributes t) (backend c)) \<and> m_flags f = append_flags
     \<and> os_files (m_os (backend c)) (m_fd f) \<noteq> None"

fun thread_inv :: "nat \<Rightarrow> pc \<Rightarrow> conc \<Rightarrow> bool" where
  "thread_inv th (Start req e p) c = request_ok req"
| "thread_inv th (Waiting req e p m) c = (request_ok req \<and> names_txn req
     \<and> (m_txns (backend c) (id_of req) \<noteq> None \<longrightarrow> mtx_of c (id_of req) = Some m))"
| "thread_inv th (Checking req e p m) c = (request_ok req \<and> names_txn req \<and> txn_lock c m = Some th
     \<and> (m_txns (backend c) (id_of req) \<noteq> None \<longrightarrow> mtx_of c (id_of req) = Some m))"
| "thread_inv th (Working req e p m) c = (request_ok req \<and> fst req \<in> {write_cmd, commit_cmd}
     \<and> owns th (id_of req) m c \<and> id_of req \<notin> m_commits (backend c))"
| "thread_inv th (Opening req e p m) c = (request_ok req \<and> owns th (id_of req) m c \<and> complete (id_of req) c)"
| "thread_inv th (Appending req e p m f j) c = (request_ok req \<and> owns th (id_of req) m c \<and> complete (id_of req) c
     \<and> owns_file th (id_of req) f c \<and> initial_seq_num + 1 \<le> j)"
| "thread_inv th (Logging req e p m f) c = (request_ok req \<and> owns th (id_of req) m c \<and> complete (id_of req) c
     \<and> owns_file th (id_of req) f c)"
| "thread_inv th (RollingBack req e p m) c = (request_ok req \<and> owns th (id_of req) m c \<and> complete (id_of req) c)"
| "thread_inv th (Finishing req e p m) c = (request_ok req \<and> owns th (id_of req) m c)"
| "thread_inv th (Done req r) c = (names_txn req \<longrightarrow> (\<exists>x. r = Inr x))"

text \<open>A thread has no mutexes but the ones its place in the code says.\<close>

definition holds :: "pc \<Rightarrow> nat option" where
  "holds pc = (case pc of Waiting _ _ _ _ \<Rightarrow> None | _ \<Rightarrow> map_option snd (under_way pc))"

definition holds_file :: "pc \<Rightarrow> TxnId option" where
  "holds_file pc = (case pc of Appending req _ _ _ _ _ \<Rightarrow> Some (id_of req) | Logging req _ _ _ _ \<Rightarrow> Some (id_of req) | _ \<Rightarrow> None)"

definition lock_inv :: "nat \<Rightarrow> pc \<Rightarrow> conc \<Rightarrow> bool" where
  "lock_inv th pc c \<longleftrightarrow> (\<forall>m. txn_lock c m = Some th \<longrightarrow> holds pc = Some m)
     \<and> (\<forall>f. file_lock c f = Some th \<longrightarrow>
          (\<exists>i t. holds_file pc = Some i \<and> m_txns (backend c) i = Some t \<and> sp_file_attributes t = f))"

lemma holds_simps [simp]:
  "holds (Start req e p) = None" "holds (Waiting req e p m) = None" "holds (Checking req e p m) = Some m"
  "holds (Working req e p m) = Some m" "holds (Opening req e p m) = Some m" "holds (Appending req e p m f j) = Some m"
  "holds (Logging req e p m f) = Some m" "holds (RollingBack req e p m) = Some m" "holds (Finishing req e p m) = Some m"
  "holds (Done req r) = None"
  "holds_file (Start req e p) = None" "holds_file (Waiting req e p m) = None" "holds_file (Checking req e p m) = None"
  "holds_file (Working req e p m) = None" "holds_file (Opening req e p m) = None"
  "holds_file (Appending req e p m f j) = Some (id_of req)" "holds_file (Logging req e p m f) = Some (id_of req)"
  "holds_file (RollingBack req e p m) = None" "holds_file (Finishing req e p m) = None" "holds_file (Done req r) = None"
  by (simp_all add: holds_def holds_file_def)

definition conc_inv :: "conc \<Rightarrow> bool" where
  "conc_inv c \<longleftrightarrow> conc_consistent c
     \<and> (\<forall>th pc. threads c th = Some pc \<longrightarrow> thread_inv th pc c \<and> lock_inv th pc c)
     \<and> (\<forall>th. threads c th = None \<longrightarrow> (\<forall>m. txn_lock c m \<noteq> Some th) \<and> (\<forall>f. file_lock c f \<noteq> Some th))"

subsection \<open>What a step may change\<close>

definition os_kept :: "os \<Rightarrow> os \<Rightarrow> bool" where
  "os_kept s s' \<longleftrightarrow> os_resolve s' = os_resolve s \<and> (\<forall>K. os_files s K \<noteq> None \<longrightarrow> os_files s' K \<noteq> None)"

definition guarantee :: "nat \<Rightarrow> conc \<Rightarrow> conc \<Rightarrow> bool" where
  "guarantee th c c' \<longleftrightarrow>
     (\<forall>m. txn_lock c' m \<noteq> txn_lock c m \<longrightarrow> {txn_lock c m, txn_lock c' m} \<subseteq> {None, Some th})
   \<and> (\<forall>f. file_lock c' f \<noteq> file_lock c f \<longrightarrow> {file_lock c f, file_lock c' f} \<subseteq> {None, Some th})
   \<and> (\<forall>i. m_txns (backend c) i \<noteq> None \<longrightarrow>
        m_txns (backend c') i = m_txns (backend c) i \<and> (i \<in> m_commits (backend c') \<longleftrightarrow> i \<in> m_commits (backend c))
        \<or> (\<exists>m. owns th i m c))
   \<and> (\<forall>i. m_txns (backend c) i \<noteq> None \<longrightarrow> m_txns (backend c') i \<noteq> None \<longrightarrow> mtx_of c' i = mtx_of c i)
   \<and> os_kept (m_os (backend c)) (m_os (backend c')) \<and> m_directory (backend c') = m_directory (backend c)"

lemma owns_unique:
  "conc_consistent c \<Longrightarrow> owns th i m c \<Longrightarrow> owns th' i m' c \<Longrightarrow> th = th' \<and> m = m'"
  by (simp add: owns_def)

lemma owns_txn: "conc_consistent c \<Longrightarrow> owns th i m c \<Longrightarrow> \<exists>t. m_txns (backend c) i = Some t"
  by (auto simp: conc_consistent_def owns_def dom_def set_eq_iff)

lemma stable_lock:
  assumes "guarantee th' c c'" "th' \<noteq> th"
  shows "txn_lock c' m = Some th \<longleftrightarrow> txn_lock c m = Some th" "file_lock c' f = Some th \<longleftrightarrow> file_lock c f = Some th"
proof -
  have "txn_lock c' m \<noteq> txn_lock c m \<Longrightarrow> {txn_lock c m, txn_lock c' m} \<subseteq> {None, Some th'}"
    "file_lock c' f \<noteq> file_lock c f \<Longrightarrow> {file_lock c f, file_lock c' f} \<subseteq> {None, Some th'}"
    using assms(1) [unfolded guarantee_def, THEN conjunct1, THEN spec, of m]
      assms(1) [unfolded guarantee_def, THEN conjunct2, THEN conjunct1, THEN spec, of f] by simp_all
  with assms(2) show "txn_lock c' m = Some th \<longleftrightarrow> txn_lock c m = Some th" "file_lock c' f = Some th \<longleftrightarrow> file_lock c f = Some th"
    by (cases "txn_lock c' m = txn_lock c m"; cases "file_lock c' f = file_lock c f"; auto)+
qed

lemma stable_owns:
  assumes c: "conc_consistent c" and g: "guarantee th' c c'" "th' \<noteq> th" and o: "owns th i m c"
  shows "owns th i m c'" "m_txns (backend c') i = m_txns (backend c) i"
    "i \<in> m_commits (backend c') \<longleftrightarrow> i \<in> m_commits (backend c)"
proof -
  obtain t where t: "m_txns (backend c) i = Some t" using owns_txn [OF c o] by blast
  have no: "\<not> (\<exists>m. owns th' i m c)" using owns_unique [OF c o] g(2) by blast
  with g(1) t show tx: "m_txns (backend c') i = m_txns (backend c) i" "i \<in> m_commits (backend c') \<longleftrightarrow> i \<in> m_commits (backend c)"
    unfolding guarantee_def by blast+
  have "mtx_of c' i = mtx_of c i" using g(1) tx(1) t unfolding guarantee_def by simp
  moreover have "txn_lock c' m = Some th" using g o by (simp add: stable_lock owns_def)
  ultimately show "owns th i m c'" using o by (simp add: owns_def)
qed

lemma stable_thread:
  assumes c: "conc_consistent c" and g: "guarantee th' c c'" "th' \<noteq> th"
    and new: "\<And>req m. under_way pc = Some (req, m) \<Longrightarrow> \<not> opened (id_of req) c c'"
    and inv: "thread_inv th pc c"
  shows "thread_inv th pc c'"
proof -
  note st = stable_owns [OF c g]
  have comp: "complete i c'" if "complete i c" "owns th i m c" for i m
    using that(1) st(2,3) [OF that(2)] by (simp add: complete_def)
  have fl: "owns_file th i f c'" if "owns_file th i f c" "owns th i m c" for i f m
    using that(1) st(2) [OF that(2)] stable_lock(2) [OF g] g(1) unfolding owns_file_def guarantee_def os_kept_def by simp
  have same: "mtx_of c' (id_of req) = Some m"
    if "under_way pc = Some (req, m')" "m_txns (backend c) (id_of req) \<noteq> None \<longrightarrow> mtx_of c (id_of req) = Some m"
      "m_txns (backend c') (id_of req) \<noteq> None" for req m m'
    using new [OF that(1)] that(2,3) g(1) unfolding opened_def guarantee_def by metis
  show ?thesis
  proof (cases pc)
    case (Checking req e p m)
    then have "txn_lock c' m = Some th" using inv stable_lock(1) [OF g] by simp
    with Checking inv same show ?thesis by auto
  qed (use inv st comp fl same in auto)
qed


lemma stable_lock_inv:
  assumes c: "conc_consistent c" and g: "guarantee th' c c'" "th' \<noteq> th" and ti: "thread_inv th pc c" and li: "lock_inv th pc c"
  shows "lock_inv th pc c'"
proof -
  have "m_txns (backend c') i = m_txns (backend c) i" if "holds_file pc = Some i" for i
  proof -
    from that ti obtain m where "owns th i m c" by (cases pc) auto
    then show ?thesis by (rule stable_owns(2) [OF c g])
  qed
  with li show ?thesis unfolding lock_inv_def by (simp add: stable_lock [OF g]) metis
qed

subsection \<open>Building blocks of the steps\<close>

lemma os_kept_refl [simp]: "os_kept s s"
  by (simp add: os_kept_def)

lemma os_kept_touches: "touches keys s s' \<Longrightarrow> os_kept s s'"
  unfolding os_kept_def touches_def by (metis not_None_eq)

lemma os_kept_truncate: "os_kept s (snd (sys_truncate f n s))"
  by (simp add: os_kept_def sys_truncate_def Let_def)

lemma conc_consistent_locks [simp]:
  "conc_consistent (goto th pc c) = conc_consistent c"
  "conc_consistent (c\<lparr>txn_lock := l\<rparr>) = conc_consistent c"
  "conc_consistent (c\<lparr>file_lock := fl\<rparr>) = conc_consistent c"
  "conc_consistent (c\<lparr>backend := b, file_lock := fl\<rparr>) = conc_consistent (c\<lparr>backend := b\<rparr>)"
  by (simp_all add: conc_consistent_def)

lemma conc_consistent_backend:
  "conc_consistent c \<Longrightarrow> backend_inv b \<Longrightarrow> dom (m_txns b) = dom (m_txns (backend c)) \<Longrightarrow> conc_consistent (c\<lparr>backend := b\<rparr>)"
  by (simp add: conc_consistent_def)

lemma conc_consistent_adopt:
  assumes "conc_consistent c" "backend_inv b" "dom (m_txns b) \<subseteq> dom (m_txns (backend c))"
  shows "conc_consistent (adopt b c)"
proof -
  have "dom (mtx_of (adopt b c)) = dom (m_txns b) \<inter> dom (mtx_of c)" by (auto split: if_splits)
  moreover have "dom (mtx_of c) = dom (m_txns (backend c))" using assms(1) by (simp add: conc_consistent_def)
  ultimately have "dom (mtx_of (adopt b c)) = dom (m_txns b)" using assms(3) by (simp only: Int_absorb2)
  then show ?thesis using assms(1,2) by (auto simp: conc_consistent_def)
qed

lemma conc_consistent_finish:
  "conc_consistent c \<Longrightarrow> backend_inv (snd x) \<Longrightarrow> dom (m_txns (snd x)) \<subseteq> dom (m_txns (backend c)) \<Longrightarrow>
   conc_consistent (finish th m req x c)"
  by (simp add: finish_def conc_consistent_adopt)

text \<open>A change of the backend that concerns no open transaction but the one the thread owns.\<close>

definition own_change :: "nat \<Rightarrow> conc \<Rightarrow> ServerBackend \<Rightarrow> bool" where
  "own_change th c b \<longleftrightarrow>
     (\<forall>i. m_txns (backend c) i \<noteq> None \<longrightarrow>
        m_txns b i = m_txns (backend c) i \<and> (i \<in> m_commits b \<longleftrightarrow> i \<in> m_commits (backend c)) \<or> (\<exists>m. owns th i m c))
   \<and> os_kept (m_os (backend c)) (m_os b) \<and> m_directory b = m_directory (backend c)"

lemma own_change_at:
  assumes "owns th i m c" "\<And>j. j \<noteq> i \<Longrightarrow> m_txns b j = m_txns (backend c) j"
    and "\<And>j. j \<noteq> i \<Longrightarrow> j \<in> m_commits b \<longleftrightarrow> j \<in> m_commits (backend c)"
    and "os_kept (m_os (backend c)) (m_os b)" "m_directory b = m_directory (backend c)"
  shows "own_change th c b"
  unfolding own_change_def
proof (intro conjI allI impI)
  fix j
  show "m_txns b j = m_txns (backend c) j \<and> (j \<in> m_commits b \<longleftrightarrow> j \<in> m_commits (backend c)) \<or> (\<exists>m. owns th j m c)"
    using assms(1-3) by (cases "j = i") auto
qed (use assms in simp_all)

lemma own_change_os:
  "os_kept (m_os (backend c)) s \<Longrightarrow> own_change th c ((backend c)\<lparr>m_os := s\<rparr>)"
  by (simp add: own_change_def)

definition step_ok :: "nat \<Rightarrow> conc \<Rightarrow> conc \<Rightarrow> bool" where
  "step_ok th c c' \<longleftrightarrow> conc_consistent c' \<and> guarantee th c c' \<and> (\<exists>pc. threads c' th = Some pc \<and> thread_inv th pc c' \<and> lock_inv th pc c')"

lemma step_ok_goto:
  assumes "conc_consistent c" "thread_inv th pc c" "lock_inv th pc c"
  shows "step_ok th c (goto th pc c)"
proof -
  have "thread_inv th pc (goto th pc c)"
    using assms(2) by (cases pc) (simp_all add: owns_def complete_def owns_file_def)
  then show ?thesis using assms(1,3) by (simp add: step_ok_def guarantee_def lock_inv_def)
qed

lemma step_ok_finish:
  assumes "conc_consistent c" "backend_inv (snd x)" "dom (m_txns (snd x)) \<subseteq> dom (m_txns (backend c))"
    and "txn_lock c m = Some th" "own_change th c (snd x)" "\<exists>y. fst x = Inr y"
    and "lock_inv th pc c" "holds pc = Some m" "holds_file pc = None"
  shows "step_ok th c (finish th m req x c)"
proof -
  have "guarantee th c (finish th m req x c)" using assms(4,5) by (simp add: guarantee_def own_change_def)
  moreover have "lock_inv th (Done req (fst x)) (finish th m req x c)" using assms(7-9) by (auto simp: lock_inv_def)
  ultimately show ?thesis using assms(1-3,6) by (simp add: step_ok_def conc_consistent_finish)
qed

lemma step_ok_backend:
  assumes "conc_consistent c" "backend_inv b" "dom (m_txns b) = dom (m_txns (backend c))" "own_change th c b"
    and "\<forall>f. fl f \<noteq> file_lock c f \<longrightarrow> {file_lock c f, fl f} \<subseteq> {None, Some th}"
    and "thread_inv th pc (c\<lparr>backend := b, file_lock := fl\<rparr>)" "lock_inv th pc (c\<lparr>backend := b, file_lock := fl\<rparr>)"
  shows "step_ok th c (goto th pc (c\<lparr>backend := b, file_lock := fl\<rparr>))"
proof -
  have "thread_inv th pc (goto th pc (c\<lparr>backend := b, file_lock := fl\<rparr>))"
    using assms(6) by (cases pc) (simp_all add: owns_def complete_def owns_file_def)
  then show ?thesis
    using assms(1-5,7) by (simp add: step_ok_def guarantee_def own_change_def conc_consistent_backend lock_inv_def)
qed

subsection \<open>The sections keep the invariant\<close>

lemma section_acquire_ok:
  assumes "conc_consistent c" "thread_inv th (Waiting req e p m) c" "lock_inv th (Waiting req e p m) c" "section_acquire th req e p m c = Some c'"
  shows "step_ok th c c'"
  using assms by (auto simp: step_ok_def section_acquire_def guarantee_def lock_inv_def split: if_splits)

lemma section_check_ok:
  assumes c: "conc_consistent c" and inv: "thread_inv th (Checking req e p m) c" "lock_inv th (Checking req e p m) c"
  shows "step_ok th c (section_check th req e p m c)"
proof -
  obtain cmd i k n d where req: "req = (cmd, i, k, n, d)" by (cases req)
  let ?b = "backend c"
  have bi: "backend_inv ?b" using c by (simp add: conc_consistent_def)
  show ?thesis
  proof (cases "committed_or_aborted i ?b")
    case (Some err)
    then have "section_check th req e p m c = finish th m req (SET_ERROR err i k ?b) c"
      by (simp add: section_check_def req)
    then show ?thesis using c bi inv
      by (auto intro!: step_ok_finish [OF _ _ _ _ _ _ inv(2)] simp: reply_simps own_change_def)
  next
    case None
    then obtain t where t: "m_txns ?b i = Some t" "i \<notin> m_commits ?b"
      by (auto simp: committed_or_aborted_def split: if_splits)
    then have o: "owns th i m c" using inv by (simp add: req owns_def)
    show ?thesis
    proof (cases "cmd = abort_cmd")
      case True
      then have sc: "section_check th req e p m c = finish th m req (ABORT req p ?b) c"
        using None t o by (simp add: section_check_def req txn_tuple_def owns_def ABORT_def committed_or_invalid_id_def)
      obtain s where s: "touches {log_key m_abort_log ?b} (m_os ?b) s"
        "ABORT req p ?b = SET_ACK i k False (removeTransaction i (?b\<lparr>m_os := s\<rparr>))"
        unfolding req by (rule ABORT_cases [OF bi, of i cmd k n d p]) (use t in auto)
      have "own_change th c (removeTransaction i (?b\<lparr>m_os := s\<rparr>))"
        by (rule own_change_at [OF o]) (use s(1) in \<open>simp_all add: os_kept_touches\<close>)
      then show ?thesis
        unfolding sc using c o bi s(2) by (intro step_ok_finish [OF _ _ _ _ _ _ inv(2)]) (auto simp: reply_simps owns_def removeTransaction_inv)
    next
      case False
      then have "section_check th req e p m c = goto th (Working req e p m) c"
        using None by (simp add: section_check_def req)
      moreover have "thread_inv th (Working req e p m) c" using inv o t False by (simp add: req names_txn_def)
      moreover have "lock_inv th (Working req e p m) c" using inv(2) by (simp add: lock_inv_def)
      ultimately show ?thesis using c by (simp add: step_ok_goto)
    qed
  qed
qed


lemma conc_txn_update:
  assumes "conc_consistent c" "m_txns (backend c) i = Some t" "sp_file_attributes t' = sp_file_attributes t" "txn_inv t'"
  shows "backend_inv (with_txn i t' (backend c))" "dom (m_txns (with_txn i t' (backend c))) = dom (m_txns (backend c))"
  using assms backend_inv_update_txn [of "backend c" i t t'] by (auto simp: conc_consistent_def)

lemma section_work_ok:
  assumes c: "conc_consistent c" and inv: "thread_inv th (Working req e p m) c" "lock_inv th (Working req e p m) c"
  shows "step_ok th c (section_work th req e p m c)"
proof -
  obtain cmd i k n d where req: "req = (cmd, i, k, n, d)" by (cases req)
  let ?b = "backend c"
  have bi: "backend_inv ?b" using c by (simp add: conc_consistent_def)
  have o: "owns th i m c" and ok: "request_ok req" and ni: "i \<notin> m_commits ?b" using inv by (simp_all add: req)
  obtain t where t: "m_txns ?b i = Some t" using owns_txn [OF c o] by blast
  have ti: "txn_inv t" by (rule backend_inv_txn [OF bi t])
  have upd: "step_ok th c (finish th m req (Inr y, with_txn i t' ?b) c)"
    if "sp_file_attributes t' = sp_file_attributes t" "txn_inv t'" for y t'
    using conc_txn_update [OF c t that] c o
    by (intro step_ok_finish [OF _ _ _ _ _ _ inv(2)] own_change_at [OF o]) (auto simp: owns_def)
  show ?thesis
  proof (cases "cmd = write_cmd")
    case True
    then have sw: "section_work th req e p m c = finish th m req (WRITE req e p ?b) c"
      using t o ni by (simp add: section_work_def req txn_tuple_def owns_def command_defs)
    show ?thesis
      unfolding sw unfolding req
    proof (cases rule: WRITE_cases [of i ?b cmd k n d e p])
      case (repeated t')
      then show "step_ok th c (finish th m (cmd, i, k, n, d) (WRITE (cmd, i, k, n, d) e p ?b) c)"
        using t upd [of "t\<lparr>curr_timestamp := now e\<rparr>"] ti by (simp add: reply_simps req)
    next
      case (stored t')
      then show "step_ok th c (finish th m (cmd, i, k, n, d) (WRITE (cmd, i, k, n, d) e p ?b) c)"
        using t upd [of "buffered k d (now e) t"] ok txn_inv_buffered [OF ti, of k d "now e"] by (simp add: reply_simps req)
    qed (use t ni in auto)
  next
    case False
    then have cmd: "cmd = commit_cmd" using inv by (simp add: req)
    have tt: "txn_tuple i m c = Some t" using t o by (simp add: txn_tuple_def owns_def)
    show ?thesis
    proof (cases "k < max_seq_num t")
      case True
      then have "section_work th req e p m c = finish th m req (fst (SET_ERROR CommitWithInvalidSequenceNumber i k ?b),
          with_txn i (t\<lparr>curr_timestamp := now e\<rparr>) ?b) c"
        using False tt by (simp add: section_work_def req COMMIT_check_def Let_def)
      then show ?thesis using upd [of "t\<lparr>curr_timestamp := now e\<rparr>"] ti by (simp add: reply_simps)
    next
      case False
      then have k: "max_seq_num t \<le> k" by simp
      have ti': "txn_inv (closed_at k (now e) t)" using ok k by (intro txn_inv_closed_at ti) (simp_all add: req)
      show ?thesis
      proof (cases "first_missing (buffers t) (initial_seq_num + 1) k")
        case (Some j)
        then have "section_work th req e p m c = finish th m req (fst (SET_ASK_RESEND i j p ?b), with_txn i (closed_at k (now e) t) ?b) c"
          using cmd False tt by (simp add: section_work_def req COMMIT_check_def Let_def closed_at_def reply_simps consts_simps)
        then show ?thesis using upd [OF _ ti'] by (simp add: reply_simps)
      next
        case None
        let ?c = "c\<lparr>backend := with_txn i (closed_at k (now e) t) ?b, file_lock := file_lock c\<rparr>"
        have "section_work th req e p m c = goto th (Opening req e p m) ?c"
          using None cmd False tt by (simp add: section_work_def req COMMIT_check_def Let_def closed_at_def consts_simps)
        moreover have "thread_inv th (Opening req e p m) ?c"
          using ok o ni None by (simp add: req owns_def complete_def)
        moreover have "lock_inv th (Opening req e p m) ?c" using inv(2) by (simp add: lock_inv_def)
        ultimately show ?thesis
          using conc_txn_update [OF c t _ ti'] c by (simp only:) (intro step_ok_backend own_change_at [OF o], auto)
      qed
    qed
  qed
qed


lemma complete_bufs:
  assumes "conc_consistent c" "complete i c" "m_txns (backend c) i = Some t"
  shows "first_missing (buffers t) (initial_seq_num + 1) (max_seq_num t) = None" "txn_inv t"
  using assms backend_inv_txn [of "backend c" i t] by (auto simp: complete_def conc_consistent_def)

lemma section_open_ok:
  assumes c: "conc_consistent c" and inv: "thread_inv th (Opening req e p m) c" "lock_inv th (Opening req e p m) c" and st: "section_open th req e p m c = Some c'"
  shows "step_ok th c c'"
proof -
  obtain cmd i k n d where req: "req = (cmd, i, k, n, d)" by (cases req)
  let ?b = "backend c"
  have bi: "backend_inv ?b" using c by (simp add: conc_consistent_def)
  have o: "owns th i m c" and co: "complete i c" and ok: "request_ok req" using inv by (simp_all add: req)
  obtain t where t: "m_txns ?b i = Some t" using owns_txn [OF c o] by blast
  have tt: "txn_tuple i m c = Some t" using t o by (simp add: txn_tuple_def owns_def)
  then have free: "file_lock c (sp_file_attributes t) = None"
    using st by (simp add: section_open_def req Let_def split: if_splits)
  show ?thesis
  proof (cases rule: File_open_append_cases [of "m_directory ?b @ sp_file_attributes t" "m_os ?b"])
    case denied
    then have "c' = finish th m req (SET_ERROR ErrorOpeningFile i k ?b) c"
      using st tt free by (simp add: section_open_def req)
    then show ?thesis
      using c bi o by (auto intro!: step_ok_finish [OF _ _ _ _ _ _ inv(2)] simp: reply_simps own_change_def owns_def)
  next
    case (opened s)
    let ?f = "\<lparr>m_fd = data_key (sp_file_attributes t) ?b, m_flags = append_flags\<rparr>"
    let ?c = "c\<lparr>backend := ?b\<lparr>m_os := s\<rparr>, file_lock := (file_lock c)(sp_file_attributes t \<mapsto> th)\<rparr>"
    have kept: "os_kept (m_os ?b) s" by (rule os_kept_touches [OF opened(2)])
    have "c' = goto th (Appending req e p m ?f (initial_seq_num + 1)) ?c"
      using st tt free opened(1) by (simp add: section_open_def req Let_def)
    moreover have "thread_inv th (Appending req e p m ?f (initial_seq_num + 1)) ?c"
      using o co ok t kept opened(4) by (auto simp: req owns_def complete_def owns_file_def os_kept_def)
    moreover have "lock_inv th (Appending req e p m ?f (initial_seq_num + 1)) ?c"
      using inv(2) t by (auto simp: lock_inv_def req)
    ultimately show ?thesis
      using c bi kept free by (simp only:) (intro step_ok_backend own_change_os, auto)
  qed
qed

lemma section_append_ok:
  assumes c: "conc_consistent c" and inv: "thread_inv th (Appending req e p m f j) c" "lock_inv th (Appending req e p m f j) c"
  shows "step_ok th c (section_append th req e p m f j c)"
proof -
  obtain cmd i k n d where req: "req = (cmd, i, k, n, d)" by (cases req)
  let ?b = "backend c"
  have bi: "backend_inv ?b" using c by (simp add: conc_consistent_def)
  have o: "owns th i m c" and co: "complete i c" and ok: "request_ok req" and of: "owns_file th i f c"
    and j: "initial_seq_num + 1 \<le> j" using inv by (simp_all add: req)
  obtain t where t: "m_txns ?b i = Some t" using owns_txn [OF c o] by blast
  have tt: "txn_tuple i m c = Some t" using t o by (simp add: txn_tuple_def owns_def)
  note full = complete_bufs [OF c co t]
  show ?thesis
  proof (cases "j \<le> max_seq_num t")
    case False
    then have "section_append th req e p m f j c = goto th (Logging req e p m f) c"
      using tt by (simp add: section_append_def req)
    then show ?thesis using c o co ok of inv(2) by (auto intro!: step_ok_goto simp: req lock_inv_def)
  next
    case True
    then obtain x where x: "buffers t j = Some x" using full(1) j unfolding first_missing_None by blast
    then have nx: "nul_free x" using full(2) by (simp add: txn_inv_def)
    have wr: "writable (m_flags f)" using of by (simp add: owns_file_def)
    obtain l ws where w: "File_write f x (m_os ?b) = (Inr (l = length x), grow (m_fd f) (take l x) ws (m_os ?b))"
      by (rule File_write_cases [OF wr nx])
    let ?s = "grow (m_fd f) (take l x) ws (m_os ?b)"
    have kept: "os_kept (m_os ?b) ?s" by (rule os_kept_touches [OF touches_grow])
    show ?thesis
    proof (cases "l = length x")
      case True
      let ?c = "c\<lparr>backend := ?b\<lparr>m_os := ?s\<rparr>, file_lock := file_lock c\<rparr>"
      have "section_append th req e p m f j c = goto th (Appending req e p m f (j + 1)) ?c"
        using tt x w True \<open>j \<le> max_seq_num t\<close> by (simp add: section_append_def req Let_def)
      moreover have "thread_inv th (Appending req e p m f (j + 1)) ?c"
        using o co ok of j by (auto simp: req owns_def complete_def owns_file_def)
      moreover have "lock_inv th (Appending req e p m f (j + 1)) ?c" using inv(2) by (simp add: lock_inv_def)
      ultimately show ?thesis
        using c bi kept by (simp only:) (intro step_ok_backend own_change_os, auto)
    next
      case False
      let ?c = "c\<lparr>backend := ?b\<lparr>m_os := File_close f ?s\<rparr>, file_lock := (file_lock c)(sp_file_attributes t := None)\<rparr>"
      have "section_append th req e p m f j c = goto th (RollingBack req e p m) ?c"
        using tt x w False \<open>j \<le> max_seq_num t\<close> by (simp add: section_append_def req Let_def)
      moreover have "thread_inv th (RollingBack req e p m) ?c"
        using o co ok by (auto simp: req owns_def complete_def)
      moreover have "lock_inv th (RollingBack req e p m) ?c" using inv(2) t by (auto simp: lock_inv_def req)
      moreover have "os_kept (m_os ?b) (File_close f ?s)" using kept by (simp add: os_kept_def)
      moreover have "file_lock c (sp_file_attributes t) = Some th" using of t by (auto simp: owns_file_def)
      ultimately show ?thesis
        using c bi by (simp only:) (intro step_ok_backend own_change_os, auto)
    qed
  qed
qed

lemma section_log_ok:
  assumes c: "conc_consistent c" and inv: "thread_inv th (Logging req e p m f) c" "lock_inv th (Logging req e p m f) c"
  shows "step_ok th c (section_log th req e p m f c)"
proof -
  obtain cmd i k n d where req: "req = (cmd, i, k, n, d)" by (cases req)
  let ?b = "backend c"
  have bi: "backend_inv ?b" using c by (simp add: conc_consistent_def)
  have o: "owns th i m c" and co: "complete i c" and ok: "request_ok req" and of: "owns_file th i f c"
    using inv by (simp_all add: req)
  obtain t where t: "m_txns ?b i = Some t" using owns_txn [OF c o] by blast
  have tt: "txn_tuple i m c = Some t" using t o by (simp add: txn_tuple_def owns_def)
  let ?fn = "sp_file_attributes t" and ?b1 = "?b\<lparr>m_commits := insert i (m_commits ?b)\<rparr>"
  have nul: "nul_free ?fn" using complete_bufs(2) [OF c co t] by (simp add: txn_inv_def)
  obtain s where l: "logTransaction m_commit_log i ?fn ?b1 = (Inr (), ?b1\<lparr>m_os := s\<rparr>)"
    "touches {log_key m_commit_log ?b1} (m_os ?b1) s"
    by (rule logTransaction_cases [OF nul, of m_commit_log i ?b1])
  have kept: "os_kept (m_os ?b) s" using os_kept_touches [OF l(2)] by simp
  then obtain x where x: "os_files s (m_fd f) = Some x"
    using of unfolding owns_file_def os_kept_def by blast
  let ?b2 = "?b1\<lparr>m_files := (m_files ?b)(?fn := map_option (m_file_size_update (\<lambda>_. int (length x))) (m_files ?b ?fn)),
    m_os := File_close f s\<rparr>"
  let ?c = "c\<lparr>backend := ?b2, file_lock := (file_lock c)(?fn := None)\<rparr>"
  have "section_log th req e p m f c = goto th (Finishing req e p m) ?c"
    using tt l(1) x by (simp add: section_log_def req Let_def getFileSize_def)
  moreover have "thread_inv th (Finishing req e p m) ?c" using o ok by (auto simp: req owns_def)
  moreover have "lock_inv th (Finishing req e p m) ?c" using inv(2) t by (auto simp: lock_inv_def req)
  moreover have "os_kept (m_os ?b) (File_close f s)" using kept by (simp add: os_kept_def)
  moreover have "file_lock c ?fn = Some th" using of t by (auto simp: owns_file_def)
  moreover have "backend_inv ?b2" using backend_inv_file_size [OF bi, of ?fn] by (simp add: backend_inv_def)
  ultimately show ?thesis
    using c by (simp only:) (intro step_ok_backend own_change_at [OF o], auto)
qed

lemma section_rollback_ok:
  assumes c: "conc_consistent c" and inv: "thread_inv th (RollingBack req e p m) c" "lock_inv th (RollingBack req e p m) c"
  shows "step_ok th c (section_rollback th req m c)"
proof -
  obtain cmd i k n d where req: "req = (cmd, i, k, n, d)" by (cases req)
  let ?b = "backend c"
  have bi: "backend_inv ?b" using c by (simp add: conc_consistent_def)
  have o: "owns th i m c" using inv by (simp add: req)
  obtain t where t: "m_txns ?b i = Some t" using owns_txn [OF c o] by blast
  obtain fa where "m_files ?b (sp_file_attributes t) = Some fa" by (rule backend_inv_file [OF bi t])
  then have "section_rollback th req m c = finish th m req (SET_ERROR ErrorWritingFile i k
      (?b\<lparr>m_os := snd (sys_truncate (m_file_name fa) (m_file_size fa) (m_os ?b))\<rparr>)) c"
    using t o by (simp add: section_rollback_def req txn_tuple_def owns_def Let_def)
  then show ?thesis
    using c bi o by (auto intro!: step_ok_finish [OF _ _ _ _ _ _ inv(2)] own_change_os os_kept_truncate simp: reply_simps owns_def)
qed

lemma section_finish_ok:
  assumes c: "conc_consistent c" and inv: "thread_inv th (Finishing req e p m) c" "lock_inv th (Finishing req e p m) c"
  shows "step_ok th c (section_finish th req p m c)"
proof -
  obtain cmd i k n d where req: "req = (cmd, i, k, n, d)" by (cases req)
  have o: "owns th i m c" using inv by (simp add: req)
  have "own_change th c (removeTransaction i (backend c))" by (rule own_change_at [OF o]) simp_all
  then show ?thesis
    using c o unfolding section_finish_def req prod.case
    by (intro step_ok_finish [OF _ _ _ _ _ _ inv(2)]) (auto simp: reply_simps owns_def conc_consistent_def removeTransaction_inv)
qed


lemma section_single_ok:
  assumes c: "conc_consistent c" and ok: "request_ok req" and li: "lock_inv th (Start req e p) c" and cmd: "\<not> names_txn req"
  shows "step_ok th c (section_enter th req e p c)"
proof -
  obtain cmd i k n d where req: "req = (cmd, i, k, n, d)" by (cases req)
  let ?b = "backend c"
  have bi: "backend_inv ?b" using c by (simp add: conc_consistent_def)
  obtain r b' where pc: "processCommand req e p ?b = (r, b')" by fastforce
  have bi': "backend_inv b'" by (rule processCommand_inv(1) [OF bi ok pc])
  let ?c = "goto th (Done req r) (adopt b' c)"
  have se: "section_enter th req e p c =
      (case r of Inr ((_, j, _), _) \<Rightarrow>
          if m_txns ?b j = None \<and> m_txns b' j \<noteq> None
          then ?c\<lparr>mtx_of := (mtx_of ?c)(j \<mapsto> next_mtx c), next_mtx := Suc (next_mtx c)\<rparr> else ?c
       | Inl _ \<Rightarrow> ?c)"
    using cmd pc [unfolded req] unfolding req by (simp add: section_enter_def names_txn_def Let_def cong: if_cong)
  have same: "step_ok th c (section_enter th req e p c)"
    if "m_txns b' = m_txns ?b" "m_commits b' = m_commits ?b" "os_kept (m_os ?b) (m_os b')" "m_directory b' = m_directory ?b"
  proof -
    have "step_ok th c ?c"
      using c bi' that cmd li by (simp add: step_ok_def guarantee_def conc_consistent_adopt lock_inv_def)
    moreover have "section_enter th req e p c = ?c" using that by (auto simp: se split: sum.split prod.split)
    ultimately show ?thesis by simp
  qed
  consider "cmd = read_cmd" | "cmd = new_txn_cmd" | "cmd \<noteq> read_cmd" "cmd \<noteq> new_txn_cmd" by blast
  then show ?thesis
  proof cases
    case 1
    then have "\<exists>rs. b' = ?b\<lparr>m_os := (m_os ?b)\<lparr>os_reads := rs\<rparr>\<rparr>"
      using pc READ_frame [of req p ?b] by (simp add: req processCommand_def)
    then show ?thesis by (intro same) (auto simp: os_kept_def)
  next
    case 2
    have nul: "nul_free d" using ok by (simp add: req)
    have new: "NEW_TXN (cmd, i, k, n, d) e p ?b = (r, b')" using 2 pc by (simp add: req processCommand_def consts_simps)
    from nul show ?thesis
    proof (cases rule: NEW_TXN_cases [of d k cmd i n e p ?b])
      case (started j s)
      have j: "m_txns ?b j = None" by (rule candidate_id_range(1) [OF started(2)])
      have b': "b' = started_state j d (now e) s ?b" and r: "r = Inr ((ack_cmd, j, initial_seq_num, nil, []), p)"
        using started(4) new by (simp_all add: reply_simps)
      let ?c' = "?c\<lparr>mtx_of := (mtx_of ?c)(j \<mapsto> next_mtx c), next_mtx := Suc (next_mtx c)\<rparr>"
      have "section_enter th req e p c = ?c'" using j by (simp add: se r b')
      moreover have "dom (mtx_of c) = dom (m_txns ?b)" using c by (simp add: conc_consistent_def)
      then have "mtx_of c x \<noteq> None \<longleftrightarrow> m_txns ?b x \<noteq> None" for x by blast
      then have "dom (mtx_of ?c') = dom (m_txns b')" by (auto simp: b' split: if_splits)
      then have "conc_consistent ?c'"
        using c bi' by (fastforce simp: conc_consistent_def split: if_splits)
      moreover have "guarantee th c ?c'"
        using j os_kept_touches [OF started(3)] by (auto simp: guarantee_def b')
      ultimately show ?thesis using cmd li by (simp add: step_ok_def lock_inv_def)
    qed (use new same in \<open>auto simp: reply_simps\<close>)
  next
    case 3
    then have "b' = ?b" using cmd pc by (auto simp: req processCommand_def names_txn_def reply_simps)
    then show ?thesis by (intro same) simp_all
  qed
qed

lemma section_enter_ok:
  assumes c: "conc_consistent c" and ok: "request_ok req" and li: "lock_inv th (Start req e p) c"
  shows "step_ok th c (section_enter th req e p c)"
proof (cases "names_txn req")
  case False
  then show ?thesis by (rule section_single_ok [OF c ok li])
next
  case True
  obtain cmd i k n d where req: "req = (cmd, i, k, n, d)" by (cases req)
  let ?b = "backend c"
  have "m_txns ?b i \<noteq> None \<longrightarrow> mtx_of c i = Some (the (mtx_of c i))"
    using txn_tuple_own [OF c, of i] by (auto simp: txn_tuple_Some)
  then have wait: "thread_inv th (Waiting req e p (the (mtx_of c i))) c" using True ok by (simp add: req)
  have cmd: "cmd = write_cmd \<or> cmd = abort_cmd \<or> cmd = commit_cmd \<and> cmd \<noteq> write_cmd \<and> cmd \<noteq> abort_cmd"
    using True by (auto simp: req names_txn_def consts_simps)
  consider "i \<in> m_commits ?b" | "i \<notin> m_commits ?b" "m_txns ?b i = None" | t where "i \<notin> m_commits ?b" "m_txns ?b i = Some t"
    by blast
  then show ?thesis
  proof cases
    case 1
    then have "section_enter th req e p c
        = goto th (Done req (fst (if cmd = commit_cmd then SET_ACK i k p ?b else SET_ERROR InvalidOperation i k ?b))) c"
      using cmd by (auto simp: req section_enter_def committed_or_invalid_id_def Let_def consts_simps)
    then show ?thesis using c li by (auto intro!: step_ok_goto simp: reply_simps lock_inv_def)
  next
    case 2
    then have "section_enter th req e p c = goto th (Done req (fst (SET_ERROR InvalidTransactionId i k ?b))) c"
      using cmd by (auto simp: req section_enter_def committed_or_invalid_id_def Let_def)
    then show ?thesis using c li by (auto intro!: step_ok_goto simp: reply_simps lock_inv_def)
  next
    case 3
    then have "section_enter th req e p c = goto th (Waiting req e p (the (mtx_of c i))) c"
      using cmd by (auto simp: req section_enter_def committed_or_invalid_id_def Let_def)
    then show ?thesis using step_ok_goto [OF c wait] li by (simp add: lock_inv_def)
  qed
qed

subsection \<open>Every run\<close>

lemma conc_step_ok:
  assumes inv: "conc_inv c" and st: "conc_step th c = Some c'"
  shows "step_ok th c c'"
proof -
  have c: "conc_consistent c" using inv by (simp add: conc_inv_def)
  obtain pc where pc: "threads c th = Some pc" using st by (cases "threads c th") (simp_all add: conc_step_def)
  then have ti: "thread_inv th pc c" "lock_inv th pc c" using inv by (simp_all add: conc_inv_def)
  note step = st [unfolded conc_step_def pc option.case]
  show ?thesis
  proof (cases pc)
    case (Start req e p)
    with step ti section_enter_ok [OF c, of req th e p] show ?thesis by simp
  next
    case (Waiting req e p m)
    with step section_acquire_ok [OF c ti [unfolded Waiting]] show ?thesis by simp
  next
    case (Checking req e p m)
    with step section_check_ok [OF c ti [unfolded Checking]] show ?thesis by simp
  next
    case (Working req e p m)
    with step section_work_ok [OF c ti [unfolded Working]] show ?thesis by simp
  next
    case (Opening req e p m)
    with step section_open_ok [OF c ti [unfolded Opening]] show ?thesis by simp
  next
    case (Appending req e p m f j)
    with step section_append_ok [OF c ti [unfolded Appending]] show ?thesis by simp
  next
    case (Logging req e p m f)
    with step section_log_ok [OF c ti [unfolded Logging]] show ?thesis by simp
  next
    case (RollingBack req e p m)
    with step section_rollback_ok [OF c ti [unfolded RollingBack]] show ?thesis by simp
  next
    case (Finishing req e p m)
    with step section_finish_ok [OF c ti [unfolded Finishing]] show ?thesis by simp
  qed (use step in simp)
qed

lemma conc_step_inv:
  assumes inv: "conc_inv c" and st: "conc_step th c = Some c'" and fresh: "\<forall>i. opened i c c' \<longrightarrow> \<not> in_use i c"
  shows "conc_inv c'"
proof -
  have c: "conc_consistent c" using inv by (simp add: conc_inv_def)
  have ok: "step_ok th c c'" by (rule conc_step_ok [OF inv st])
  have g: "guarantee th c c'" using ok by (simp add: step_ok_def)
  have "thread_inv u pc' c' \<and> lock_inv u pc' c'" if u: "u \<noteq> th" "threads c' u = Some pc'" for u pc'
  proof -
    have t: "threads c u = Some pc'" using conc_step_others [OF st u(1)] u(2) by simp
    then have i: "thread_inv u pc' c" "lock_inv u pc' c" using inv by (simp_all add: conc_inv_def)
    have "\<not> opened (id_of req) c c'" if "under_way pc' = Some (req, m)" for req m
      using fresh t that unfolding in_use_def by blast
    then show ?thesis
      using stable_thread [OF c g _ _ i(1)] stable_lock_inv [OF c g _ i] u(1) by blast
  qed
  moreover have "\<exists>pc. threads c' th = Some pc \<and> thread_inv th pc c' \<and> lock_inv th pc c'" "conc_consistent c'"
    using ok by (simp_all add: step_ok_def)
  moreover have "(\<forall>m. txn_lock c' m \<noteq> Some u) \<and> (\<forall>f. file_lock c' f \<noteq> Some u)" if u: "u \<noteq> th" "threads c' u = None" for u
  proof -
    have "threads c u = None" using conc_step_others [OF st u(1)] u(2) by simp
    with inv show ?thesis using u(1) stable_lock [OF g, of u] unfolding conc_inv_def by blast
  qed
  ultimately show ?thesis unfolding conc_inv_def by (metis option.distinct(1) option.inject)
qed

lemma timer_inv:
  assumes inv: "conc_inv c" and nul: "nul_free (timer_file_name tm)"
    and turn: "txn_timer_turn tm w (backend c) = (r, b')" and idle: "\<not> in_use (timer_txn_id tm) c"
  shows "conc_inv (adopt b' c)"
proof -
  let ?b = "backend c" and ?i = "timer_txn_id tm"
  have c: "conc_consistent c" and bi: "backend_inv ?b" using inv by (simp_all add: conc_inv_def conc_consistent_def)
  have bi': "backend_inv b'" using txn_timer_turn_safe [OF bi nul turn] by blast
  have b': "(m_txns b' = m_txns ?b \<or> m_txns b' = (m_txns ?b)(?i := None)) \<and> m_commits b' = m_commits ?b
      \<and> os_kept (m_os ?b) (m_os b') \<and> m_directory b' = m_directory ?b"
    by (cases rule: txn_timer_turn_cases [OF nul, of ?b w]) (use turn in \<open>auto simp: os_kept_touches\<close>)
  then have "conc_consistent (adopt b' c)" using c bi' by (intro conc_consistent_adopt) (auto split: if_splits)
  moreover have "thread_inv th pc (adopt b' c) \<and> lock_inv th pc (adopt b' c)" if th: "threads c th = Some pc" for th pc
  proof -
    have "\<forall>req m. under_way pc = Some (req, m) \<longrightarrow> m_txns b' (id_of req) = m_txns ?b (id_of req)"
      using idle th b' unfolding in_use_def by auto
    moreover have "thread_inv th pc c" "lock_inv th pc c" using inv th by (simp_all add: conc_inv_def)
    ultimately show ?thesis
      using b' owns_txn [OF c] by (cases pc) (auto simp: owns_def complete_def owns_file_def os_kept_def lock_inv_def)
  qed
  ultimately show ?thesis using inv by (simp add: conc_inv_def)
qed

lemma spawn_inv:
  assumes inv: "conc_inv c" and new: "threads c th = None" and ok: "request_ok req"
  shows "conc_inv (goto th (Start req e p) c)"
proof -
  let ?c = "goto th (Start req e p) c"
  have ti: "thread_inv u pc ?c \<longleftrightarrow> thread_inv u pc c" for u pc
    by (cases pc) (simp_all add: owns_def complete_def owns_file_def)
  have li: "lock_inv u pc ?c \<longleftrightarrow> lock_inv u pc c" for u pc by (simp add: lock_inv_def)
  have "\<forall>m. txn_lock c m \<noteq> Some th" "\<forall>f. file_lock c f \<noteq> Some th" using inv new unfolding conc_inv_def by blast+
  then have "lock_inv th (Start req e p) c" by (simp add: lock_inv_def)
  with inv ok show ?thesis unfolding conc_inv_def ti li by simp
qed

lemma conc_reach_inv:
  assumes "conc_reach True c0 c" "conc_inv c0"
  shows "conc_inv c"
  using assms
proof (induction rule: conc_reach.induct)
  case (spawn c th req e p)
  then show ?case by (intro spawn_inv) simp_all
next
  case (step c th c')
  then show ?case by (intro conc_step_inv [of c th c']) simp_all
next
  case (timer c tm w r b')
  then show ?case by (intro timer_inv [of c tm w r b']) simp_all
qed


subsection \<open>Nobody waits for ever\<close>

text \<open>A thread that has not returned and cannot take a step.\<close>

definition blocked :: "nat \<Rightarrow> conc \<Rightarrow> bool" where
  "blocked th c \<longleftrightarrow> (\<exists>pc. threads c th = Some pc \<and> (\<forall>req r. pc \<noteq> Done req r)) \<and> conc_step th c = None"

lemma blocked_cases:
  assumes inv: "conc_inv c" and b: "blocked th c"
  obtains (txn) req e p m u where "threads c th = Some (Waiting req e p m)" "txn_lock c m = Some u"
  | (data) req e p m t u where "threads c th = Some (Opening req e p m)" "m_txns (backend c) (id_of req) = Some t"
      "file_lock c (sp_file_attributes t) = Some u"
proof -
  from b obtain pc where pc: "threads c th = Some pc" "conc_step th c = None" "\<forall>req r. pc \<noteq> Done req r"
    unfolding blocked_def by blast
  then have ti: "thread_inv th pc c" using inv unfolding conc_inv_def by blast
  show ?thesis
  proof (cases pc)
    case (Waiting req e p m)
    then obtain u where "txn_lock c m = Some u"
      using pc by (auto simp: conc_step_def section_acquire_def split: if_splits)
    with pc(1) Waiting show ?thesis by (intro txn) simp_all
  next
    case (Opening req e p m)
    obtain cmd i k n d where req: "req = (cmd, i, k, n, d)" by (cases req)
    obtain t where t: "m_txns (backend c) i = Some t" "mtx_of c i = Some m"
      using owns_txn [of c th i m] inv ti by (auto simp: conc_inv_def Opening req owns_def)
    then obtain u where "file_lock c (sp_file_attributes t) = Some u"
      using pc(1,2) by (auto simp: conc_step_def Opening section_open_def req txn_tuple_def Let_def split: if_splits)
    with t pc(1) Opening req show ?thesis by (intro data [of req e p m t u]) simp_all
  qed (use pc in \<open>simp_all add: conc_step_def\<close>)
qed


end
