(* ===== verification/Interleaving_Commits.thy ===== *)
theory Interleaving_Commits
  imports Interleaving_Safety
begin

text \<open>
  What the file mutexes are for: the data of one commit is contiguous in the file, whatever
  other threads do while it is written. The statement needs that different names are
  different files (the mutex belongs to a name, not to a file) and that writes do not fail
  (the handler of a failed write truncates without the mutex, see \<open>rollback_race\<close>).
\<close>

definition log_names :: "FileName set" where
  "log_names = {m_transaction_log, m_timeout_log, m_commit_log, m_abort_log}"

definition names_distinct :: "ServerBackend \<Rightarrow> bool" where
  "names_distinct b \<longleftrightarrow> (\<forall>f g. nul_free f \<longrightarrow> nul_free g \<longrightarrow> data_key f b = data_key g b \<longrightarrow> f = g)"

text \<open>A step that writes at most to the logs and to \<open>keys\<close>, on a system whose writes succeed.\<close>

definition files_kept :: "string set \<Rightarrow> ServerBackend \<Rightarrow> ServerBackend \<Rightarrow> bool" where
  "files_kept keys b b' \<longleftrightarrow> os_resolve (m_os b') = os_resolve (m_os b) \<and> m_directory b' = m_directory b
     \<and> (os_writes (m_os b) = [] \<longrightarrow> os_writes (m_os b') = [])
     \<and> (\<forall>K. K \<notin> keys \<longrightarrow> (\<forall>l \<in> log_names. K \<noteq> data_key l b) \<longrightarrow> os_files (m_os b') K = os_files (m_os b) K)"

lemma files_kept_refl [simp]: "files_kept keys b b"
  by (simp add: files_kept_def)

lemma File_write_writes: "os_writes s = [] \<Longrightarrow> nul_free d \<Longrightarrow> os_writes (snd (File_write f d s)) = []"
  by (cases "writable (m_flags f)") (simp_all add: File_write_quiet, simp add: File_write_def)

lemma logTransaction_files_kept:
  assumes "nul_free fn" "l \<in> log_names"
  shows "files_kept {} b (snd (logTransaction l i fn b))"
proof -
  obtain s where s: "logTransaction l i fn b = (Inr (), b\<lparr>m_os := s\<rparr>)" "touches {log_key l b} (m_os b) s"
    by (rule logTransaction_cases [OF assms(1), of l i b])
  have "os_writes s = []" if w: "os_writes (m_os b) = []"
  proof (cases rule: File_open_append_cases [of "m_directory b @ l" "m_os b"])
    case denied
    then have "s = m_os b" using s(1) by (auto simp: logTransaction_def dest: arg_cong [where f = m_os])
    then show ?thesis using w by simp
  next
    case (opened s1)
    let ?f = "\<lparr>m_fd = log_key l b, m_flags = append_flags\<rparr>"
    have wr: "\<forall>d \<in> set ds. nul_free d \<Longrightarrow> os_writes s' = [] \<Longrightarrow>
        File_write_list ?f ds s' = (Inr True, append_bytes (log_key l b) (concat ds) s')" for ds s'
      by (simp add: File_write_list_quiet)
    have "os_writes (m_os (snd (logTransaction l i fn b))) = []"
      unfolding logTransaction_def opened(1) using assms(1) opened(3) w
      by (simp add: wr del: File_write_list.simps)
    then show ?thesis using s(1) by simp
  qed
  with s assms(2) show ?thesis by (auto simp: files_kept_def touches_def)
qed


lemma files_kept_os: "m_os b' = m_os b \<Longrightarrow> m_directory b' = m_directory b \<Longrightarrow> files_kept keys b b'"
  by (simp add: files_kept_def)

lemma files_kept_cong:
  "files_kept keys b b' \<Longrightarrow> m_os b1 = m_os b \<Longrightarrow> m_directory b1 = m_directory b \<Longrightarrow>
   m_os b2 = m_os b' \<Longrightarrow> m_directory b2 = m_directory b' \<Longrightarrow> files_kept keys b1 b2"
  by (simp add: files_kept_def)

lemma NEW_TXN_files_kept:
  assumes "nul_free d"
  shows "files_kept {} b (snd (NEW_TXN (cmd, i, k, n, d) e p b))"
proof (cases "k = 0 \<and> candidate_id (rands e) 0 (m_txns b) \<noteq> None")
  case False
  then show ?thesis by (auto simp: NEW_TXN_def reply_simps split: option.split)
next
  case True
  then obtain j where j: "k = 0" "candidate_id (rands e) 0 (m_txns b) = Some j" by auto
  let ?b = "with_new_transaction j d (now e) b"
  obtain s where l: "logTransaction m_transaction_log j d ?b = (Inr (), ?b\<lparr>m_os := s\<rparr>)"
    by (rule logTransaction_cases [OF assms, of m_transaction_log j ?b])
  have "files_kept {} ?b (snd (logTransaction m_transaction_log j d ?b))"
    by (rule logTransaction_files_kept [OF assms]) (simp add: log_names_def)
  then show ?thesis
    by (rule files_kept_cong)
       (simp_all add: NEW_TXN_def j addNewTransaction_fresh [OF candidate_id_range(1) [OF j(2)]] l reply_simps)
qed

lemma section_enter_backend:
  "backend (section_enter th req e p c) = (if names_txn req then backend c else snd (processCommand req e p (backend c)))"
proof -
  obtain cmd i k n d where req: "req = (cmd, i, k, n, d)" by (cases req)
  obtain r b' where pc: "processCommand req e p (backend c) = (r, b')" by fastforce
  show ?thesis
  proof (cases "names_txn req")
    case True
    then show ?thesis unfolding req section_enter_def names_txn_def Let_def by (simp split: option.split) blast
  next
    case False
    then show ?thesis
      using pc unfolding req section_enter_def names_txn_def Let_def by (simp split: sum.split prod.split)
  qed
qed

lemma section_enter_files:
  assumes "request_ok req"
  shows "files_kept {} (backend c) (backend (section_enter th req e p c))"
proof -
  obtain cmd i k n d where req: "req = (cmd, i, k, n, d)" by (cases req)
  let ?b = "backend c"
  have "files_kept {} ?b (snd (READ req p ?b))"
    using READ_frame [of req p ?b] by (auto simp: files_kept_def)
  moreover have "files_kept {} ?b (snd (NEW_TXN req e p ?b))"
    unfolding req by (rule NEW_TXN_files_kept) (use assms in \<open>simp add: req\<close>)
  ultimately show ?thesis
    unfolding section_enter_backend unfolding req processCommand_def names_txn_def by (auto simp: SET_ERROR_def)
qed

lemma section_check_files:
  assumes c: "conc_consistent c" and inv: "thread_inv th (Checking req e p m) c"
  shows "files_kept {} (backend c) (backend (section_check th req e p m c))"
proof -
  obtain cmd i k n d where req: "req = (cmd, i, k, n, d)" by (cases req)
  let ?b = "backend c"
  have "files_kept {} ?b (snd (ABORT_locked req p ?b))" if t: "m_txns ?b i = Some t" for t
  proof -
    have bi: "backend_inv ?b" using c by (simp add: conc_consistent_def)
    obtain fa where fa: "m_files ?b (sp_file_attributes t) = Some fa" "m_file_name fa = sp_file_attributes t"
      by (rule backend_inv_file [OF bi t])
    have nul: "nul_free (sp_file_attributes t)" using backend_inv_txn [OF bi t] by (simp add: txn_inv_def)
    obtain s where l: "logTransaction m_abort_log i (sp_file_attributes t) ?b = (Inr (), ?b\<lparr>m_os := s\<rparr>)"
      by (rule logTransaction_cases [OF nul, of m_abort_log i ?b])
    have "files_kept {} ?b (snd (logTransaction m_abort_log i (sp_file_attributes t) ?b))"
      by (rule logTransaction_files_kept [OF nul]) (simp add: log_names_def)
    then show ?thesis
      by (rule files_kept_cong) (use t fa l in \<open>simp_all add: ABORT_locked_def req reply_simps\<close>)
  qed
  then show ?thesis
    by (auto simp: req section_check_def txn_tuple_def undefined_behaviour_def reply_simps Let_def split: option.split)
qed

lemma section_work_files: "files_kept {} (backend c) (backend (section_work th req e p m c))"
proof -
  obtain cmd i k n d where req: "req = (cmd, i, k, n, d)" by (cases req)
  show ?thesis
    by (rule files_kept_os)
       (auto simp: req section_work_def COMMIT_check_def WRITE_locked_def undefined_behaviour_def reply_simps Let_def
         split: option.splits)
qed


text \<open>The files a thread may write to in its next step, besides the logs: one whose mutex it has or takes.\<close>

definition may_write :: "nat \<Rightarrow> string set \<Rightarrow> conc \<Rightarrow> bool" where
  "may_write u keys c \<longleftrightarrow> keys = {} \<or> (\<exists>g. nul_free g \<and> keys = {data_key g (backend c)}
     \<and> (file_lock c g = None \<or> file_lock c g = Some u))"

lemma section_open_files:
  assumes c: "conc_consistent c" and inv: "thread_inv u (Opening req e p m) c" and st: "section_open u req e p m c = Some c'"
  shows "\<exists>keys. may_write u keys c \<and> files_kept keys (backend c) (backend c')"
proof -
  obtain cmd i k n d where req: "req = (cmd, i, k, n, d)" by (cases req)
  let ?b = "backend c"
  have o: "owns u i m c" and co: "complete i c" using inv by (simp_all add: req)
  obtain t where t: "m_txns ?b i = Some t" using owns_txn [OF c o] by blast
  have tt: "txn_tuple i m c = Some t" using t o by (simp add: txn_tuple_def owns_def)
  then have free: "file_lock c (sp_file_attributes t) = None"
    using st by (simp add: section_open_def req Let_def split: if_splits)
  have nul: "nul_free (sp_file_attributes t)" using complete_bufs(2) [OF c co t] by (simp add: txn_inv_def)
  have "may_write u {data_key (sp_file_attributes t) ?b} c" using free nul by (auto simp: may_write_def)
  moreover have "files_kept {data_key (sp_file_attributes t) ?b} ?b (backend c')"
  proof (cases rule: File_open_append_cases [of "m_directory ?b @ sp_file_attributes t" "m_os ?b"])
    case denied
    then have "c' = finish u m req (SET_ERROR ErrorOpeningFile i k ?b) c"
      using st tt free by (simp add: section_open_def req)
    then show ?thesis by (simp add: reply_simps)
  next
    case (opened s)
    then have "backend c' = ?b\<lparr>m_os := s\<rparr>" using st tt free by (auto simp: section_open_def req Let_def)
    with opened show ?thesis by (simp add: files_kept_def touches_def)
  qed
  ultimately show ?thesis by blast
qed

lemma section_append_cases:
  assumes c: "conc_consistent c" and inv: "thread_inv u (Appending (cmd, i, k, n, d) e p m f j) c"
    and w: "os_writes (m_os (backend c)) = []"
  obtains (logging) t where "m_txns (backend c) i = Some t" "max_seq_num t < j"
      "section_append u (cmd, i, k, n, d) e p m f j c = goto u (Logging (cmd, i, k, n, d) e p m f) c"
  | (another) t x where "m_txns (backend c) i = Some t" "j \<le> max_seq_num t" "buffers t j = Some x"
      "section_append u (cmd, i, k, n, d) e p m f j c = goto u (Appending (cmd, i, k, n, d) e p m f (j + 1))
         (c\<lparr>backend := (backend c)\<lparr>m_os := append_bytes (m_fd f) x (m_os (backend c))\<rparr>\<rparr>)"
proof -
  have o: "owns u i m c" and co: "complete i c" and of: "owns_file u i f c" and j: "initial_seq_num + 1 \<le> j"
    using inv by simp_all
  obtain t where t: "m_txns (backend c) i = Some t" using owns_txn [OF c o] by blast
  have tt: "txn_tuple i m c = Some t" using t o by (simp add: txn_tuple_def owns_def)
  note full = complete_bufs [OF c co t]
  show ?thesis
  proof (cases "j \<le> max_seq_num t")
    case False
    then show ?thesis using t tt by (intro logging) (auto simp: section_append_def)
  next
    case True
    then obtain x where x: "buffers t j = Some x" using full(1) j unfolding first_missing_None by blast
    then have "nul_free x" using full(2) by (simp add: txn_inv_def)
    then have "File_write f x (m_os (backend c)) = (Inr True, append_bytes (m_fd f) x (m_os (backend c)))"
      using w of by (intro File_write_quiet) (simp_all add: owns_file_def)
    then show ?thesis using t tt True x by (intro another) (simp_all add: section_append_def Let_def)
  qed
qed

lemma section_append_files:
  assumes c: "conc_consistent c" and inv: "thread_inv u (Appending req e p m f j) c" and w: "os_writes (m_os (backend c)) = []"
  shows "\<exists>keys. may_write u keys c \<and> files_kept keys (backend c) (backend (section_append u req e p m f j c))"
proof -
  obtain cmd i k n d where req: "req = (cmd, i, k, n, d)" by (cases req)
  have co: "complete i c" and of: "owns_file u i f c" using inv by (simp_all add: req)
  then obtain t where t: "m_txns (backend c) i = Some t" "file_lock c (sp_file_attributes t) = Some u"
    "m_fd f = data_key (sp_file_attributes t) (backend c)" by (auto simp: owns_file_def)
  have "nul_free (sp_file_attributes t)" using complete_bufs(2) [OF c co t(1)] by (simp add: txn_inv_def)
  then have "may_write u {m_fd f} c" using t by (auto simp: may_write_def)
  moreover have "files_kept {m_fd f} (backend c) (backend (section_append u req e p m f j c))"
    using c inv w unfolding req
    by (cases rule: section_append_cases) (simp_all add: files_kept_def)
  ultimately show ?thesis by blast
qed

lemma section_log_files:
  assumes c: "conc_consistent c" and inv: "thread_inv u (Logging req e p m f) c"
  shows "files_kept {} (backend c) (backend (section_log u req e p m f c))"
proof -
  obtain cmd i k n d where req: "req = (cmd, i, k, n, d)" by (cases req)
  let ?b = "backend c" and ?b1 = "(backend c)\<lparr>m_commits := insert i (m_commits (backend c))\<rparr>"
  have o: "owns u i m c" and co: "complete i c" using inv by (simp_all add: req)
  obtain t where t: "m_txns ?b i = Some t" using owns_txn [OF c o] by blast
  have tt: "txn_tuple i m c = Some t" using t o by (simp add: txn_tuple_def owns_def)
  have nul: "nul_free (sp_file_attributes t)" using complete_bufs(2) [OF c co t] by (simp add: txn_inv_def)
  obtain s where l: "logTransaction m_commit_log i (sp_file_attributes t) ?b1 = (Inr (), ?b1\<lparr>m_os := s\<rparr>)"
    by (rule logTransaction_cases [OF nul, of m_commit_log i ?b1])
  have "files_kept {} ?b1 (snd (logTransaction m_commit_log i (sp_file_attributes t) ?b1))"
    by (rule logTransaction_files_kept [OF nul]) (simp add: log_names_def)
  then show ?thesis
    using tt l by (simp add: section_log_def req files_kept_def Let_def split: sum.split)
qed


definition rolling_back :: "conc \<Rightarrow> bool" where
  "rolling_back c \<longleftrightarrow> (\<exists>u req e p m. threads c u = Some (RollingBack req e p m))"

lemma conc_step_files:
  assumes inv: "conc_inv c" and st: "conc_step u c = Some c'" and w: "os_writes (m_os (backend c)) = []" and nr: "\<not> rolling_back c"
  shows "\<exists>keys. may_write u keys c \<and> files_kept keys (backend c) (backend c')"
proof -
  have c: "conc_consistent c" using inv by (simp add: conc_inv_def)
  obtain pc where pc: "threads c u = Some pc" using st by (cases "threads c u") (simp_all add: conc_step_def)
  then have ti: "thread_inv u pc c" using inv by (simp add: conc_inv_def)
  note step = st [unfolded conc_step_def pc option.case]
  have none: "\<exists>keys. may_write u keys c \<and> files_kept keys (backend c) (backend c')" if "files_kept {} (backend c) (backend c')"
    using that by (intro exI [of _ "{}"]) (simp add: may_write_def)
  show ?thesis
  proof (cases pc)
    case (Start req e p)
    with step ti section_enter_files [of req c u e p] show ?thesis by (intro none) simp
  next
    case (Waiting req e p m)
    with step show ?thesis by (intro none) (auto simp: section_acquire_def split: if_splits)
  next
    case (Checking req e p m)
    with step section_check_files [OF c ti [unfolded Checking]] show ?thesis by (intro none) simp
  next
    case (Working req e p m)
    with step section_work_files [of c u req e p m] show ?thesis by (intro none) simp
  next
    case (Opening req e p m)
    with step section_open_files [OF c ti [unfolded Opening]] show ?thesis by simp
  next
    case (Appending req e p m f j)
    with step section_append_files [OF c ti [unfolded Appending] w] show ?thesis by simp
  next
    case (Logging req e p m f)
    with step section_log_files [OF c ti [unfolded Logging]] show ?thesis by (intro none) simp
  next
    case (RollingBack req e p m)
    with pc nr show ?thesis unfolding rolling_back_def by blast
  next
    case (Finishing req e p m)
    with step show ?thesis by (intro none) (auto intro!: files_kept_os simp: section_finish_def reply_simps split: prod.splits)
  qed (use step in simp)
qed

lemma not_rolling_back_step:
  assumes inv: "conc_inv c" and st: "conc_step u c = Some c'" and w: "os_writes (m_os (backend c)) = []" and nr: "\<not> rolling_back c"
  shows "\<not> rolling_back c'"
proof -
  have c: "conc_consistent c" using inv by (simp add: conc_inv_def)
  obtain pc where pc: "threads c u = Some pc" using st by (cases "threads c u") (simp_all add: conc_step_def)
  then have ti: "thread_inv u pc c" using inv by (simp add: conc_inv_def)
  note step = st [unfolded conc_step_def pc option.case]
  have "threads c' u \<noteq> Some (RollingBack req e p m)" for req e p m
  proof (cases pc)
    case (Appending req' e' p' m' f j)
    obtain cmd i k n d where req: "req' = (cmd, i, k, n, d)" by (cases req')
    have c': "c' = section_append u (cmd, i, k, n, d) e' p' m' f j c" using step Appending req by simp
    from c ti [unfolded Appending req] w show ?thesis
      unfolding c' by (cases rule: section_append_cases) simp_all
  qed (use step in \<open>auto simp: section_enter_def section_acquire_def section_check_def section_work_def section_open_def
      section_log_def section_rollback_def section_finish_def undefined_behaviour_def Let_def
      split: if_splits option.splits sum.splits prod.splits\<close>)
  with nr conc_step_others [OF st] show ?thesis unfolding rolling_back_def by metis
qed

lemma file_frame:
  assumes "file_lock c g = Some th" "nul_free g" "g \<notin> log_names" "names_distinct (backend c)" "u \<noteq> th"
    and "may_write u keys c" "files_kept keys (backend c) b'"
  shows "os_files (m_os b') (data_key g (backend c)) = os_files (m_os (backend c)) (data_key g (backend c))"
proof -
  have "data_key g (backend c) \<noteq> data_key l (backend c)" if "l \<in> log_names" for l
  proof -
    have "nul_free l" using that by (auto simp: log_names_def consts_simps)
    with assms(2-4) that show ?thesis unfolding names_distinct_def by blast
  qed
  moreover have "data_key g (backend c) \<notin> keys"
    using assms(1,2,4,5,6) unfolding may_write_def names_distinct_def by (metis empty_iff option.distinct(1) option.inject singletonD)
  ultimately show ?thesis using assms(7) unfolding files_kept_def by blast
qed

lemma timer_files:
  assumes "nul_free (timer_file_name tm)" "txn_timer_turn tm w b = (r, b')"
  shows "files_kept {} b b'"
proof -
  let ?b = "removeTransaction (timer_txn_id tm) b"
  have "files_kept {} ?b (snd (logTransaction m_timeout_log (timer_txn_id tm) (timer_file_name tm) ?b))"
    by (rule logTransaction_files_kept [OF assms(1)]) (simp add: log_names_def)
  then have k: "files_kept {} b (snd (logTransaction m_timeout_log (timer_txn_id tm) (timer_file_name tm) ?b))"
    by (rule files_kept_cong) simp_all
  have "b' = b \<or> b' = snd (logTransaction m_timeout_log (timer_txn_id tm) (timer_file_name tm) ?b)"
    using assms(2) by (auto simp: txn_timer_turn_def split: option.splits if_splits sum.splits prod.splits)
  with k show ?thesis by auto
qed


subsection \<open>One commit among others\<close>

lemma commit_data_next:
  assumes "initial_seq_num + 1 \<le> j" "bufs j = Some x"
  shows "commit_data bufs j = commit_data bufs (j - 1) @ x"
  unfolding commit_data_def using upto_rec2 [OF assms(1)] assms(2) by simp

text \<open>
  How far the commit of transaction \<open>i\<close> by thread \<open>th\<close> has come: \<open>old\<close> is the content of the
  file when it was opened.
\<close>

definition committing :: "nat \<Rightarrow> TxnId \<Rightarrow> TransactionAttributes \<Rightarrow> File \<Rightarrow> string \<Rightarrow> conc \<Rightarrow> bool" where
  "committing th i t f old c \<longleftrightarrow>
     (case threads c th of
        Some (Appending req e p m f' j) \<Rightarrow> id_of req = i \<and> f' = f \<and> m_txns (backend c) i = Some t \<and> j \<le> max_seq_num t + 1
          \<and> os_files (m_os (backend c)) (m_fd f) = Some (old @ commit_data (buffers t) (j - 1))
      | Some (Logging req e p m f') \<Rightarrow> id_of req = i \<and> f' = f \<and> m_txns (backend c) i = Some t
          \<and> os_files (m_os (backend c)) (m_fd f) = Some (old @ commit_data (buffers t) (max_seq_num t))
      | Some (Finishing req e p m) \<Rightarrow> True
      | Some (Done req r) \<Rightarrow> True
      | _ \<Rightarrow> False)"

definition calm :: "conc \<Rightarrow> bool" where
  "calm c \<longleftrightarrow> conc_inv c \<and> os_writes (m_os (backend c)) = [] \<and> \<not> rolling_back c \<and> names_distinct (backend c)"

lemma names_distinct_kept: "files_kept keys b b' \<Longrightarrow> names_distinct b \<Longrightarrow> names_distinct b'"
  by (simp add: files_kept_def names_distinct_def)

lemma committing_others:
  assumes calm: "calm c" and com: "committing th i t f old c" and log: "sp_file_attributes t \<notin> log_names"
    and same: "threads c' th = threads c th"
    and txn: "\<And>pc. threads c th = Some pc \<Longrightarrow> holds_file pc = Some i \<Longrightarrow> m_txns (backend c') i = m_txns (backend c) i"
    and u: "u \<noteq> th" "may_write u keys c" "files_kept keys (backend c) (backend c')"
  shows "committing th i t f old c'"
proof -
  have c: "conc_consistent c" using calm by (simp add: calm_def conc_inv_def)
  have fr: "os_files (m_os (backend c')) (m_fd f) = os_files (m_os (backend c)) (m_fd f)"
    if o: "owns_file th i f c" "m_txns (backend c) i = Some t"
  proof -
    have "nul_free (sp_file_attributes t)"
      using c o(2) backend_inv_txn [of "backend c" i t] by (simp add: conc_consistent_def txn_inv_def)
    moreover have "m_fd f = data_key (sp_file_attributes t) (backend c)" "file_lock c (sp_file_attributes t) = Some th"
      using o by (auto simp: owns_file_def)
    ultimately show ?thesis using file_frame [OF _ _ log _ u(1) u(2,3)] calm by (simp add: calm_def)
  qed
  show ?thesis
  proof (cases "threads c th")
    case (Some pc)
    then have "thread_inv th pc c" using calm by (simp add: calm_def conc_inv_def)
    with com Some same txn fr show ?thesis by (cases pc) (auto simp: committing_def)
  qed (use com in \<open>simp add: committing_def\<close>)
qed

lemma committing_own:
  assumes calm: "calm c" and com: "committing th i t f old c" and st: "conc_step th c = Some c'"
  shows "committing th i t f old c'"
proof -
  have c: "conc_consistent c" and w: "os_writes (m_os (backend c)) = []" using calm by (simp_all add: calm_def conc_inv_def)
  obtain pc where pc: "threads c th = Some pc" using st by (cases "threads c th") (simp_all add: conc_step_def)
  then have ti: "thread_inv th pc c" using calm by (simp add: calm_def conc_inv_def)
  note step = st [unfolded conc_step_def pc option.case]
  show ?thesis
  proof (cases pc)
    case (Appending req e p m f' j)
    obtain cmd i' k n d where req: "req = (cmd, i', k, n, d)" by (cases req)
    have cm: "i' = i" "f' = f" "m_txns (backend c) i = Some t" "j \<le> max_seq_num t + 1"
      "os_files (m_os (backend c)) (m_fd f) = Some (old @ commit_data (buffers t) (j - 1))"
      using com pc Appending req by (simp_all add: committing_def)
    have j: "initial_seq_num + 1 \<le> j" using ti Appending by simp
    have c': "c' = section_append th (cmd, i', k, n, d) e p m f' j c" using step Appending req by simp
    from c ti [unfolded Appending req] w show ?thesis
      unfolding c'
    proof (cases rule: section_append_cases)
      case (logging t')
      then have "j - 1 = max_seq_num t" using cm by simp
      with logging cm show "committing th i t f old (section_append th (cmd, i', k, n, d) e p m f' j c)" by (simp add: committing_def)
    next
      case (another t' x)
      then have "commit_data (buffers t) j = commit_data (buffers t) (j - 1) @ x"
        using cm by (intro commit_data_next [OF j]) simp
      with another cm show "committing th i t f old (section_append th (cmd, i', k, n, d) e p m f' j c)" by (simp add: committing_def)
    qed
  next
    case (Logging req e p m f')
    have "\<exists>pc'. threads c' th = Some pc' \<and> (pc' = Finishing req e p m \<or> (\<exists>r. pc' = Done req r))"
      using step Logging by (auto simp: section_log_def undefined_behaviour_def Let_def split: option.split sum.split prod.split)
    then show ?thesis by (auto simp: committing_def)
  next
    case (Finishing req e p m)
    then show ?thesis using step by (auto simp: section_finish_def committing_def split: prod.splits)
  qed (use com pc step in \<open>auto simp: committing_def\<close>)
qed

lemma calm_step:
  assumes calm: "calm c" and st: "conc_step u c = Some c'" and fresh: "\<forall>i. opened i c c' \<longrightarrow> \<not> in_use i c"
  shows "calm c'"
proof -
  obtain keys where "files_kept keys (backend c) (backend c')"
    using conc_step_files [OF _ st] calm by (auto simp: calm_def)
  with calm conc_step_inv [OF _ st fresh] not_rolling_back_step [OF _ st] show ?thesis
    by (auto simp: calm_def files_kept_def names_distinct_def)
qed

lemma calm_invs: "calm c \<Longrightarrow> conc_inv c" "calm c \<Longrightarrow> conc_consistent c"
  by (simp_all add: calm_def conc_inv_def)

text \<open>The commit goes on, or is left alone, when a thread starts, takes a step, or a timer runs.\<close>

lemma committing_spawn:
  assumes "calm c" "committing th i t f old c" "threads c u = None" "request_ok req"
  shows "calm (goto u (Start req e p) c) \<and> committing th i t f old (goto u (Start req e p) c)"
proof -
  have "u \<noteq> th" using assms(2,3) by (auto simp: committing_def)
  then have "committing th i t f old (goto u (Start req e p) c) = committing th i t f old c"
    by (simp add: committing_def cong: option.case_cong pc.case_cong)
  moreover have "calm (goto u (Start req e p) c)"
    using assms(1,3,4) by (auto simp: calm_def rolling_back_def intro: spawn_inv)
  ultimately show ?thesis using assms(2) by simp
qed

lemma committing_step:
  assumes calm: "calm c" and com: "committing th i t f old c" and log: "sp_file_attributes t \<notin> log_names"
    and step: "conc_step u c = Some c'"
  shows "committing th i t f old c'"
proof (cases "u = th")
  case True
  then show ?thesis using committing_own [OF calm com] step by simp
next
  case False
  obtain keys where k: "may_write u keys c" "files_kept keys (backend c) (backend c')"
    using conc_step_files [OF _ step] calm by (auto simp: calm_def)
  have g: "guarantee u c c'" using conc_step_ok [OF calm_invs(1) [OF calm] step] by (simp add: step_ok_def)
  show ?thesis
  proof (rule committing_others [OF calm com log _ _ False k])
    show "threads c' th = threads c th" using conc_step_others [OF step] False by simp
    fix pc
    assume pc: "threads c th = Some pc" "holds_file pc = Some i"
    then have "thread_inv th pc c" using calm_invs(1) [OF calm] by (simp add: conc_inv_def)
    then obtain m where "owns th i m c" using pc(2) by (cases pc) auto
    then show "m_txns (backend c') i = m_txns (backend c) i" by (rule stable_owns(2) [OF calm_invs(2) [OF calm] g False])
  qed
qed

lemma committing_timer:
  assumes calm: "calm c" and com: "committing th i t f old c" and log: "sp_file_attributes t \<notin> log_names"
    and turn: "nul_free (timer_file_name tm)" "txn_timer_turn tm w (backend c) = (r, b')"
    and idle: "\<not> in_use (timer_txn_id tm) c"
  shows "calm (adopt b' c) \<and> committing th i t f old (adopt b' c)"
proof -
  have k: "files_kept {} (backend c) b'" by (rule timer_files [OF turn])
  have "calm (adopt b' c)"
    using calm k timer_inv [OF calm_invs(1) [OF calm] turn] idle
    by (simp add: calm_def rolling_back_def files_kept_def names_distinct_def)
  moreover have "committing th i t f old (adopt b' c)"
  proof (rule committing_others [OF calm com log, of _ "Suc th" "{}"])
    fix pc
    assume pc: "threads c th = Some pc" "holds_file pc = Some i"
    then obtain req' m' where "under_way pc = Some (req', m')" "id_of req' = i" by (cases pc) auto
    then have "in_use i c" using pc(1) unfolding in_use_def by blast
    then have "timer_txn_id tm \<noteq> i" using idle by metis
    then show "m_txns (backend (adopt b' c)) i = m_txns (backend c) i"
      by (cases rule: txn_timer_turn_cases [OF turn(1), of "backend c" w]) (use turn(2) in auto)
  qed (use k in \<open>simp_all add: may_write_def\<close>)
  ultimately show ?thesis by simp
qed

lemma committing_start:
  assumes "calm c" "threads c th = Some (Appending req e p m f (initial_seq_num + 1))" "m_txns (backend c) (id_of req) = Some t"
  shows "committing th (id_of req) t f (contents (m_fd f) (m_os (backend c))) c"
proof -
  have ti: "thread_inv th (Appending req e p m f (initial_seq_num + 1)) c"
    using calm_invs(1) [OF assms(1)] assms(2) unfolding conc_inv_def by blast
  have "1 \<le> max_seq_num t"
    using assms(3) calm_invs(1) [OF assms(1)] backend_inv_txn [of "backend c"]
    by (auto simp: conc_inv_def conc_consistent_def txn_inv_def)
  then show ?thesis
    using assms(2,3) ti by (auto simp: committing_def commit_data_def owns_file_def contents_def consts_simps)
qed

lemma committing_reach:
  assumes run: "conc_reach True c1 c2" and c1: "calm c1" "committing th i t f old c1"
    and log: "sp_file_attributes t \<notin> log_names"
  shows "calm c2 \<and> committing th i t f old c2"
  using run
proof (induction rule: conc_reach.induct)
  case start
  show ?case using c1 by simp
next
  case (spawn c u req e p)
  then show ?case using committing_spawn [of c th i t f old u req e p] by simp
next
  case (step c u c')
  have "calm c'" by (rule calm_step [OF _ step(2)]) (use step in simp_all)
  then show ?case using committing_step [OF _ _ log step(2)] step by simp
next
  case (timer c tm w r b')
  then show ?case using committing_timer [OF _ _ log timer(2,3), of th i f old] by simp
qed



end
