(* ===== verification/Interleaving_Races.thy ===== *)
theory Interleaving_Races
  imports Interleaving_Commits
begin

text \<open>
  Concrete interleavings: the theorems of the two theories before applied to them, and the
  runs that show why those theorems have their conditions. Each run is a list of thread
  numbers, the order in which the threads take their sections.
\<close>

definition result :: "nat \<Rightarrow> conc \<Rightarrow> ((Reply \<times> bool) outcome) option" where
  "result th c = (case threads c th of Some (Done req r) \<Rightarrow> Some r | _ \<Rightarrow> None)"

text \<open>Transaction 7 on the file \<open>f\<close>, with the mutex 0, and two requests for it.\<close>

definition demo_conc :: conc where
  "demo_conc = goto 2 (Start (commit_cmd, 7, 2, 0, []) demo_env True)
     (goto 1 (Start (write_cmd, 7, 1, 1, ''a'') demo_env True) (conc_idle [7 \<mapsto> 0] 1 demo_backend))"

lemma conc_idle_inv:
  assumes "conc_consistent (conc_idle mtxs n b)"
  shows "conc_inv (conc_idle mtxs n b)"
  using assms by (simp add: conc_inv_def conc_idle_def)

lemma demo_conc_inv: "conc_inv demo_conc"
proof -
  have "conc_consistent (conc_idle [7 \<mapsto> 0] 1 demo_backend)"
    using demo_backend_inv by (auto simp: conc_consistent_def conc_idle_def demo_backend_def split: if_splits)
  then show ?thesis
    unfolding demo_conc_def by (intro spawn_inv conc_idle_inv) (simp_all add: conc_idle_def int_range_defs)
qed

lemma conc_steps_reach:
  assumes "conc_reach False c0 c" "conc_steps ths c = Some c'"
  shows "conc_reach False c0 c'"
  using assms
proof (induction ths arbitrary: c)
  case (Cons th ths)
  then obtain c1 where "conc_step th c = Some c1" "conc_steps ths c1 = Some c'" by (auto simp: bind_eq_Some_conv)
  then show ?case using Cons.IH [OF conc_reach.step [OF Cons.prems(1)]] by blast
qed simp

lemma conc_step_reach:
  assumes "conc_reach True c0 c" "conc_step th c = Some c'" "m_txns (backend c') = m_txns (backend c)"
  shows "conc_reach True c0 c'"
  by (rule conc_reach.step [OF assms(1,2)]) (auto simp: opened_def assms(3))

subsection \<open>A thread by itself\<close>

theorem sections_compose_witness:
  "\<exists>n c'. conc_steps (replicate n 1) demo_conc = Some c'
    \<and> backend c' = snd (processCommand (write_cmd, 7, 1, 1, ''a'') demo_env True demo_backend)"
proof -
  have "conc_consistent demo_conc" using demo_conc_inv by (simp add: conc_inv_def)
  from sections_compose [OF this, of 1 "(write_cmd, 7, 1, 1, ''a'')" demo_env True] show ?thesis
    by (auto simp: demo_conc_def conc_idle_def int_range_defs)
qed

subsection \<open>Two threads\<close>

text \<open>The write has the mutex of the transaction, the commit waits for it.\<close>

definition demo_waiting :: conc where
  "demo_waiting = the (conc_steps [1, 1, 2] demo_conc)"

lemma demo_waiting_reach: "conc_reach True demo_conc demo_waiting"
  and demo_waiting_blocked: "blocked 2 demo_waiting"
proof -
  let ?w = "(write_cmd, 7, 1, 1, ''a'')" and ?k = "(commit_cmd, 7, 2, 0, [])"
  let ?c1 = "goto 1 (Waiting ?w demo_env True 0) demo_conc"
  let ?c2 = "goto 1 (Checking ?w demo_env True 0) (?c1\<lparr>txn_lock := [0 \<mapsto> 1]\<rparr>)"
  let ?c3 = "goto 2 (Waiting ?k demo_env True 0) ?c2"
  have s1: "conc_step 1 demo_conc = Some ?c1"
    by (simp add: conc_step_def section_enter_def demo_conc_def conc_idle_def demo_backend_def committed_or_invalid_id_def Let_def)
  have s2: "conc_step 1 ?c1 = Some ?c2"
    by (simp add: conc_step_def section_acquire_def demo_conc_def conc_idle_def)
  have s3: "conc_step 2 ?c2 = Some ?c3"
    by (simp add: conc_step_def section_enter_def demo_conc_def conc_idle_def demo_backend_def Let_def consts_simps)
  have w: "demo_waiting = ?c3" unfolding demo_waiting_def using s1 s2 s3 by simp
  have "conc_reach True demo_conc ?c1" by (rule conc_step_reach [OF conc_reach.start s1]) simp
  then have "conc_reach True demo_conc ?c2" by (rule conc_step_reach [OF _ s2]) simp
  then show "conc_reach True demo_conc demo_waiting" unfolding w by (rule conc_step_reach [OF _ s3]) simp
  show "blocked 2 demo_waiting" unfolding w blocked_def by (simp add: conc_step_def section_acquire_def)
qed



text \<open>A commit that has opened its file, by itself in the backend.\<close>

definition demo_ready :: TransactionAttributes where
  "demo_ready = demo_txn\<lparr>buffers := [1 \<mapsto> ''ab'']\<rparr>"

definition demo_commit :: conc where
  "demo_commit = goto 1 (Appending (commit_cmd, 7, 1, 0, []) demo_env True 0 \<lparr>m_fd = ''f'', m_flags = append_flags\<rparr> 1)
     ((conc_idle [7 \<mapsto> 0] 1 (with_txn 7 demo_ready demo_backend))\<lparr>txn_lock := [0 \<mapsto> 1], file_lock := [''f'' \<mapsto> 1]\<rparr>)"

lemma demo_data_key: "nul_free g \<Longrightarrow> data_key g demo_backend = g"
  by (simp add: demo_backend_def demo_os_def demo_resolve_def)

lemma demo_commit_calm: "calm demo_commit"
proof -
  let ?b = "with_txn 7 demo_ready demo_backend"
  have t: "txn_inv demo_ready" "sp_file_attributes demo_ready = ''f''" "max_seq_num demo_ready = 1"
    by (simp_all add: txn_inv_def demo_ready_def demo_txn_def getNewTransactionAttributes_def consts_simps int_range_defs)
  have bi: "backend_inv ?b"
    by (rule backend_inv_update_txn [OF demo_backend_inv, of 7 demo_txn])
       (use t in \<open>simp_all add: demo_backend_def demo_txn_def getNewTransactionAttributes_def\<close>)
  have "first_missing (buffers demo_ready) (initial_seq_num + 1) (max_seq_num demo_ready) = None"
    unfolding first_missing_None t(3) by (auto simp: demo_ready_def consts_simps)
  then have "complete 7 demo_commit"
    by (simp add: complete_def demo_commit_def conc_idle_def demo_backend_def)
  moreover have "owns_file 1 7 \<lparr>m_fd = ''f'', m_flags = append_flags\<rparr> demo_commit"
    using t(2) demo_data_key [of "''f''"]
    by (simp add: owns_file_def demo_commit_def conc_idle_def) (simp add: demo_backend_def demo_os_def)
  moreover have "conc_consistent demo_commit"
    using bi by (auto simp: conc_consistent_def demo_commit_def conc_idle_def demo_backend_def split: if_splits)
  ultimately have "conc_inv demo_commit"
    using t(2) by (auto simp: conc_inv_def lock_inv_def owns_def demo_commit_def conc_idle_def int_range_defs consts_simps split: if_splits)
  moreover have "names_distinct (backend demo_commit)"
    by (simp add: names_distinct_def demo_data_key demo_commit_def conc_idle_def)
  moreover have "os_writes (m_os (backend demo_commit)) = []"
    by (simp add: demo_commit_def conc_idle_def demo_backend_def demo_os_def)
  moreover have "\<not> rolling_back demo_commit" by (simp add: rolling_back_def demo_commit_def conc_idle_def)
  ultimately show ?thesis by (simp add: calm_def)
qed



subsection \<open>A timer during a request\<close>


subsection \<open>An identifier drawn again\<close>

text \<open>
  The second condition is needed: while a WRITE waits, an ABORT removes the transaction and
  a NEW\_TXN draws the same identifier; the second check finds the new transaction, and the
  write goes through the references to the old one.
\<close>

definition demo_redraw :: conc where
  "demo_redraw = goto 3 (Start (new_txn_cmd, -1, 0, 1, ''f'') \<lparr>now = 5, rands = (\<lambda>n. 7)\<rparr> True)
     (goto 2 (Start (abort_cmd, 7, 0, 0, []) demo_env True) demo_conc)"

theorem identifier_race:
  "\<exists>c. conc_reach False demo_redraw c \<and> result 2 c = Some (Inr ((ack_cmd, 7, 0, nil, []), False))
    \<and> result 3 c = Some (Inr ((ack_cmd, 7, 0, nil, []), True)) \<and> result 1 c = Some (Inl Undefined)"
proof -
  let ?w = "(write_cmd, 7, 1, 1, ''a'')" and ?a = "(abort_cmd, 7, 0, 0, [])" and ?n = "(new_txn_cmd, -1, 0, 1, ''f'')"
  let ?e = "\<lparr>now = 5, rands = (\<lambda>n. 7)\<rparr>"
  obtain s where ab: "ABORT_locked ?a True demo_backend = SET_ACK 7 0 False (removeTransaction 7 (demo_backend\<lparr>m_os := s\<rparr>))"
  proof (rule ABORT_cases [OF demo_backend_inv, of 7 abort_cmd 0 0 "[]" True])
    fix t s assume "ABORT ?a True demo_backend = SET_ACK 7 0 False (removeTransaction 7 (demo_backend\<lparr>m_os := s\<rparr>))"
    then show thesis by (intro that [of s]) (simp add: ABORT_def committed_or_invalid_id_def committed_or_aborted_def demo_backend_def)
  qed (simp_all add: demo_backend_def)
  let ?b = "removeTransaction 7 (demo_backend\<lparr>m_os := s\<rparr>)"
  have "candidate_id (rands ?e) 0 (m_txns ?b) = Some 7" by (subst candidate_id.simps) (simp add: INT32_MAX_def)
  then obtain s' where nt: "NEW_TXN ?n ?e True ?b = SET_NEW_TXN 7 True (started_state 7 ''f'' 5 s' ?b)"
    using NEW_TXN_cases [of "''f''" 0 new_txn_cmd "-1" 1 ?e True ?b] by auto
  let ?c1 = "goto 1 (Waiting ?w demo_env True 0) demo_redraw"
  let ?c2 = "goto 2 (Waiting ?a demo_env True 0) ?c1"
  let ?c3 = "goto 2 (Checking ?a demo_env True 0) (?c2\<lparr>txn_lock := [0 \<mapsto> 2]\<rparr>)"
  let ?c4 = "finish 2 0 ?a (SET_ACK 7 0 False ?b) ?c3"
  let ?c5 = "section_enter 3 ?n ?e True ?c4"
  let ?c6 = "goto 1 (Checking ?w demo_env True 0) (?c5\<lparr>txn_lock := [0 \<mapsto> 1]\<rparr>)"
  let ?c7 = "goto 1 (Working ?w demo_env True 0) ?c6"
  let ?c8 = "undefined_behaviour 1 ?w ?c7"
  note defs = demo_redraw_def demo_conc_def conc_idle_def
  have b5: "backend ?c5 = started_state 7 ''f'' 5 s' ?b" "mtx_of ?c5 = [7 \<mapsto> 1]" "txn_lock ?c5 = Map.empty"
    "threads ?c5 = (threads ?c4)(3 \<mapsto> Done ?n (Inr ((ack_cmd, 7, initial_seq_num, nil, []), True)))"
    using nt by (auto simp: section_enter_def processCommand_def Let_def reply_simps consts_simps defs demo_backend_def fun_eq_iff)
  have "conc_step 1 demo_redraw = Some ?c1"
    by (simp add: conc_step_def section_enter_def committed_or_invalid_id_def Let_def defs demo_backend_def)
  moreover have "conc_step 2 ?c1 = Some ?c2"
    by (simp add: conc_step_def section_enter_def committed_or_invalid_id_def Let_def defs demo_backend_def)
  moreover have "conc_step 2 ?c2 = Some ?c3" by (simp add: conc_step_def section_acquire_def defs)
  moreover have "backend ?c3 = demo_backend" "mtx_of ?c3 = [7 \<mapsto> 0]" by (simp_all add: defs)
  then have "section_check 2 ?a demo_env True 0 ?c3 = ?c4"
    using ab by (simp add: section_check_def committed_or_aborted_def txn_tuple_def demo_backend_def)
  then have "conc_step 2 ?c3 = Some ?c4" by (simp add: conc_step_def)
  moreover have "conc_step 3 ?c4 = Some ?c5" by (simp add: conc_step_def defs)
  moreover have "conc_step 1 ?c5 = Some ?c6" using b5 by (simp add: conc_step_def section_acquire_def defs)
  moreover have "section_check 1 ?w demo_env True 0 ?c6 = ?c7"
    using b5 by (simp add: section_check_def committed_or_aborted_def demo_backend_def consts_simps)
  then have "conc_step 1 ?c6 = Some ?c7" by (simp add: conc_step_def)
  moreover have "conc_step 1 ?c7 = Some ?c8" using b5 by (simp add: conc_step_def section_work_def txn_tuple_def)
  ultimately have "conc_steps [1, 2, 2, 2, 3, 1, 1, 1] demo_redraw = Some ?c8" by simp
  then have "conc_reach False demo_redraw ?c8" by (rule conc_steps_reach [OF conc_reach.start])
  moreover have "result 2 ?c8 = Some (Inr ((ack_cmd, 7, 0, nil, []), False))" "result 1 ?c8 = Some (Inl Undefined)"
    "result 3 ?c8 = Some (Inr ((ack_cmd, 7, 0, nil, []), True))"
    by (simp_all add: result_def undefined_behaviour_def b5 del: One_nat_def) (simp_all add: SET_ACK_def initial_seq_num_def)
  ultimately show ?thesis by blast
qed

subsection \<open>A rollback without the file's mutex\<close>

text \<open>
  Transactions 7 and 8 on one file, one write each, and a system on which the second
  \<open>write\<close> call fails.
\<close>

definition demo_two :: conc where
  "demo_two =
     (let t = demo_txn\<lparr>buffers := [1 \<mapsto> ''ab'']\<rparr>; u = demo_txn\<lparr>buffers := [1 \<mapsto> ''cd'']\<rparr> in
      goto 2 (Start (commit_cmd, 8, 1, 0, []) demo_env True)
        (goto 1 (Start (commit_cmd, 7, 1, 0, []) demo_env True)
          (conc_idle [7 \<mapsto> 0, 8 \<mapsto> 1] 2
            (demo_backend\<lparr>m_txns := [7 \<mapsto> t, 8 \<mapsto> u],
               m_files := [''f'' \<mapsto> \<lparr>m_file_name = ''f'', m_file_size = 3, m_use_count = 2\<rparr>],
               m_os := demo_os\<lparr>os_writes := [Some 1, None]\<rparr>\<rparr>))))"

text \<open>
  C26. The handler of a failed write truncates after the file's mutex is released. Here thread 1
  fails and is about to roll back; thread 2 takes the mutex and appends; thread 1 truncates
  to the old size; thread 2 logs its commit and acknowledges it, and its data is gone.
\<close>

theorem rollback_race:
  "\<exists>c. conc_reach False demo_two c \<and> result 1 c = Some (Inr ((error_cmd, 7, 1, ErrorWritingFile, getErrorMessage ErrorWritingFile), False))
    \<and> result 2 c = Some (Inr ((ack_cmd, 8, 1, nil, []), True)) \<and> 8 \<in> m_commits (backend c)
    \<and> os_files (m_os (backend c)) ''f'' = Some ''old''"
proof -
  let ?run = "[1, 1, 1, 1, 1, 1, 2, 2, 2, 2, 2, 2, 1, 2, 2, 2]"
  have "map_option (\<lambda>c. (result 1 c, result 2 c, 8 \<in> m_commits (backend c), os_files (m_os (backend c)) ''f'')) (conc_steps ?run demo_two)
      = Some (Some (Inr ((error_cmd, 7, 1, ErrorWritingFile, getErrorMessage ErrorWritingFile), False)),
          Some (Inr ((ack_cmd, 8, 1, nil, []), True)), True, Some ''old'')"
    by code_simp
  then obtain c where "conc_steps ?run demo_two = Some c"
    "result 1 c = Some (Inr ((error_cmd, 7, 1, ErrorWritingFile, getErrorMessage ErrorWritingFile), False))"
    "result 2 c = Some (Inr ((ack_cmd, 8, 1, nil, []), True))" "8 \<in> m_commits (backend c)"
    "os_files (m_os (backend c)) ''f'' = Some ''old''" by (auto simp del: conc_steps.simps)
  then show ?thesis using conc_steps_reach [OF conc_reach.start] by blast
qed


subsection \<open>Two log entries at once\<close>

text \<open>
  The step \<open>section_log\<close> is coarser than the code: commits of different files hold different
  mutexes, and the six writes of \<open>logTransaction\<close> for the one commit log may mix. An
  interleaving of the writes for transactions 7 and 8 after which a restart finds no
  entry at all, and takes both commits back:
\<close>

theorem log_race:
  "\<exists>ds \<in> shuffles [to_string 7, '' '', ''f'', '' '', to_string 5, ''\<newline>''] [to_string 8, '' '', ''g'', '' '', to_string 2, ''\<newline>''].
     read_entries (istringstream (concat ds)) = []"
proof -
  have d: "to_string 7 = ''7''" "to_string 5 = ''5''" "to_string 8 = ''8''" "to_string 2 = ''2''" by code_simp+
  let ?ds = "[''7'', '' '', ''8'', '' '', ''f'', '' '', ''5'', ''\<newline>'', ''g'', '' '', ''2'', ''\<newline>'']"
  have "read_entries (istringstream (concat ?ds)) = []" by code_simp
  moreover have "?ds \<in> shuffles [''7'', '' '', ''f'', '' '', ''5'', ''\<newline>''] [''8'', '' '', ''g'', '' '', ''2'', ''\<newline>'']"
    by (rule Cons_in_shuffles_leftI, rule Cons_in_shuffles_leftI, rule Cons_in_shuffles_rightI, rule Cons_in_shuffles_rightI,
        intro Cons_in_shuffles_leftI) simp
  ultimately show ?thesis unfolding d by blast
qed

end
