(* ===== verification/Cartesian_ProductN.thy ===== *)
theory Cartesian_ProductN
  imports Cartesian_Product3
begin

text \<open>
  \<open>CartesianProductGenerator4\<close> to \<open>CartesianProductGenerator10\<close> of
  \<open>GoogleTestFramework/.../internal/gtest-param-util-generated.h\<close>. The seven classes are
  generated from one template and differ in the number of components only; here the number is the
  length of a list. An iterator has one \<open>dial\<close> (\<open>begin[i]_\<close>, \<open>end[i]_\<close>,
  \<open>current[i]_\<close>) per component, and a tuple is the list of its entries, so the component types
  are one type (a sum, where the C++ types differ). The generic definitions follow the class of ten;
  \<open>Combine4\<close> to \<open>Combine10\<close> are the classes.
\<close>

record 'i dial =
  dial_begin :: 'i
  dial_end :: 'i
  dial_current :: 'i

record ('i, 'a) iteratorN =
  baseN :: nat
  dialsN :: "'i dial list"
  current_valueN :: "'a list option"

fun AtEndN :: "('i, 'a) generator list \<Rightarrow> 'i dial list \<Rightarrow> bool outcome" where
  "AtEndN (g # gs) (d # ds) =
     and_then (iterator_eq g False (dial_current d) (dial_end d)) (\<lambda>e. if e then Inr True else AtEndN gs ds)"
| "AtEndN gs ds = Inr False"

text \<open>\<open>ParamType(*current1_, ..., *current10_)\<close>; dereferencing may fill a component's cache.\<close>

fun deref_dials :: "('i, 'a) generator list \<Rightarrow> 'i dial list \<Rightarrow> ('a list \<times> 'i dial list) outcome" where
  "deref_dials (g # gs) (d # ds) =
     and_then (iterator_deref g (dial_current d)) (\<lambda>(x, c).
     and_then (deref_dials gs ds) (\<lambda>(xs, ds'). Inr (x # xs, d\<lparr>dial_current := c\<rparr> # ds')))"
| "deref_dials gs ds = Inr ([], [])"

definition ComputeCurrentValueN ::
  "('i, 'a) generator list \<Rightarrow> ('i, 'a) iteratorN \<Rightarrow> ('i, 'a) iteratorN outcome" where
  "ComputeCurrentValueN gs it =
     and_then (AtEndN gs (dialsN it)) (\<lambda>at_end.
       if at_end then Inr it
       else and_then (deref_dials gs (dialsN it)) (\<lambda>(xs, ds). Inr (it\<lparr>dialsN := ds, current_valueN := Some xs\<rparr>)))"

fun new_dials :: "('i, 'a) generator list \<Rightarrow> 'i list \<Rightarrow> 'i dial list outcome" where
  "new_dials (g # gs) (c # cs) =
     and_then (generator_begin g) (\<lambda>b. and_then (generator_end g) (\<lambda>e. and_then (iterator_copy g c) (\<lambda>c'.
     and_then (new_dials gs cs) (\<lambda>ds. Inr (\<lparr>dial_begin = b, dial_end = e, dial_current = c'\<rparr> # ds)))))"
| "new_dials gs cs = Inr []"

definition iteratorN_new :: "('i, 'a) generator list \<Rightarrow> nat \<Rightarrow> 'i list \<Rightarrow> ('i, 'a) iteratorN outcome" where
  "iteratorN_new gs base cs =
     and_then (new_dials gs cs) (\<lambda>ds.
       ComputeCurrentValueN gs \<lparr>baseN = base, dialsN = ds, current_valueN = None\<rparr>)"

text \<open>
  \<open>++current10_\<close> and then, for the components from the last to the second, the reset of one that
  has reached its end with the increment of the one before it.
\<close>

fun advance_dials :: "('i, 'a) generator list \<Rightarrow> 'i dial list \<Rightarrow> 'i dial list outcome" where
  "advance_dials (g1 # g2 # gs) (d1 # ds) =
     and_then (advance_dials (g2 # gs) ds) (\<lambda>ds'.
       case ds' of
         [] \<Rightarrow> Inr (d1 # ds')
       | d2 # r \<Rightarrow>
           and_then (iterator_eq g2 False (dial_current d2) (dial_end d2)) (\<lambda>carry.
             if carry
             then and_then (iterator_assign g2 False (dial_current d2) (dial_begin d2)) (\<lambda>c2.
                  and_then (iterator_incr g1 (dial_current d1)) (\<lambda>c1.
                    Inr (d1\<lparr>dial_current := c1\<rparr> # d2\<lparr>dial_current := c2\<rparr> # r)))
             else Inr (d1 # d2 # r)))"
| "advance_dials [g] [d] = and_then (iterator_incr g (dial_current d)) (\<lambda>c. Inr [d\<lparr>dial_current := c\<rparr>])"
| "advance_dials gs ds = Inr ds"

definition AdvanceN :: "('i, 'a) generator list \<Rightarrow> ('i, 'a) iteratorN \<Rightarrow> ('i, 'a) iteratorN outcome" where
  "AdvanceN gs it =
     and_then (AtEndN gs (dialsN it)) (\<lambda>at_end.
       if at_end then Inl AssertFailed
       else and_then (advance_dials gs (dialsN it)) (\<lambda>ds. ComputeCurrentValueN gs (it\<lparr>dialsN := ds\<rparr>)))"

fun copy_dials :: "('i, 'a) generator list \<Rightarrow> 'i dial list \<Rightarrow> 'i dial list outcome" where
  "copy_dials (g # gs) (d # ds) =
     and_then (iterator_copy g (dial_begin d)) (\<lambda>b. and_then (iterator_copy g (dial_end d)) (\<lambda>e.
     and_then (iterator_copy g (dial_current d)) (\<lambda>c. and_then (copy_dials gs ds) (\<lambda>ds'.
       Inr (\<lparr>dial_begin = b, dial_end = e, dial_current = c\<rparr> # ds')))))"
| "copy_dials gs ds = Inr []"

definition CloneN :: "('i, 'a) generator list \<Rightarrow> ('i, 'a) iteratorN \<Rightarrow> ('i, 'a) iteratorN outcome" where
  "CloneN gs other =
     and_then (copy_dials gs (dialsN other)) (\<lambda>ds.
       ComputeCurrentValueN gs \<lparr>baseN = baseN other, dialsN = ds, current_valueN = None\<rparr>)"

definition CurrentN :: "('i, 'a) iteratorN \<Rightarrow> ('a list \<times> ('i, 'a) iteratorN) outcome" where
  "CurrentN it = (case current_valueN it of None \<Rightarrow> Inl Undefined | Some v \<Rightarrow> Inr (v, it))"

fun same_dials :: "('i, 'a) generator list \<Rightarrow> 'i dial list \<Rightarrow> 'i dial list \<Rightarrow> bool outcome" where
  "same_dials (g # gs) (d # ds) (d' # ds') =
     and_then (iterator_eq g False (dial_current d) (dial_current d')) (\<lambda>e. if e then same_dials gs ds ds' else Inr False)"
| "same_dials gs ds ds' = Inr True"

definition EqualsN :: "('i, 'a) generator list \<Rightarrow> ('i, 'a) iteratorN \<Rightarrow> ('i, 'a) iteratorN \<Rightarrow> bool outcome" where
  "EqualsN gs it other =
     (if baseN it \<noteq> baseN other then Inl AssertFailed
      else and_then (AtEndN gs (dialsN it)) (\<lambda>a.
           and_then (if a then AtEndN gs (dialsN other) else Inr False) (\<lambda>both.
             if both then Inr True else same_dials gs (dialsN it) (dialsN other))))"

fun all_begin :: "('i, 'a) generator list \<Rightarrow> 'i list outcome" where
  "all_begin [] = Inr []"
| "all_begin (g # gs) = and_then (generator_begin g) (\<lambda>c. and_then (all_begin gs) (\<lambda>cs. Inr (c # cs)))"

fun all_end :: "('i, 'a) generator list \<Rightarrow> 'i list outcome" where
  "all_end [] = Inr []"
| "all_end (g # gs) = and_then (generator_end g) (\<lambda>c. and_then (all_end gs) (\<lambda>cs. Inr (c # cs)))"

definition CombineN :: "nat \<Rightarrow> ('i, 'a) generator list \<Rightarrow> (('i, 'a) iteratorN, 'a list) generator" where
  "CombineN this gs =
     \<lparr>Begin = and_then (all_begin gs) (iteratorN_new gs this),
      End = and_then (all_end gs) (iteratorN_new gs this),
      Advance = AdvanceN gs,
      Clone = CloneN gs,
      Current = CurrentN,
      Equals = EqualsN gs\<rparr>"

subsection \<open>Positions\<close>

text \<open>The mixed-radix value of the positions, the first component most significant.\<close>

fun radix :: "nat list \<Rightarrow> nat list \<Rightarrow> nat" where
  "radix (l # ls) (p # ps) = p * prod_list ls + radix ls ps"
| "radix ls ps = 0"

lemma radix_less: "list_all2 (<) ps ls \<Longrightarrow> radix ls ps < prod_list ls"
proof (induction ps ls rule: list_all2_induct)
  case (Cons p ps l ls)
  then have "p * prod_list ls + radix ls ps < Suc p * prod_list ls" by simp
  also have "\<dots> \<le> l * prod_list ls" using Cons.hyps(1) by (intro mult_right_mono) simp_all
  finally show ?case by simp
qed simp

lemma radix_inj:
  "list_all2 (<) ps ls \<Longrightarrow> list_all2 (<) qs ls \<Longrightarrow> radix ls ps = radix ls qs \<longleftrightarrow> ps = qs"
proof (induction ps ls arbitrary: qs rule: list_all2_induct)
  case Nil
  then show ?case by simp
next
  case (Cons p ps l ls)
  then obtain q qs' where q: "qs = q # qs'" "list_all2 (<) qs' ls" by (auto simp: list_all2_Cons2)
  note lt = radix_less [OF Cons.hyps(2)] radix_less [OF q(2)]
  have "p = q \<and> radix ls ps = radix ls qs'" if "p * prod_list ls + radix ls ps = q * prod_list ls + radix ls qs'"
  proof -
    have "(p * prod_list ls + radix ls ps) div prod_list ls = p" "(q * prod_list ls + radix ls qs') div prod_list ls = q"
      using lt by simp_all
    with that show ?thesis by simp
  qed
  with Cons.IH [OF q(2)] q(1) show ?case by auto
qed

fun advance_pos :: "nat list \<Rightarrow> nat list \<Rightarrow> nat list" where
  "advance_pos (l1 # l2 # ls) (p1 # ps) =
     (case advance_pos (l2 # ls) ps of
        [] \<Rightarrow> [p1]
      | q2 # qs \<Rightarrow> if q2 = l2 then Suc p1 # 0 # qs else p1 # q2 # qs)"
| "advance_pos [l] [p] = [Suc p]"
| "advance_pos ls ps = ps"

lemma advance_pos_radix:
  assumes "list_all2 (<) ps ls" "ls \<noteq> []"
  shows "\<exists>q qs. advance_pos ls ps = q # qs \<and> q \<le> hd ls \<and> list_all2 (<) qs (tl ls) \<and> radix ls (q # qs) = Suc (radix ls ps)"
  using assms
proof (induction ps ls rule: list_all2_induct)
  case (Cons p1 ps l1 ls)
  show ?case
  proof (cases ls)
    case Nil
    with Cons show ?thesis by simp
  next
    case (Cons l2 ls')
    note ls = this
    with Cons.IH obtain q2 qs where q: "advance_pos ls ps = q2 # qs" "q2 \<le> l2" "list_all2 (<) qs ls'"
      "radix ls (q2 # qs) = Suc (radix ls ps)" by auto
    have lt: "radix ls ps < prod_list ls" by (rule radix_less [OF Cons.hyps(2)])
    have l2: "0 < l2" using Cons.hyps(2) ls by (auto simp: list_all2_Cons2)
    show ?thesis
    proof (cases "q2 = l2")
      case True
      then have "radix ls' qs = 0" using q(4) lt ls by simp
      moreover from this have "Suc (radix ls ps) = l2 * prod_list ls'" using q(4) True ls by simp
      ultimately show ?thesis using q True ls l2 Cons.hyps(1) by simp
    next
      case False
      with q ls Cons.hyps(1) show ?thesis by simp
    qed
  qed
qed simp

text \<open>The place of a list of positions in the enumeration: at the end as soon as one component is.\<close>

definition place :: "nat list \<Rightarrow> nat list \<Rightarrow> nat" where
  "place ls ps = (if list_all2 (<) ps ls then radix ls ps else prod_list ls)"

lemma place_less: "place ls ps < prod_list ls \<longleftrightarrow> list_all2 (<) ps ls"
  by (simp add: place_def radix_less)

lemma place_bound: "place ls ps \<le> prod_list ls"
  by (simp add: place_def radix_less less_imp_le)

lemma place_eq:
  "place ls ps = place ls qs \<longleftrightarrow> (list_all2 (<) ps ls \<or> list_all2 (<) qs ls \<longrightarrow> ps = qs)"
  using radix_inj [of ps ls qs] radix_less [of ps ls] radix_less [of qs ls] by (auto simp: place_def)

lemma place_begin: "place ls (map (\<lambda>_. 0) ls) = 0"
proof -
  have "radix ls (map (\<lambda>_. 0) ls) = 0" by (induction ls) simp_all
  moreover have "list_all2 (<) (map (\<lambda>_. 0) ls) ls \<or> 0 \<in> set ls" by (induction ls) auto
  ultimately show ?thesis by (auto simp: place_def prod_list_zero_iff)
qed

lemma place_end: "ls \<noteq> [] \<Longrightarrow> place ls ls = prod_list ls"
  by (cases ls) (simp_all add: place_def)

lemma place_advance:
  assumes "list_all2 (<) ps ls" "ls \<noteq> []"
  shows "place ls (advance_pos ls ps) = Suc (place ls ps)"
proof -
  obtain q qs where q: "advance_pos ls ps = q # qs" "q \<le> hd ls" "list_all2 (<) qs (tl ls)"
    "radix ls (q # qs) = Suc (radix ls ps)" using advance_pos_radix [OF assms] by blast
  obtain l ls' where ls: "ls = l # ls'" using assms(2) by (cases ls) auto
  show ?thesis
  proof (cases "q = l")
    case True
    then have "Suc (radix ls ps) \<ge> prod_list ls" using q(4) ls by simp
    then have "Suc (radix ls ps) = prod_list ls" using radix_less [OF assms(1)] by simp
    then show ?thesis using True q(1) ls assms(1) by (simp add: place_def)
  next
    case False
    then show ?thesis using q ls assms(1) by (simp add: place_def)
  qed
qed


lemma concat_nth:
  assumes "\<forall>ys \<in> set yss. length ys = m" "i < length yss" "j < m"
  shows "concat yss ! (i * m + j) = yss ! i ! j"
  using assms
proof (induction yss arbitrary: i)
  case (Cons ys yss)
  show ?case
  proof (cases i)
    case 0
    with Cons.prems show ?thesis by (simp add: nth_append)
  next
    case (Suc i')
    with Cons show ?thesis by (simp add: nth_append add.assoc)
  qed
qed simp

lemma length_product_lists: "length (product_lists xss) = prod_list (map length xss)"
  by (induction xss) (simp_all add: length_concat comp_def sum_list_triv)

lemma product_lists_radix:
  "list_all2 (<) ps (map length xss) \<Longrightarrow> product_lists xss ! radix (map length xss) ps = map2 (!) xss ps"
proof (induction xss arbitrary: ps)
  case (Cons xs xss)
  then obtain p ps' where ps: "ps = p # ps'" "p < length xs" "list_all2 (<) ps' (map length xss)"
    by (auto simp: list_all2_Cons2)
  let ?m = "prod_list (map length xss)" and ?yss = "map (\<lambda>x. map (Cons x) (product_lists xss)) xs"
  have "radix (map length xss) ps' < ?m" by (rule radix_less [OF ps(3)])
  then have "concat ?yss ! (p * ?m + radix (map length xss) ps') = ?yss ! p ! radix (map length xss) ps'"
    using ps(2) by (intro concat_nth) (auto simp: length_product_lists)
  with ps Cons.IH [OF ps(3)] \<open>radix (map length xss) ps' < ?m\<close> show ?case by (simp add: length_product_lists)
qed simp

subsection \<open>The product of any number of generators keeps the contract\<close>

definition dial_at :: "('i \<Rightarrow> nat \<Rightarrow> bool) \<Rightarrow> nat \<Rightarrow> 'i dial \<Rightarrow> nat \<Rightarrow> bool" where
  "dial_at pos n d p \<longleftrightarrow> pos (dial_begin d) 0 \<and> pos (dial_end d) n \<and> pos (dial_current d) p \<and> p \<le> n"

text \<open>Generators with their contracts, dials at positions.\<close>

inductive dials_at ::
  "('i, 'a) generator list \<Rightarrow> 'a list list \<Rightarrow> ('i \<Rightarrow> nat \<Rightarrow> bool) list \<Rightarrow> 'i dial list \<Rightarrow> nat list \<Rightarrow> bool" where
  nil: "dials_at [] [] [] [] []"
| cons: "param_generator g pos xs \<Longrightarrow> dial_at pos (length xs) d p \<Longrightarrow> dials_at gs xss poss ds ps \<Longrightarrow>
    dials_at (g # gs) (xs # xss) (pos # poss) (d # ds) (p # ps)"

inductive_cases dials_at_ConsE: "dials_at (g # gs) xss poss ds ps"
inductive_cases dials_at_NilE: "dials_at [] xss poss ds ps"

abbreviation lens :: "'a list list \<Rightarrow> nat list" where
  "lens xss \<equiv> map length xss"

lemma AtEndN_at: "dials_at gs xss poss ds ps \<Longrightarrow> AtEndN gs ds = Inr (\<not> list_all2 (<) ps (lens xss))"
proof (induction rule: dials_at.induct)
  case (cons g pos xs d p gs xss poss ds ps)
  have "Equals g (dial_current d) (dial_end d) = Inr (p = length xs)" "p \<le> length xs"
    using param_generator.equals_at [OF cons.hyps(1)] cons.hyps(2) by (auto simp: dial_at_def)
  with cons.IH show ?case by (auto simp: iterator_eq_def)
qed simp

lemma deref_dials_at:
  "dials_at gs xss poss ds ps \<Longrightarrow> list_all2 (<) ps (lens xss) \<Longrightarrow>
   \<exists>ds'. deref_dials gs ds = Inr (map2 (!) xss ps, ds') \<and> dials_at gs xss poss ds' ps"
proof (induction rule: dials_at.induct)
  case (cons g pos xs d p gs xss poss ds ps)
  from cons obtain ds' where ds': "deref_dials gs ds = Inr (map2 (!) xss ps, ds')" "dials_at gs xss poss ds' ps" by auto
  obtain c where c: "Current g (dial_current d) = Inr (xs ! p, c)" "pos c p"
    using param_generator.current_at [OF cons.hyps(1)] cons.hyps(2) cons.prems by (auto simp: dial_at_def)
  have "dials_at (g # gs) (xs # xss) (pos # poss) (d\<lparr>dial_current := c\<rparr> # ds') (p # ps)"
    using cons.hyps(2) c ds'(2) by (intro dials_at.cons cons.hyps(1)) (simp_all add: dial_at_def)
  with ds'(1) c(1) show ?case by (simp add: iterator_deref_def)
qed (simp add: dials_at.nil)

lemma new_dials_at:
  assumes "dials_at gs xss poss ds ps"
  shows "\<exists>ds'. new_dials gs (map dial_current ds) = Inr ds' \<and> dials_at gs xss poss ds' ps"
  using assms
proof (induction rule: dials_at.induct)
  case (cons g pos xs d p gs xss poss ds ps)
  from cons.IH obtain ds' where ds': "new_dials gs (map dial_current ds) = Inr ds'" "dials_at gs xss poss ds' ps" by blast
  obtain b e c where c: "Begin g = Inr b" "pos b 0" "End g = Inr e" "pos e (length xs)" "Clone g (dial_current d) = Inr c" "pos c p"
    using param_generator.begin_at [OF cons.hyps(1)] param_generator.end_at [OF cons.hyps(1)]
      param_generator.clone_at [OF cons.hyps(1), of "dial_current d" p] cons.hyps(2) unfolding dial_at_def by blast
  have "dials_at (g # gs) (xs # xss) (pos # poss) (\<lparr>dial_begin = b, dial_end = e, dial_current = c\<rparr> # ds') (p # ps)"
    using cons.hyps(2) c ds'(2) by (intro dials_at.cons cons.hyps(1)) (simp_all add: dial_at_def)
  with ds'(1) c show ?case by (simp add: iterator_defs)
qed (simp add: dials_at.nil)

lemma copy_dials_at:
  assumes "dials_at gs xss poss ds ps"
  shows "\<exists>ds'. copy_dials gs ds = Inr ds' \<and> dials_at gs xss poss ds' ps"
  using assms
proof (induction rule: dials_at.induct)
  case (cons g pos xs d p gs xss poss ds ps)
  from cons.IH obtain ds' where ds': "copy_dials gs ds = Inr ds'" "dials_at gs xss poss ds' ps" by blast
  note clone = param_generator.clone_at [OF cons.hyps(1)]
  obtain b e c where c: "Clone g (dial_begin d) = Inr b" "pos b 0" "Clone g (dial_end d) = Inr e" "pos e (length xs)"
    "Clone g (dial_current d) = Inr c" "pos c p"
    using clone [of "dial_begin d" 0] clone [of "dial_end d" "length xs"] clone [of "dial_current d" p] cons.hyps(2)
    unfolding dial_at_def by blast
  have "dials_at (g # gs) (xs # xss) (pos # poss) (\<lparr>dial_begin = b, dial_end = e, dial_current = c\<rparr> # ds') (p # ps)"
    using cons.hyps(2) c ds'(2) by (intro dials_at.cons cons.hyps(1)) (simp_all add: dial_at_def)
  with ds'(1) c show ?case by (simp add: iterator_defs)
qed (simp add: dials_at.nil)

lemma same_dials_at:
  "dials_at gs xss poss ds ps \<Longrightarrow> dials_at gs xss poss ds' qs \<Longrightarrow> same_dials gs ds ds' = Inr (ps = qs)"
proof (induction arbitrary: ds' qs rule: dials_at.induct)
  case (cons g pos xs d p gs xss poss ds ps)
  from cons.prems obtain d' q ds'' qs' where
    d': "ds' = d' # ds''" "qs = q # qs'" "dial_at pos (length xs) d' q" "dials_at gs xss poss ds'' qs'"
    by (auto elim: dials_at_ConsE)
  have "Equals g (dial_current d) (dial_current d') = Inr (p = q)"
    using param_generator.equals_at [OF cons.hyps(1)] cons.hyps(2) d'(3) by (simp add: dial_at_def)
  with cons.IH [OF d'(4)] d'(1,2) show ?case by (simp add: iterator_eq_def)
qed (auto elim: dials_at_NilE)

lemma dial_advance:
  assumes "param_generator g pos xs" "dial_at pos (length xs) d p" "p < length xs"
  shows "\<exists>c. Advance g (dial_current d) = Inr c \<and> dial_at pos (length xs) (d\<lparr>dial_current := c\<rparr>) (Suc p)"
proof -
  obtain c where "Advance g (dial_current d) = Inr c" "pos c (Suc p)"
    using param_generator.advance_at [OF assms(1)] assms(2,3) unfolding dial_at_def by blast
  with assms(2,3) show ?thesis by (auto simp: dial_at_def)
qed

lemma dial_reset:
  assumes "param_generator g pos xs" "dial_at pos (length xs) d p"
  shows "\<exists>c. Clone g (dial_begin d) = Inr c \<and> dial_at pos (length xs) (d\<lparr>dial_current := c\<rparr>) 0"
proof -
  obtain c where "Clone g (dial_begin d) = Inr c" "pos c 0"
    using param_generator.clone_at [OF assms(1)] assms(2) unfolding dial_at_def by blast
  with assms(2) show ?thesis by (auto simp: dial_at_def)
qed

lemma advance_dials_at:
  "dials_at gs xss poss ds ps \<Longrightarrow> list_all2 (<) ps (lens xss) \<Longrightarrow> gs \<noteq> [] \<Longrightarrow>
   \<exists>ds'. advance_dials gs ds = Inr ds' \<and> dials_at gs xss poss ds' (advance_pos (lens xss) ps)"
proof (induction rule: dials_at.induct)
  case (cons g1 pos1 xs1 d1 p1 gs xss poss ds ps)
  then have p1: "p1 < length xs1" by simp
  obtain c1 where c1: "Advance g1 (dial_current d1) = Inr c1" "dial_at pos1 (length xs1) (d1\<lparr>dial_current := c1\<rparr>) (Suc p1)"
    using dial_advance [OF cons.hyps(1,2) p1] by blast
  show ?case
  proof (cases gs)
    case Nil
    then have e: "xss = []" "poss = []" "ds = []" "ps = []" using cons.hyps(3) by (auto elim: dials_at_NilE)
    have "dials_at [g1] [xs1] [pos1] [d1\<lparr>dial_current := c1\<rparr>] [Suc p1]"
      by (intro dials_at.cons dials_at.nil cons.hyps(1) c1(2))
    with Nil e c1(1) show ?thesis by (simp add: iterator_incr_def)
  next
    case (Cons g2 gs')
    from cons.IH cons.prems Cons obtain ds' where ds': "advance_dials gs ds = Inr ds'"
      "dials_at gs xss poss ds' (advance_pos (lens xss) ps)" by auto
    from ds'(2) [unfolded Cons] obtain xs2 xss' pos2 poss' d2 r q2 qs where
      x: "xss = xs2 # xss'" "poss = pos2 # poss'" "ds' = d2 # r" "advance_pos (lens xss) ps = q2 # qs"
      "param_generator g2 pos2 xs2" "dial_at pos2 (length xs2) d2 q2" "dials_at gs' xss' poss' r qs"
      by (auto elim: dials_at_ConsE)
    have eq: "Equals g2 (dial_current d2) (dial_end d2) = Inr (q2 = length xs2)"
      using param_generator.equals_at [OF x(5)] x(6) by (simp add: dial_at_def)
    show ?thesis
    proof (cases "q2 = length xs2")
      case False
      have "dials_at (g1 # gs) (xs1 # xss) (pos1 # poss) (d1 # ds') (p1 # q2 # qs)"
        using ds'(2) x(4) by (intro dials_at.cons cons.hyps(1,2)) simp
      with False eq ds'(1) x Cons show ?thesis by (simp add: iterator_eq_def)
    next
      case True
      obtain c2 where c2: "Clone g2 (dial_begin d2) = Inr c2" "dial_at pos2 (length xs2) (d2\<lparr>dial_current := c2\<rparr>) 0"
        using dial_reset [OF x(5,6)] by blast
      have "dials_at (g1 # gs) (xs1 # xss) (pos1 # poss) (d1\<lparr>dial_current := c1\<rparr> # d2\<lparr>dial_current := c2\<rparr> # r) (Suc p1 # 0 # qs)"
        unfolding Cons x(1,2) by (intro dials_at.cons cons.hyps(1) c1(2) x(5,7) c2(2))
      with True eq ds'(1) x Cons c1(1) c2(1) show ?thesis by (simp add: iterator_defs)
    qed
  qed
qed simp


inductive family :: "('i, 'a) generator list \<Rightarrow> ('i \<Rightarrow> nat \<Rightarrow> bool) list \<Rightarrow> 'a list list \<Rightarrow> bool" where
  family_nil: "family [] [] []"
| family_cons: "param_generator g pos xs \<Longrightarrow> family gs poss xss \<Longrightarrow> family (g # gs) (pos # poss) (xs # xss)"

lemma all_begin_at:
  "family gs poss xss \<Longrightarrow> \<exists>ds. all_begin gs = Inr (map dial_current ds) \<and> dials_at gs xss poss ds (map (\<lambda>_. 0) xss)"
proof (induction rule: family.induct)
  case (family_cons g pos xs gs poss xss)
  then obtain ds b e where d: "all_begin gs = Inr (map dial_current ds)" "dials_at gs xss poss ds (map (\<lambda>_. 0) xss)"
    "Begin g = Inr b" "pos b 0" "End g = Inr e" "pos e (length xs)"
    using param_generator.begin_at param_generator.end_at by metis
  then show ?case
    using family_cons.hyps(1)
    by (intro exI [of _ "\<lparr>dial_begin = b, dial_end = e, dial_current = b\<rparr> # ds"])
       (simp add: dials_at.cons dial_at_def generator_begin_def)
qed (simp add: dials_at.nil)

lemma all_end_at:
  "family gs poss xss \<Longrightarrow> \<exists>ds. all_end gs = Inr (map dial_current ds) \<and> dials_at gs xss poss ds (lens xss)"
proof (induction rule: family.induct)
  case (family_cons g pos xs gs poss xss)
  then obtain ds b e where d: "all_end gs = Inr (map dial_current ds)" "dials_at gs xss poss ds (lens xss)"
    "Begin g = Inr b" "pos b 0" "End g = Inr e" "pos e (length xs)"
    using param_generator.begin_at param_generator.end_at by metis
  then show ?case
    using family_cons.hyps(1)
    by (intro exI [of _ "\<lparr>dial_begin = b, dial_end = e, dial_current = e\<rparr> # ds"])
       (simp add: dials_at.cons dial_at_def generator_end_def)
qed (simp add: dials_at.nil)

definition odometerN ::
  "('i, 'a) generator list \<Rightarrow> ('i \<Rightarrow> nat \<Rightarrow> bool) list \<Rightarrow> 'a list list \<Rightarrow> nat \<Rightarrow> ('i, 'a) iteratorN \<Rightarrow> nat \<Rightarrow> bool" where
  "odometerN gs poss xss this it n \<longleftrightarrow>
     (\<exists>ps. baseN it = this \<and> dials_at gs xss poss (dialsN it) ps \<and> n = place (lens xss) ps
        \<and> (list_all2 (<) ps (lens xss) \<longrightarrow> current_valueN it = Some (map2 (!) xss ps)))"

lemma ComputeCurrentValueN_at:
  assumes "dials_at gs xss poss (dialsN it) ps" "baseN it = this"
  shows "\<exists>it'. ComputeCurrentValueN gs it = Inr it' \<and> odometerN gs poss xss this it' (place (lens xss) ps)"
proof (cases "list_all2 (<) ps (lens xss)")
  case False
  then show ?thesis using assms AtEndN_at [OF assms(1)] by (auto simp: ComputeCurrentValueN_def odometerN_def)
next
  case True
  from deref_dials_at [OF assms(1) True] obtain ds' where
    "deref_dials gs (dialsN it) = Inr (map2 (!) xss ps, ds')" "dials_at gs xss poss ds' ps" by blast
  then show ?thesis
    using True assms(2) AtEndN_at [OF assms(1)]
    by (auto simp: ComputeCurrentValueN_def odometerN_def intro!: exI [of _ ps])
qed

lemma iteratorN_new_at:
  assumes "dials_at gs xss poss ds ps"
  shows "\<exists>it. iteratorN_new gs this (map dial_current ds) = Inr it \<and> odometerN gs poss xss this it (place (lens xss) ps)"
proof -
  from new_dials_at [OF assms] obtain ds' where
    "new_dials gs (map dial_current ds) = Inr ds'" "dials_at gs xss poss ds' ps" by blast
  then show ?thesis
    using ComputeCurrentValueN_at [of gs xss poss "\<lparr>baseN = this, dialsN = ds', current_valueN = None\<rparr>" ps this]
    by (simp add: iteratorN_new_def)
qed

locale many_generators =
  fixes gs :: "('i, 'a) generator list" and poss xss and this :: nat
  assumes components: "family gs poss xss" and some_component: "gs \<noteq> []"
begin

lemma odometerN_less:
  assumes "odometerN gs poss xss this it n" "n < length (product_lists xss)"
  obtains ps where "baseN it = this" "dials_at gs xss poss (dialsN it) ps" "n = place (lens xss) ps"
    "list_all2 (<) ps (lens xss)" "current_valueN it = Some (map2 (!) xss ps)"
  using assms unfolding odometerN_def length_product_lists by (auto simp: place_less)

lemma AdvanceN_at:
  assumes "odometerN gs poss xss this it n" "n < length (product_lists xss)"
  shows "\<exists>it'. AdvanceN gs it = Inr it' \<and> odometerN gs poss xss this it' (Suc n)"
proof -
  obtain ps where ps: "baseN it = this" "dials_at gs xss poss (dialsN it) ps" "n = place (lens xss) ps"
    "list_all2 (<) ps (lens xss)" by (rule odometerN_less [OF assms])
  have ne: "lens xss \<noteq> []" using components some_component by (auto elim: family.cases)
  from advance_dials_at [OF ps(2,4) some_component] obtain ds' where
    d: "advance_dials gs (dialsN it) = Inr ds'" "dials_at gs xss poss ds' (advance_pos (lens xss) ps)" by blast
  show ?thesis
    using ComputeCurrentValueN_at [of gs xss poss "it\<lparr>dialsN := ds'\<rparr>" "advance_pos (lens xss) ps" this] d ps
      AtEndN_at [OF ps(2)] place_advance [OF ps(4) ne] by (simp add: AdvanceN_def)
qed

lemma CloneN_at:
  assumes "odometerN gs poss xss this it n"
  shows "\<exists>it'. CloneN gs it = Inr it' \<and> odometerN gs poss xss this it' n"
proof -
  from assms obtain ps where ps: "baseN it = this" "dials_at gs xss poss (dialsN it) ps" "n = place (lens xss) ps"
    unfolding odometerN_def by blast
  from copy_dials_at [OF ps(2)] obtain ds' where "copy_dials gs (dialsN it) = Inr ds'" "dials_at gs xss poss ds' ps" by blast
  then show ?thesis
    using ComputeCurrentValueN_at [of gs xss poss "\<lparr>baseN = baseN it, dialsN = ds', current_valueN = None\<rparr>" ps this] ps
    by (simp add: CloneN_def)
qed

lemma EqualsN_at:
  assumes "odometerN gs poss xss this it n" "odometerN gs poss xss this jt k"
  shows "EqualsN gs it jt = Inr (n = k)"
proof -
  from assms obtain ps qs where p: "baseN it = this" "dials_at gs xss poss (dialsN it) ps" "n = place (lens xss) ps"
    "baseN jt = this" "dials_at gs xss poss (dialsN jt) qs" "k = place (lens xss) qs"
    unfolding odometerN_def by blast
  show ?thesis
    using p AtEndN_at [OF p(2)] AtEndN_at [OF p(5)] same_dials_at [OF p(2,5)]
    by (auto simp: EqualsN_def place_eq)
qed

end

sublocale many_generators \<subseteq> combined: param_generator "CombineN this gs" "odometerN gs poss xss this" "product_lists xss"
proof
  let ?at = "odometerN gs poss xss this"
  have ne: "lens xss \<noteq> []" using components some_component by (auto elim: family.cases)
  from all_begin_at [OF components] obtain ds where
    "all_begin gs = Inr (map dial_current ds)" "dials_at gs xss poss ds (map (\<lambda>_. 0) xss)" by blast
  then show "\<exists>it. Begin (CombineN this gs) = Inr it \<and> ?at it 0"
    using iteratorN_new_at place_begin [of "lens xss"] by (fastforce simp: CombineN_def comp_def)
  from all_end_at [OF components] obtain ds' where
    "all_end gs = Inr (map dial_current ds')" "dials_at gs xss poss ds' (lens xss)" by blast
  then show "\<exists>it. End (CombineN this gs) = Inr it \<and> ?at it (length (product_lists xss))"
    using iteratorN_new_at place_end [OF ne] by (fastforce simp: CombineN_def length_product_lists)
  fix it n jt k assume at: "?at it n"
  show "\<exists>it'. Clone (CombineN this gs) it = Inr it' \<and> ?at it' n" using CloneN_at [OF at] by (simp add: CombineN_def)
  show "n \<le> length (product_lists xss)"
    using at by (auto simp: odometerN_def length_product_lists place_bound)
  show "Equals (CombineN this gs) it jt = Inr (n = k)" if "?at jt k" using EqualsN_at [OF at that] by (simp add: CombineN_def)
  assume n: "n < length (product_lists xss)"
  show "\<exists>it'. Advance (CombineN this gs) it = Inr it' \<and> ?at it' (Suc n)"
    using AdvanceN_at [OF at n] by (simp add: CombineN_def)
  show "\<exists>it'. Current (CombineN this gs) it = Inr (product_lists xss ! n, it') \<and> ?at it' n"
    by (rule odometerN_less [OF at n]) (use at in \<open>simp add: CombineN_def CurrentN_def place_def product_lists_radix\<close>)
qed


context many_generators
begin

lemma loop_over: "for_each_param (CombineN this gs) body st = Some (run_over body (product_lists xss) st)"
  by (rule combined.for_each_runs)

end

subsection \<open>The classes\<close>

definition Combine4 :: "nat \<Rightarrow> ('i, 'a) generator \<Rightarrow> ('i, 'a) generator \<Rightarrow> ('i, 'a) generator \<Rightarrow> ('i, 'a) generator \<Rightarrow>
  (('i, 'a) iteratorN, 'a list) generator" where
  "Combine4 this g1 g2 g3 g4 = CombineN this [g1, g2, g3, g4]"

definition Combine5 :: "nat \<Rightarrow> ('i, 'a) generator \<Rightarrow> ('i, 'a) generator \<Rightarrow> ('i, 'a) generator \<Rightarrow> ('i, 'a) generator \<Rightarrow>
  ('i, 'a) generator \<Rightarrow> (('i, 'a) iteratorN, 'a list) generator" where
  "Combine5 this g1 g2 g3 g4 g5 = CombineN this [g1, g2, g3, g4, g5]"

definition Combine6 :: "nat \<Rightarrow> ('i, 'a) generator \<Rightarrow> ('i, 'a) generator \<Rightarrow> ('i, 'a) generator \<Rightarrow> ('i, 'a) generator \<Rightarrow>
  ('i, 'a) generator \<Rightarrow> ('i, 'a) generator \<Rightarrow> (('i, 'a) iteratorN, 'a list) generator" where
  "Combine6 this g1 g2 g3 g4 g5 g6 = CombineN this [g1, g2, g3, g4, g5, g6]"

definition Combine7 :: "nat \<Rightarrow> ('i, 'a) generator \<Rightarrow> ('i, 'a) generator \<Rightarrow> ('i, 'a) generator \<Rightarrow> ('i, 'a) generator \<Rightarrow>
  ('i, 'a) generator \<Rightarrow> ('i, 'a) generator \<Rightarrow> ('i, 'a) generator \<Rightarrow> (('i, 'a) iteratorN, 'a list) generator" where
  "Combine7 this g1 g2 g3 g4 g5 g6 g7 = CombineN this [g1, g2, g3, g4, g5, g6, g7]"

definition Combine8 :: "nat \<Rightarrow> ('i, 'a) generator \<Rightarrow> ('i, 'a) generator \<Rightarrow> ('i, 'a) generator \<Rightarrow> ('i, 'a) generator \<Rightarrow>
  ('i, 'a) generator \<Rightarrow> ('i, 'a) generator \<Rightarrow> ('i, 'a) generator \<Rightarrow> ('i, 'a) generator \<Rightarrow>
  (('i, 'a) iteratorN, 'a list) generator" where
  "Combine8 this g1 g2 g3 g4 g5 g6 g7 g8 = CombineN this [g1, g2, g3, g4, g5, g6, g7, g8]"

definition Combine9 :: "nat \<Rightarrow> ('i, 'a) generator \<Rightarrow> ('i, 'a) generator \<Rightarrow> ('i, 'a) generator \<Rightarrow> ('i, 'a) generator \<Rightarrow>
  ('i, 'a) generator \<Rightarrow> ('i, 'a) generator \<Rightarrow> ('i, 'a) generator \<Rightarrow> ('i, 'a) generator \<Rightarrow> ('i, 'a) generator \<Rightarrow>
  (('i, 'a) iteratorN, 'a list) generator" where
  "Combine9 this g1 g2 g3 g4 g5 g6 g7 g8 g9 = CombineN this [g1, g2, g3, g4, g5, g6, g7, g8, g9]"

definition Combine10 :: "nat \<Rightarrow> ('i, 'a) generator \<Rightarrow> ('i, 'a) generator \<Rightarrow> ('i, 'a) generator \<Rightarrow> ('i, 'a) generator \<Rightarrow>
  ('i, 'a) generator \<Rightarrow> ('i, 'a) generator \<Rightarrow> ('i, 'a) generator \<Rightarrow> ('i, 'a) generator \<Rightarrow> ('i, 'a) generator \<Rightarrow>
  ('i, 'a) generator \<Rightarrow> (('i, 'a) iteratorN, 'a list) generator" where
  "Combine10 this g1 g2 g3 g4 g5 g6 g7 g8 g9 g10 = CombineN this [g1, g2, g3, g4, g5, g6, g7, g8, g9, g10]"

text \<open>
  What \<open>Combine\<close> returns: it keeps its arguments, which are converted to generators when it
  is itself converted.
\<close>

record 'g CartesianProductHolderN =
  holderN_gs :: "'g list"

definition holderN_generator :: "('g \<Rightarrow> ('i, 'a) generator) \<Rightarrow> nat \<Rightarrow> 'g CartesianProductHolderN \<Rightarrow>
  (('i, 'a) iteratorN, 'a list) generator" where
  "holderN_generator cast this holder = CombineN this (map cast (holderN_gs holder))"

definition combine_many :: "'g list \<Rightarrow> 'g CartesianProductHolderN" where
  "combine_many gs = \<lparr>holderN_gs = gs\<rparr>"

lemma holderN_loop:
  assumes "\<And>h. h \<in> set hs \<Longrightarrow> cast h = ValuesIn (addr h) (vals h)" "hs \<noteq> []"
  shows "for_each_param (holderN_generator cast this (combine_many hs)) body st
    = Some (run_over body (product_lists (map vals hs)) st)"
proof -
  have "family (map cast hs) (map (\<lambda>h. values_at (addr h) (vals h)) hs) (map vals hs)"
    using assms(1) by (induction hs) (auto intro!: family.intros simp: values_in.param_generator_axioms)
  then have "many_generators (map cast hs) (map (\<lambda>h. values_at (addr h) (vals h)) hs) (map vals hs)"
    using assms(2) by (simp add: many_generators_def)
  then show ?thesis by (simp add: holderN_generator_def combine_many_def many_generators.loop_over)
qed

lemma family_values:
  "length addrs = length xss \<Longrightarrow> family (map2 ValuesIn addrs xss) (map2 values_at addrs xss) xss"
proof (induction addrs xss rule: list_induct2)
  case (Cons a addrs xs xss)
  then show ?case by (simp add: family_cons values_in.param_generator_axioms)
qed (simp add: family_nil)

interpretation combine_values10: many_generators
  "[ValuesIn a1 x1, ValuesIn a2 x2, ValuesIn a3 x3, ValuesIn a4 x4, ValuesIn a5 x5,
    ValuesIn a6 x6, ValuesIn a7 x7, ValuesIn a8 x8, ValuesIn a9 x9, ValuesIn a10 x10]"
  "[values_at a1 x1, values_at a2 x2, values_at a3 x3, values_at a4 x4, values_at a5 x5,
    values_at a6 x6, values_at a7 x7, values_at a8 x8, values_at a9 x9, values_at a10 x10]"
  "[x1, x2, x3, x4, x5, x6, x7, x8, x9, x10]" d
  for a1 a2 a3 a4 a5 a6 a7 a8 a9 a10 x1 x2 x3 x4 x5 x6 x7 x8 x9 x10 d
  by (rule many_generators.intro) (intro family.intros values_in.param_generator_axioms, simp)

lemma Combine10_enumerates:
  "for_each_param (Combine10 d (ValuesIn a1 x1) (ValuesIn a2 x2) (ValuesIn a3 x3) (ValuesIn a4 x4) (ValuesIn a5 x5)
      (ValuesIn a6 x6) (ValuesIn a7 x7) (ValuesIn a8 x8) (ValuesIn a9 x9) (ValuesIn a10 x10)) body st
   = Some (run_over body (product_lists [x1, x2, x3, x4, x5, x6, x7, x8, x9, x10]) st)"
  unfolding Combine10_def by (rule combine_values10.loop_over)

text \<open>
  C34. \<open>testing::Combine\<close> of any number of \<open>ValuesIn\<close> generators, four to ten in the code:
  a loop over the product ends and runs its body on every tuple of the Cartesian product once, in
  lexicographic order with the last component fastest; when a component is empty it runs its
  body on nothing.
\<close>

theorem Combine_many_enumerates:
  assumes "length addrs = length xss" "xss \<noteq> []"
  shows "for_each_param (CombineN this (map2 ValuesIn addrs xss)) body st = Some (run_over body (product_lists xss) st)"
proof -
  have "map2 ValuesIn addrs xss \<noteq> []" using assms by (cases xss; cases addrs) simp_all
  then have "many_generators (map2 ValuesIn addrs xss) (map2 values_at addrs xss) xss"
    using family_values [OF assms(1)] by (simp add: many_generators_def)
  then show ?thesis by (rule many_generators.loop_over)
qed

theorem Combine_many_enumerates_witness:
  "for_each_param (Combine4 9 (ValuesIn 1 [1 :: int, 2]) (ValuesIn 2 [3]) (ValuesIn 3 [4, 5]) (ValuesIn 4 [6]))
     (\<lambda>x st. Inr (st @ [x])) []
   = Some (Inr [[1, 3, 4, 6], [1, 3, 5, 6], [2, 3, 4, 6], [2, 3, 5, 6]])"
  using Combine_many_enumerates [of "[1, 2, 3, 4]" "[[1 :: int, 2], [3], [4, 5], [6]]" 9 "\<lambda>x st. Inr (st @ [x])" "[]"]
  by (simp add: Combine4_def)

end
