(* ===== verification/Port_Threads.thy ===== *)
theory Port_Threads
  imports Param_Generators "HOL-Library.Multiset"
begin

text \<open>
  \<open>scoped_ptr\<close> and the mutex with its owner of \<open>GoogleTestFramework/.../internal/gtest-port.h\<close>,
  as the pthreads build has them. The calls of pthreads are modelled as POSIX documents them for a
  default mutex; they succeed, so \<open>GTEST_CHECK_POSIX_SUCCESS_\<close> does not fire.
\<close>

subsection \<open>\<open>scoped_ptr\<close>\<close>

text \<open>
  The pointer, and what has been deleted through it so far. A pointer is the number of the
  object; \<open>None\<close> is \<open>NULL\<close>, and deleting it does nothing.
\<close>

record scoped_ptr =
  sp_ptr :: "nat option"
  sp_deleted :: "nat list"

definition scoped_ptr_new :: "nat option \<Rightarrow> scoped_ptr" where
  "scoped_ptr_new p = \<lparr>sp_ptr = p, sp_deleted = []\<rparr>"

definition scoped_ptr_get :: "scoped_ptr \<Rightarrow> nat option" where
  "scoped_ptr_get s = sp_ptr s"

definition scoped_ptr_release :: "scoped_ptr \<Rightarrow> nat option \<times> scoped_ptr" where
  "scoped_ptr_release s = (let ptr = sp_ptr s in (ptr, s\<lparr>sp_ptr := None\<rparr>))"

definition scoped_ptr_reset :: "nat option \<Rightarrow> scoped_ptr \<Rightarrow> scoped_ptr" where
  "scoped_ptr_reset p s =
     (if p \<noteq> sp_ptr s
      then s\<lparr>sp_ptr := p, sp_deleted := sp_deleted s @ (case sp_ptr s of None \<Rightarrow> [] | Some x \<Rightarrow> [x])\<rparr>
      else s)"

definition scoped_ptr_destroy :: "scoped_ptr \<Rightarrow> scoped_ptr" where
  "scoped_ptr_destroy s = scoped_ptr_reset None s"

definition scoped_ptr_swap :: "scoped_ptr \<Rightarrow> scoped_ptr \<Rightarrow> scoped_ptr \<times> scoped_ptr" where
  "scoped_ptr_swap a b = (a\<lparr>sp_ptr := sp_ptr b\<rparr>, b\<lparr>sp_ptr := sp_ptr a\<rparr>)"

text \<open>The life of a \<open>scoped_ptr\<close>: what it is given and what it gives away.\<close>

datatype sp_op = Release | Reset "nat option"

definition opt_mset :: "nat option \<Rightarrow> nat multiset" where
  "opt_mset p = (case p of None \<Rightarrow> {#} | Some x \<Rightarrow> {#x#})"

fun sp_run :: "sp_op list \<Rightarrow> scoped_ptr \<Rightarrow> nat multiset \<times> scoped_ptr" where
  "sp_run [] s = ({#}, s)"
| "sp_run (Release # ops) s =
     (let (p, s') = scoped_ptr_release s; (out, s'') = sp_run ops s' in (opt_mset p + out, s''))"
| "sp_run (Reset p # ops) s = sp_run ops (scoped_ptr_reset p s)"

fun sp_given :: "sp_op list \<Rightarrow> nat multiset" where
  "sp_given [] = {#}"
| "sp_given (Release # ops) = sp_given ops"
| "sp_given (Reset p # ops) = opt_mset p + sp_given ops"

definition distinct_mset :: "nat multiset \<Rightarrow> bool" where
  "distinct_mset m \<longleftrightarrow> (\<forall>x. count m x \<le> 1)"

lemma distinct_mset_union: "distinct_mset (a + b) \<Longrightarrow> distinct_mset a \<and> distinct_mset b"
  unfolding distinct_mset_def by (metis add_leE count_union)

lemma scoped_ptr_reset_mset:
  assumes "distinct_mset (opt_mset (sp_ptr s) + opt_mset p)"
  shows "mset (sp_deleted (scoped_ptr_reset p s)) = mset (sp_deleted s) + opt_mset (sp_ptr s)"
    "sp_ptr (scoped_ptr_reset p s) = p"
proof -
  have "sp_ptr s = p \<Longrightarrow> sp_ptr s = None"
    using assms unfolding distinct_mset_def by (cases p) (auto simp: opt_mset_def dest: spec [of _ "the p"])
  then show "mset (sp_deleted (scoped_ptr_reset p s)) = mset (sp_deleted s) + opt_mset (sp_ptr s)"
    "sp_ptr (scoped_ptr_reset p s) = p"
    by (auto simp: scoped_ptr_reset_def opt_mset_def split: option.split)
qed

lemma sp_run_mset:
  assumes "distinct_mset (opt_mset (sp_ptr s) + sp_given ops)" "sp_run ops s = (out, s')"
  shows "mset (sp_deleted s') + opt_mset (sp_ptr s') + out = mset (sp_deleted s) + opt_mset (sp_ptr s) + sp_given ops"
  using assms
proof (induction ops arbitrary: s out s' rule: sp_given.induct)
  case (2 ops)
  obtain out' where r: "sp_run ops (s\<lparr>sp_ptr := None\<rparr>) = (out', s')" "out = opt_mset (sp_ptr s) + out'"
    using 2(3) by (auto simp: scoped_ptr_release_def Let_def split: prod.splits)
  have "distinct_mset (opt_mset None + sp_given ops)"
    using 2(2) distinct_mset_union [of "opt_mset (sp_ptr s)" "sp_given ops"] by (simp add: opt_mset_def)
  then show ?case using 2(1) [of "s\<lparr>sp_ptr := None\<rparr>" out' s'] r by (simp add: opt_mset_def ac_simps)
next
  case (3 p ops)
  have d: "distinct_mset (opt_mset (sp_ptr s) + opt_mset p)" "distinct_mset (opt_mset p + sp_given ops)"
    using 3(2) distinct_mset_union [of "opt_mset (sp_ptr s) + opt_mset p" "sp_given ops"]
      distinct_mset_union [of "opt_mset (sp_ptr s)" "opt_mset p + sp_given ops"] by (simp_all add: ac_simps)
  show ?case
    using 3(1) [of "scoped_ptr_reset p s" out s'] 3(3) d(2) scoped_ptr_reset_mset [OF d(1)] by (simp add: ac_simps)
qed simp

text \<open>
  A \<open>scoped_ptr\<close> neither leaks nor deletes twice: over its life, every object it is given
  is either released or deleted, once.
\<close>

theorem scoped_ptr_owns_once:
  assumes "distinct_mset (opt_mset p + sp_given ops)" "sp_run ops (scoped_ptr_new p) = (out, s)"
  shows "mset (sp_deleted (scoped_ptr_destroy s)) + out = opt_mset p + sp_given ops"
proof -
  have r: "mset (sp_deleted s) + opt_mset (sp_ptr s) + out = opt_mset p + sp_given ops"
    using sp_run_mset [of "scoped_ptr_new p" ops out s] assms by (simp add: scoped_ptr_new_def)
  have "mset (sp_deleted (scoped_ptr_destroy s)) = mset (sp_deleted s) + opt_mset (sp_ptr s)"
    by (auto simp: scoped_ptr_destroy_def scoped_ptr_reset_def opt_mset_def split: option.split)
  with r show ?thesis by simp
qed

subsection \<open>\<open>MutexBase\<close>\<close>

text \<open>
  \<open>mutex_of_base\<close> is the thread that holds the pthreads mutex. \<open>owner\<close> is not initialized
  and is written before \<open>has_owner\<close>. A default mutex waits when it is taken, also for the
  thread that has it (\<open>None\<close>).
\<close>

record MutexBase =
  mutex_of_base :: "nat option"
  has_owner :: bool
  owner :: nat

definition Mutex_new :: "nat \<Rightarrow> MutexBase" where
  "Mutex_new garbage = \<lparr>mutex_of_base = None, has_owner = False, owner = garbage\<rparr>"

definition pthread_mutex_lock :: "nat \<Rightarrow> MutexBase \<Rightarrow> MutexBase option" where
  "pthread_mutex_lock th m = (if mutex_of_base m = None then Some (m\<lparr>mutex_of_base := Some th\<rparr>) else None)"

definition Lock :: "nat \<Rightarrow> MutexBase \<Rightarrow> MutexBase option" where
  "Lock th m = map_option (\<lambda>m. m\<lparr>owner := th, has_owner := True\<rparr>) (pthread_mutex_lock th m)"

definition Unlock :: "MutexBase \<Rightarrow> MutexBase" where
  "Unlock m = m\<lparr>has_owner := False, mutex_of_base := None\<rparr>"

definition AssertHeld :: "nat \<Rightarrow> MutexBase \<Rightarrow> unit outcome" where
  "AssertHeld th m = (if has_owner m \<and> owner m = th then Inr () else Inl AssertFailed)"

text \<open>\<open>GTestMutexLock\<close> around a block: the mutex is held while the block runs and free afterwards.\<close>

definition GTestMutexLock :: "nat \<Rightarrow> (MutexBase \<Rightarrow> 'a \<times> MutexBase) \<Rightarrow> MutexBase \<Rightarrow> ('a \<times> MutexBase) option" where
  "GTestMutexLock th block m =
     (case Lock th m of
        None \<Rightarrow> None
      | Some m \<Rightarrow> (case block m of (x, m) \<Rightarrow> Some (x, Unlock m)))"

text \<open>
  The same operations statement by statement, for threads that run side by side: a thread is
  outside, at a place of \<open>Lock\<close>, inside, in \<open>Unlock\<close>, or in \<open>AssertHeld\<close> between its two
  reads. Calling \<open>Unlock\<close> outside is excluded by the comment of \<open>Unlock\<close>. The statements are
  atomic.
\<close>

datatype mutex_call = CallLock | CallUnlock | CallAssertHeld

datatype mutex_pc =
  Outside | LockTaken | OwnerSet | Inside | OwnerCleared
| HasOwnerRead bool bool
| Crashed

type_synonym mutex_state = "MutexBase \<times> (nat \<Rightarrow> mutex_pc)"

fun mutex_turn :: "nat \<Rightarrow> mutex_call \<Rightarrow> mutex_state \<Rightarrow> mutex_state option" where
  "mutex_turn th call (m, pcs) =
     (case pcs th of
        Outside \<Rightarrow>
          (case call of
             CallLock \<Rightarrow> map_option (\<lambda>m. (m, pcs(th := LockTaken))) (pthread_mutex_lock th m)
           | CallUnlock \<Rightarrow> None
           | CallAssertHeld \<Rightarrow> Some (m, pcs(th := HasOwnerRead False (has_owner m))))
      | LockTaken \<Rightarrow> Some (m\<lparr>owner := th\<rparr>, pcs(th := OwnerSet))
      | OwnerSet \<Rightarrow> Some (m\<lparr>has_owner := True\<rparr>, pcs(th := Inside))
      | Inside \<Rightarrow>
          (case call of
             CallLock \<Rightarrow> map_option (\<lambda>m. (m, pcs(th := LockTaken))) (pthread_mutex_lock th m)
           | CallUnlock \<Rightarrow> Some (m\<lparr>has_owner := False\<rparr>, pcs(th := OwnerCleared))
           | CallAssertHeld \<Rightarrow> Some (m, pcs(th := HasOwnerRead True (has_owner m))))
      | OwnerCleared \<Rightarrow> Some (m\<lparr>mutex_of_base := None\<rparr>, pcs(th := Outside))
      | HasOwnerRead inside h \<Rightarrow>
          Some (m, pcs(th := (if h \<and> owner m = th then (if inside then Inside else Outside) else Crashed)))
      | Crashed \<Rightarrow> None)"

inductive mutex_reach :: "mutex_state \<Rightarrow> bool" where
  mutex_init: "mutex_reach (Mutex_new garbage, \<lambda>_. Outside)"
| mutex_next: "mutex_reach s \<Longrightarrow> mutex_turn th call s = Some s' \<Longrightarrow> mutex_reach s'"

text \<open>A thread alone: the statements of an operation add up to it.\<close>

lemma Lock_by_statements:
  assumes "pcs th = Outside"
  shows "Option.bind (mutex_turn th CallLock (m, pcs)) (\<lambda>s. Option.bind (mutex_turn th call s) (mutex_turn th call'))
    = map_option (\<lambda>m. (m, pcs(th := Inside))) (Lock th m)"
  using assms by (simp add: Lock_def pthread_mutex_lock_def)

lemma Unlock_by_statements:
  assumes "pcs th = Inside"
  shows "Option.bind (mutex_turn th CallUnlock (m, pcs)) (mutex_turn th call) = Some (Unlock m, pcs(th := Outside))"
  using assms by (simp add: Unlock_def)

text \<open>What holds of the mutex at each place of a thread.\<close>

fun holding :: "mutex_pc \<Rightarrow> bool" where
  "holding LockTaken = True" | "holding OwnerSet = True" | "holding Inside = True" | "holding OwnerCleared = True"
| "holding (HasOwnerRead inside h) = inside" | "holding Outside = False" | "holding Crashed = False"

fun place_inv :: "nat \<Rightarrow> mutex_pc \<Rightarrow> MutexBase \<Rightarrow> bool" where
  "place_inv th LockTaken m = (\<not> has_owner m)"
| "place_inv th OwnerSet m = (\<not> has_owner m \<and> owner m = th)"
| "place_inv th Inside m = (has_owner m \<and> owner m = th)"
| "place_inv th OwnerCleared m = (\<not> has_owner m)"
| "place_inv th (HasOwnerRead True h) m = (h \<and> has_owner m \<and> owner m = th)"
| "place_inv th (HasOwnerRead False h) m = (h \<longrightarrow> owner m \<noteq> th)"
| "place_inv th Outside m = True"
| "place_inv th Crashed m = True"

definition mutex_inv :: "mutex_state \<Rightarrow> bool" where
  "mutex_inv s \<longleftrightarrow> (case s of (m, pcs) \<Rightarrow>
     (\<forall>th. (holding (pcs th) \<longrightarrow> mutex_of_base m = Some th) \<and> place_inv th (pcs th) m)
     \<and> (has_owner m \<longrightarrow> mutex_of_base m = Some (owner m))
     \<and> (\<forall>th. mutex_of_base m = Some th \<longrightarrow> holding (pcs th)))"

lemma mutex_inv_init: "mutex_inv (Mutex_new garbage, \<lambda>_. Outside)"
  by (simp add: mutex_inv_def Mutex_new_def)

lemma mutex_invD:
  assumes "mutex_inv (m, pcs)"
  shows "holding (pcs th) \<Longrightarrow> mutex_of_base m = Some th" "place_inv th (pcs th) m"
    "has_owner m \<Longrightarrow> mutex_of_base m = Some (owner m)" "mutex_of_base m = Some th \<Longrightarrow> holding (pcs th)"
  using assms unfolding mutex_inv_def prod.case by blast+

text \<open>A thread that is not inside is not touched by what happens to \<open>has_owner\<close>.\<close>

lemma place_inv_other:
  assumes "\<not> holding pc" "place_inv th pc m" "owner m' = owner m \<or> owner m' \<noteq> th"
  shows "place_inv th pc m'"
proof (cases pc)
  case (HasOwnerRead inside h)
  with assms show ?thesis by (cases inside) auto
qed (use assms in simp_all)

lemma mutex_inv_update:
  assumes inv: "mutex_inv (m, pcs)" and own: "owner m' = owner m \<or> owner m' = th"
    and th: "holding pc \<longrightarrow> mutex_of_base m' = Some th" "place_inv th pc m'"
    and free: "mutex_of_base m' = (if holding pc then Some th else if holding (pcs th) then None else mutex_of_base m)"
    and flag: "has_owner m' \<longrightarrow> mutex_of_base m' = Some (owner m')"
    and only: "m' = m \<or> (\<forall>u. u \<noteq> th \<longrightarrow> \<not> holding (pcs u))"
  shows "mutex_inv (m', pcs(th := pc))"
proof -
  have others: "(holding (pcs u) \<longrightarrow> mutex_of_base m' = Some u) \<and> place_inv u (pcs u) m'" if "u \<noteq> th" for u
  proof (cases "holding (pcs u)")
    case True
    with only that have "m' = m" by auto
    with True show ?thesis using mutex_invD(1,2) [OF inv, of u] by simp
  next
    case False
    with that own show ?thesis using place_inv_other [of "pcs u" u m m'] mutex_invD(2) [OF inv, of u] by auto
  qed
  have 1: "(holding ((pcs(th := pc)) u) \<longrightarrow> mutex_of_base m' = Some u) \<and> place_inv u ((pcs(th := pc)) u) m'" for u
    using others [of u] th by (cases "u = th") simp_all
  have 2: "mutex_of_base m' = Some u \<longrightarrow> holding ((pcs(th := pc)) u)" for u
    using free mutex_invD(4) [OF inv, of u] by (auto split: if_splits)
  show ?thesis unfolding mutex_inv_def prod.case using 1 2 flag by blast
qed

lemma mutex_turn_inv:
  assumes inv: "mutex_inv (m, pcs)" and turn: "mutex_turn th call (m, pcs) = Some s'"
  shows "mutex_inv s'"
proof -
  have t: "holding (pcs th) \<longrightarrow> mutex_of_base m = Some th" "place_inv th (pcs th) m"
    "has_owner m \<longrightarrow> mutex_of_base m = Some (owner m)" "mutex_of_base m = Some th \<longrightarrow> holding (pcs th)"
    using mutex_invD(1,2,4) [OF inv, of th] mutex_invD(3) [OF inv] by blast+
  have alone: "\<forall>u. u \<noteq> th \<longrightarrow> \<not> holding (pcs u)" if "holding (pcs th) \<or> mutex_of_base m = None"
    using that mutex_invD(1) [OF inv] by (metis option.distinct(1) option.inject)
  show ?thesis
  proof (cases "pcs th")
    case Outside
    with t turn alone show ?thesis
      by (cases call) (auto simp: pthread_mutex_lock_def split: if_splits intro!: mutex_inv_update [OF inv])
  next
    case (HasOwnerRead inside h)
    with t turn alone show ?thesis
      by (cases inside) (auto intro!: mutex_inv_update [OF inv])
  next
    case Inside
    with t turn alone show ?thesis
      by (cases call) (auto simp: pthread_mutex_lock_def intro!: mutex_inv_update [OF inv])
  qed (use t turn alone in \<open>auto intro!: mutex_inv_update [OF inv]\<close>)
qed

lemma mutex_reach_inv: "mutex_reach s \<Longrightarrow> mutex_inv s"
  by (induction rule: mutex_reach.induct) (auto simp: mutex_inv_init intro: mutex_turn_inv)


text \<open>Thread 1 has the mutex and asserts it; thread 2 has read \<open>has_owner\<close> and is about to read \<open>owner\<close>.\<close>

definition demo_mutex :: mutex_state where
  "demo_mutex = (\<lparr>mutex_of_base = Some 1, has_owner = True, owner = 1\<rparr>,
     (\<lambda>_. Outside)(1 := HasOwnerRead True True, 2 := HasOwnerRead False True))"

lemma demo_mutex_reach: "mutex_reach demo_mutex"
proof -
  have 1: "mutex_reach (Mutex_new 0, \<lambda>_. Outside)" by (rule mutex_init)
  have 2: "mutex_reach (\<lparr>mutex_of_base = Some 1, has_owner = False, owner = 0\<rparr>, (\<lambda>_. Outside)(1 := LockTaken))"
    by (rule mutex_next [OF 1, of 1 CallLock]) (simp add: Mutex_new_def pthread_mutex_lock_def)
  have 3: "mutex_reach (\<lparr>mutex_of_base = Some 1, has_owner = False, owner = 1\<rparr>, (\<lambda>_. Outside)(1 := OwnerSet))"
    by (rule mutex_next [OF 2, of 1 CallLock]) simp
  have 4: "mutex_reach (\<lparr>mutex_of_base = Some 1, has_owner = True, owner = 1\<rparr>, (\<lambda>_. Outside)(1 := Inside))"
    by (rule mutex_next [OF 3, of 1 CallLock]) simp
  have 5: "mutex_reach (\<lparr>mutex_of_base = Some 1, has_owner = True, owner = 1\<rparr>, (\<lambda>_. Outside)(1 := HasOwnerRead True True))"
    by (rule mutex_next [OF 4, of 1 CallAssertHeld]) simp
  show ?thesis unfolding demo_mutex_def by (rule mutex_next [OF 5, of 2 CallAssertHeld]) simp
qed


end
