(* ===== verification/Port_Storage.thy ===== *)
theory Port_Storage
  imports Param_Generators
begin

text \<open>
  \<open>ThreadLocal\<close>, \<open>Notification\<close> and \<open>ThreadWithParam\<close> of
  \<open>GoogleTestFramework/.../internal/gtest-port.h\<close>, as the pthreads build has them. The value
  of a key is per thread; it starts as \<open>NULL\<close> (\<open>None\<close>), and when a thread ends with a
  value that is not \<open>NULL\<close> pthreads sets it to \<open>NULL\<close> and passes it to the key's function.
\<close>

subsection \<open>\<open>ThreadLocal\<close>\<close>

text \<open>
  \<open>tl_specific\<close> is the value of the key by thread, the address of a \<open>ValueHolder\<close>;
  \<open>tl_holders\<close> are the holders that exist. \<open>tl_default\<close> is what the factory puts into a
  new holder: \<open>T()\<close> or the value given to the constructor.
\<close>

record 'v ThreadLocal =
  tl_specific :: "nat \<rightharpoonup> nat"
  tl_holders :: "nat \<rightharpoonup> 'v"
  tl_next :: nat
  tl_default :: 'v

definition ThreadLocal_new :: "'v \<Rightarrow> 'v ThreadLocal" where
  "ThreadLocal_new v = \<lparr>tl_specific = Map.empty, tl_holders = Map.empty, tl_next = 0, tl_default = v\<rparr>"

definition DeleteThreadLocalValue :: "nat option \<Rightarrow> 'v ThreadLocal \<Rightarrow> 'v ThreadLocal" where
  "DeleteThreadLocalValue value_holder lv =
     (case value_holder of None \<Rightarrow> lv | Some a \<Rightarrow> lv\<lparr>tl_holders := (tl_holders lv)(a := None)\<rparr>)"

definition MakeNewHolder :: "'v ThreadLocal \<Rightarrow> nat \<times> 'v ThreadLocal" where
  "MakeNewHolder lv =
     (tl_next lv, lv\<lparr>tl_holders := (tl_holders lv)(tl_next lv \<mapsto> tl_default lv), tl_next := Suc (tl_next lv)\<rparr>)"

definition GetOrCreateValue :: "nat \<Rightarrow> 'v ThreadLocal \<Rightarrow> nat \<times> 'v ThreadLocal" where
  "GetOrCreateValue th lv =
     (case tl_specific lv th of
        Some holder \<Rightarrow> (holder, lv)
      | None \<Rightarrow>
          (case MakeNewHolder lv of
             (new_holder, lv) \<Rightarrow> (new_holder, lv\<lparr>tl_specific := (tl_specific lv)(th \<mapsto> new_holder)\<rparr>)))"

definition tl_get :: "nat \<Rightarrow> 'v ThreadLocal \<Rightarrow> ('v \<times> 'v ThreadLocal) outcome" where
  "tl_get th lv =
     (case GetOrCreateValue th lv of
        (a, lv) \<Rightarrow> (case tl_holders lv a of None \<Rightarrow> Inl Undefined | Some v \<Rightarrow> Inr (v, lv)))"

definition tl_set :: "nat \<Rightarrow> 'v \<Rightarrow> 'v ThreadLocal \<Rightarrow> 'v ThreadLocal outcome" where
  "tl_set th v lv =
     (case GetOrCreateValue th lv of
        (a, lv) \<Rightarrow>
          (case tl_holders lv a of
             None \<Rightarrow> Inl Undefined
           | Some _ \<Rightarrow> Inr (lv\<lparr>tl_holders := (tl_holders lv)(a \<mapsto> v)\<rparr>)))"

text \<open>The end of a thread, and the destruction of the variable by a thread.\<close>

definition thread_exit :: "nat \<Rightarrow> 'v ThreadLocal \<Rightarrow> 'v ThreadLocal" where
  "thread_exit th lv =
     DeleteThreadLocalValue (tl_specific lv th) (lv\<lparr>tl_specific := (tl_specific lv)(th := None)\<rparr>)"

definition ThreadLocal_destroy :: "nat \<Rightarrow> 'v ThreadLocal \<Rightarrow> 'v ThreadLocal" where
  "ThreadLocal_destroy th lv =
     (DeleteThreadLocalValue (tl_specific lv th) lv)\<lparr>tl_specific := Map.empty\<rparr>"

text \<open>What threads do with the variable, and the specification: a value per thread.\<close>

datatype 'v tl_op = TL_get nat | TL_set nat 'v | TL_exit nat

fun tl_run :: "'v tl_op list \<Rightarrow> 'v ThreadLocal \<Rightarrow> ('v list \<times> 'v ThreadLocal) outcome" where
  "tl_run [] lv = Inr ([], lv)"
| "tl_run (TL_get th # ops) lv =
     and_then (tl_get th lv) (\<lambda>(v, lv). and_then (tl_run ops lv) (\<lambda>(vs, lv). Inr (v # vs, lv)))"
| "tl_run (TL_set th v # ops) lv = and_then (tl_set th v lv) (tl_run ops)"
| "tl_run (TL_exit th # ops) lv = tl_run ops (thread_exit th lv)"

fun tl_spec :: "'v \<Rightarrow> 'v tl_op list \<Rightarrow> (nat \<Rightarrow> 'v) \<Rightarrow> 'v list" where
  "tl_spec d [] f = []"
| "tl_spec d (TL_get th # ops) f = f th # tl_spec d ops f"
| "tl_spec d (TL_set th v # ops) f = tl_spec d ops (f(th := v))"
| "tl_spec d (TL_exit th # ops) f = tl_spec d ops (f(th := d))"

definition tl_view :: "'v ThreadLocal \<Rightarrow> nat \<Rightarrow> 'v" where
  "tl_view lv th = (case tl_specific lv th of None \<Rightarrow> tl_default lv | Some a \<Rightarrow> the (tl_holders lv a))"

text \<open>The holders are the threads' own, one each.\<close>

definition tl_inv :: "'v ThreadLocal \<Rightarrow> bool" where
  "tl_inv lv \<longleftrightarrow> dom (tl_holders lv) = ran (tl_specific lv) \<and> inj_on (tl_specific lv) (dom (tl_specific lv))
     \<and> (\<forall>a \<in> dom (tl_holders lv). a < tl_next lv)"

lemma tl_inv_new: "tl_inv (ThreadLocal_new d)"
  by (simp add: tl_inv_def ThreadLocal_new_def)

lemma ran_delete:
  assumes "inj_on f (dom f)" "f x = Some a"
  shows "ran (f(x := None)) = ran f - {a}"
proof -
  have only: "y = x" if "f y = Some a" for y
    by (rule inj_onD [OF assms(1)]) (use that assms(2) in auto)
  have "b \<in> ran (f(x := None)) \<longleftrightarrow> b \<in> ran f - {a}" for b
  proof
    assume "b \<in> ran (f(x := None))"
    then obtain y where "y \<noteq> x" "f y = Some b" by (auto simp: ran_def split: if_splits)
    with only [of y] show "b \<in> ran f - {a}" by (auto intro: ranI)
  next
    assume "b \<in> ran f - {a}"
    then obtain y where "f y = Some b" "b \<noteq> a" by (auto simp: ran_def)
    with assms(2) have "(f(x := None)) y = Some b" by auto
    then show "b \<in> ran (f(x := None))" by (rule ranI)
  qed
  then show ?thesis by blast
qed

lemma inj_on_insert_new:
  assumes "inj_on f (dom f)" "a \<notin> ran f"
  shows "inj_on (f(x \<mapsto> a)) (dom (f(x \<mapsto> a)))"
proof (rule inj_onI)
  fix y z assume yz: "y \<in> dom (f(x \<mapsto> a))" "z \<in> dom (f(x \<mapsto> a))" "(f(x \<mapsto> a)) y = (f(x \<mapsto> a)) z"
  have "f w \<noteq> Some a" for w using assms(2) by (auto simp: ran_def)
  then show "y = z" using yz inj_onD [OF assms(1), of y z] by (auto split: if_splits)
qed

lemma inj_on_delete: "inj_on f (dom f) \<Longrightarrow> inj_on (f(x := None)) (dom (f(x := None)))"
  by (auto simp: inj_on_def)

lemma GetOrCreateValue_ok:
  assumes "tl_inv lv" "GetOrCreateValue th lv = (a, lv')"
  shows "tl_inv lv'" "tl_specific lv' th = Some a" "tl_holders lv' a = Some (tl_view lv th)"
    "tl_view lv' = tl_view lv" "tl_default lv' = tl_default lv"
proof -
  have cases: "(tl_specific lv th = Some a \<and> lv' = lv) \<or> (tl_specific lv th = None \<and> a = tl_next lv
     \<and> lv' = lv\<lparr>tl_holders := (tl_holders lv)(a \<mapsto> tl_default lv), tl_next := Suc a,
                tl_specific := (tl_specific lv)(th \<mapsto> a)\<rparr>)"
    using assms(2) by (auto simp: GetOrCreateValue_def MakeNewHolder_def split: option.splits)
  have range: "\<And>x b. tl_specific lv x = Some b \<Longrightarrow> tl_holders lv b \<noteq> None \<and> b < tl_next lv"
    using assms(1) by (auto simp: tl_inv_def ran_def)
  have new: "tl_inv lv'" if "tl_specific lv th = None" "a = tl_next lv"
    "lv' = lv\<lparr>tl_holders := (tl_holders lv)(a \<mapsto> tl_default lv), tl_next := Suc a, tl_specific := (tl_specific lv)(th \<mapsto> a)\<rparr>"
  proof -
    have a: "a \<notin> ran (tl_specific lv)" using that(2) range by (auto simp: ran_def)
    then have "inj_on (tl_specific lv') (dom (tl_specific lv'))"
      using assms(1) inj_on_insert_new [of "tl_specific lv" a th] that(3) by (simp add: tl_inv_def)
    moreover have "dom (tl_holders lv') = ran (tl_specific lv')"
      using assms(1) that(1,3) by (simp add: tl_inv_def)
    moreover have "\<forall>b \<in> dom (tl_holders lv'). b < tl_next lv'"
      using assms(1) that(2,3) by (auto simp: tl_inv_def less_Suc_eq)
    ultimately show ?thesis by (simp add: tl_inv_def)
  qed
  from cases new assms(1) show "tl_inv lv'" by blast
  from cases show "tl_specific lv' th = Some a" "tl_default lv' = tl_default lv" by auto
  from cases range show "tl_holders lv' a = Some (tl_view lv th)" by (auto simp: tl_view_def)
  from cases range show "tl_view lv' = tl_view lv" by (fastforce simp: tl_view_def fun_eq_iff split: option.split)
qed

lemma tl_get_ok:
  assumes "tl_inv lv"
  obtains lv' where "tl_get th lv = Inr (tl_view lv th, lv')" "tl_inv lv'" "tl_view lv' = tl_view lv"
    "tl_default lv' = tl_default lv"
proof (cases "GetOrCreateValue th lv")
  case (Pair a lv')
  from that [of lv'] GetOrCreateValue_ok [OF assms Pair] show ?thesis by (simp add: tl_get_def Pair)
qed

lemma tl_set_ok:
  assumes "tl_inv lv"
  obtains lv' where "tl_set th v lv = Inr lv'" "tl_inv lv'" "tl_view lv' = (tl_view lv)(th := v)"
    "tl_default lv' = tl_default lv"
proof (cases "GetOrCreateValue th lv")
  case (Pair a lv1)
  note ok = GetOrCreateValue_ok [OF assms Pair]
  define lv' where "lv' = lv1\<lparr>tl_holders := (tl_holders lv1)(a \<mapsto> v)\<rparr>"
  have "tl_set th v lv = Inr lv'" by (simp add: tl_set_def Pair ok(3) lv'_def)
  moreover have "tl_inv lv'" using ok(1,3) by (auto simp: tl_inv_def lv'_def)
  moreover have "tl_view lv' = (tl_view lv)(th := v)"
  proof
    fix u
    have inj: "inj_on (tl_specific lv1) (dom (tl_specific lv1))" using ok(1) by (simp add: tl_inv_def)
    have "u = th" if "tl_specific lv1 u = Some a"
      by (rule inj_onD [OF inj]) (use that ok(2) in auto)
    then have "u \<noteq> th \<Longrightarrow> tl_view lv' u = tl_view lv1 u"
      by (auto simp: tl_view_def lv'_def split: option.split)
    moreover have "tl_view lv' th = v" using ok(2) by (simp add: tl_view_def lv'_def)
    ultimately show "tl_view lv' u = ((tl_view lv)(th := v)) u" by (simp add: ok(4))
  qed
  moreover have "tl_default lv' = tl_default lv" by (simp add: lv'_def ok(5))
  ultimately show ?thesis by (rule that)
qed

lemma thread_exit_ok:
  assumes "tl_inv lv"
  shows "tl_inv (thread_exit th lv)" "tl_view (thread_exit th lv) = (tl_view lv)(th := tl_default lv)"
    "tl_default (thread_exit th lv) = tl_default lv"
proof (atomize (full), cases "tl_specific lv th")
  case None
  then show "tl_inv (thread_exit th lv) \<and> tl_view (thread_exit th lv) = (tl_view lv)(th := tl_default lv)
    \<and> tl_default (thread_exit th lv) = tl_default lv"
    using assms by (auto simp: thread_exit_def DeleteThreadLocalValue_def tl_inv_def tl_view_def fun_upd_idem)
next
  case (Some a)
  have inj: "inj_on (tl_specific lv) (dom (tl_specific lv))" using assms by (simp add: tl_inv_def)
  have "tl_inv (thread_exit th lv)"
    using assms ran_delete [OF inj Some] inj_on_delete [OF inj, of th] Some
    by (auto simp: thread_exit_def DeleteThreadLocalValue_def tl_inv_def)
  moreover have "tl_view (thread_exit th lv) u = ((tl_view lv)(th := tl_default lv)) u" for u
    using inj_onD [OF inj, of u th] Some
    by (cases "u = th") (auto simp: thread_exit_def DeleteThreadLocalValue_def tl_view_def split: option.split)
  ultimately show "tl_inv (thread_exit th lv) \<and> tl_view (thread_exit th lv) = (tl_view lv)(th := tl_default lv)
    \<and> tl_default (thread_exit th lv) = tl_default lv"
    by (auto simp: thread_exit_def DeleteThreadLocalValue_def Some)
qed

lemma tl_run_refines:
  "tl_inv lv \<Longrightarrow> \<exists>lv'. tl_run ops lv = Inr (tl_spec (tl_default lv) ops (tl_view lv), lv') \<and> tl_inv lv'"
proof (induction ops arbitrary: lv)
  case (Cons x ops)
  show ?case
  proof (cases x)
    case (TL_get th)
    from tl_get_ok [OF Cons.prems, of th] obtain lv1 where
      "tl_get th lv = Inr (tl_view lv th, lv1)" "tl_inv lv1" "tl_view lv1 = tl_view lv" "tl_default lv1 = tl_default lv"
      by blast
    with Cons.IH [of lv1] show ?thesis by (auto simp: TL_get)
  next
    case (TL_set th v)
    from tl_set_ok [OF Cons.prems, of th v] obtain lv1 where
      "tl_set th v lv = Inr lv1" "tl_inv lv1" "tl_view lv1 = (tl_view lv)(th := v)" "tl_default lv1 = tl_default lv"
      by blast
    with Cons.IH [of lv1] show ?thesis by (auto simp: TL_set fun_upd_def)
  next
    case (TL_exit th)
    with Cons.IH [of "thread_exit th lv"] thread_exit_ok [OF Cons.prems, of th] show ?thesis by (simp add: fun_upd_def)
  qed
qed simp

text \<open>
  \<open>ThreadLocal\<close> is a value per thread: every sequence of reads, writes and ends of threads
  runs without touching a deleted holder and reads what a function from threads to values, reset
  for a thread that ends, gives. Destroying the variable deletes the holder of the thread that does it and
  leaves those of the other threads that have one, as the comment of the destructor says.
\<close>

theorem thread_local_refines:
  "\<exists>lv. tl_run ops (ThreadLocal_new d) = Inr (tl_spec d ops (\<lambda>_. d), lv)
     \<and> dom (tl_holders (ThreadLocal_destroy th lv)) = ran ((tl_specific lv)(th := None))"
proof -
  have "tl_view (ThreadLocal_new d) = (\<lambda>_. d)" "tl_default (ThreadLocal_new d) = d"
    by (auto simp: ThreadLocal_new_def tl_view_def)
  with tl_run_refines [OF tl_inv_new, of ops d] obtain lv where
    run: "tl_run ops (ThreadLocal_new d) = Inr (tl_spec d ops (\<lambda>_. d), lv)" and inv: "tl_inv lv"
    by auto
  have "dom (tl_holders (ThreadLocal_destroy th lv)) = ran ((tl_specific lv)(th := None))"
  proof (cases "tl_specific lv th")
    case None
    then have "(tl_specific lv)(th := None) = tl_specific lv" by auto
    with None inv show ?thesis by (simp add: ThreadLocal_destroy_def DeleteThreadLocalValue_def tl_inv_def)
  next
    case (Some a)
    with inv ran_delete [of "tl_specific lv" th a] show ?thesis
      by (simp add: ThreadLocal_destroy_def DeleteThreadLocalValue_def tl_inv_def)
  qed
  with run show ?thesis by blast
qed

subsection \<open>\<open>Notification\<close> and \<open>ThreadWithParam\<close>\<close>

text \<open>
  The object, the notification it may have been given (\<open>None\<close> is \<open>NULL\<close>) and the native
  thread: where \<open>Run\<close> is, and whether \<open>pthread_join\<close> has been called. \<open>tw_calls\<close> are the
  arguments of the calls of \<open>func_\<close> so far.
\<close>

datatype run_pc = AtStart | InWait | AtCall | Ended

record 'a ThreadWithParam =
  tw_param :: 'a
  tw_notified :: "bool option"
  tw_finished :: bool
  tw_run :: run_pc
  tw_joins :: nat
  tw_calls :: "'a list"

definition ThreadWithParam_new :: "'a \<Rightarrow> bool option \<Rightarrow> 'a ThreadWithParam" where
  "ThreadWithParam_new param thread_can_start =
     \<lparr>tw_param = param, tw_notified = thread_can_start, tw_finished = False, tw_run = AtStart,
      tw_joins = 0, tw_calls = []\<rparr>"

definition Notify :: "'a ThreadWithParam \<Rightarrow> 'a ThreadWithParam" where
  "Notify t = t\<lparr>tw_notified := map_option (\<lambda>_. True) (tw_notified t)\<rparr>"

text \<open>
  A step of the thread, in \<open>Run\<close>; at \<open>InWait\<close> it is one turn of the loop of
  \<open>WaitForNotification\<close>, which reads the flag under the mutex and leaves or sleeps.
\<close>

definition run_turn :: "'a ThreadWithParam \<Rightarrow> 'a ThreadWithParam" where
  "run_turn t =
     (case tw_run t of
        AtStart \<Rightarrow> t\<lparr>tw_run := (if tw_notified t \<noteq> None then InWait else AtCall)\<rparr>
      | InWait \<Rightarrow> (if tw_notified t = Some True then t\<lparr>tw_run := AtCall\<rparr> else t)
      | AtCall \<Rightarrow> t\<lparr>tw_calls := tw_calls t @ [tw_param t], tw_run := Ended\<rparr>
      | Ended \<Rightarrow> t)"

text \<open>\<open>pthread_join\<close> waits until the thread has ended (\<open>None\<close>); a second one is undefined.\<close>

definition pthread_join :: "'a ThreadWithParam \<Rightarrow> ('a ThreadWithParam outcome) option" where
  "pthread_join t =
     (if tw_joins t > 0 then Some (Inl Undefined)
      else if tw_run t = Ended then Some (Inr (t\<lparr>tw_joins := Suc (tw_joins t)\<rparr>))
      else None)"

definition Join :: "'a ThreadWithParam \<Rightarrow> ('a ThreadWithParam outcome) option" where
  "Join t =
     (if \<not> tw_finished t
      then (case pthread_join t of
              None \<Rightarrow> None
            | Some r \<Rightarrow> Some (and_then r (\<lambda>t. Inr (t\<lparr>tw_finished := True\<rparr>))))
      else Some (Inr t))"

text \<open>The controller and the thread, in any order; the destructor is one more \<open>Join\<close>.\<close>

inductive tw_reach :: "'a \<Rightarrow> bool option \<Rightarrow> 'a ThreadWithParam \<Rightarrow> bool" for param can_start where
  tw_created: "tw_reach param can_start (ThreadWithParam_new param can_start)"
| tw_runs: "tw_reach param can_start t \<Longrightarrow> tw_reach param can_start (run_turn t)"
| tw_notifies: "tw_reach param can_start t \<Longrightarrow> tw_reach param can_start (Notify t)"
| tw_joined: "tw_reach param can_start t \<Longrightarrow> Join t = Some (Inr t') \<Longrightarrow> tw_reach param can_start t'"

definition tw_inv :: "'a \<Rightarrow> bool option \<Rightarrow> 'a ThreadWithParam \<Rightarrow> bool" where
  "tw_inv param can_start t \<longleftrightarrow> tw_param t = param \<and> (tw_notified t = None \<longleftrightarrow> can_start = None)
     \<and> tw_calls t = (if tw_run t = Ended then [param] else [])
     \<and> (tw_run t = InWait \<longrightarrow> can_start \<noteq> None)
     \<and> (tw_run t \<in> {AtCall, Ended} \<longrightarrow> tw_notified t \<noteq> Some False)
     \<and> (tw_finished t \<longrightarrow> tw_run t = Ended) \<and> tw_joins t = (if tw_finished t then 1 else 0)"

lemma tw_inv_new: "tw_inv param can_start (ThreadWithParam_new param can_start)"
  by (simp add: tw_inv_def ThreadWithParam_new_def)

lemma tw_inv_run_turn: "tw_inv param can_start t \<Longrightarrow> tw_inv param can_start (run_turn t)"
  by (cases "tw_run t") (auto simp: tw_inv_def run_turn_def)

lemma tw_inv_Notify: "tw_inv param can_start t \<Longrightarrow> tw_inv param can_start (Notify t)"
  by (cases "tw_notified t") (auto simp: tw_inv_def Notify_def)

lemma tw_inv_Join:
  assumes "tw_inv param can_start t" "Join t = Some r"
  obtains t' where "r = Inr t'" "tw_inv param can_start t'" "tw_run t = Ended"
  using assms by (auto simp: tw_inv_def Join_def pthread_join_def split: if_splits option.splits)

lemma tw_reach_inv: "tw_reach param can_start t \<Longrightarrow> tw_inv param can_start t"
proof (induction rule: tw_reach.induct)
  case (tw_joined t t')
  from tw_inv_Join [OF tw_joined.IH tw_joined.hyps(2)] show ?case by auto
qed (simp_all add: tw_inv_new tw_inv_run_turn tw_inv_Notify)

text \<open>
  \<open>ThreadWithParam\<close>, however the controller and the thread interleave: the function is called at most
  once, with the parameter and not before the notification, if there is one; \<open>Join\<close>, called any number of
  times and once more by the destructor, joins the thread once and returns after the call; and from
  any state, once notified, the thread gets to its end in three turns, after which \<open>Join\<close> returns.
\<close>

theorem thread_runs_once:
  assumes "tw_reach param can_start t"
  shows "tw_calls t = (if tw_run t = Ended then [param] else [])
    \<and> (tw_calls t \<noteq> [] \<longrightarrow> tw_notified t \<noteq> Some False)
    \<and> (Join t = Some r \<longrightarrow> tw_calls t = [param] \<and> (\<exists>t'. r = Inr t' \<and> tw_finished t' \<and> tw_joins t' = 1))
    \<and> (\<exists>t'. Join (run_turn (run_turn (run_turn (Notify t)))) = Some (Inr t'))"
proof -
  have inv: "tw_inv param can_start t" using assms by (rule tw_reach_inv)
  have "tw_calls t = [param] \<and> (\<exists>t'. r = Inr t' \<and> tw_finished t' \<and> tw_joins t' = 1)" if "Join t = Some r"
    using inv that by (auto simp: tw_inv_def Join_def pthread_join_def split: if_splits option.splits)
  moreover have "tw_run (run_turn (run_turn (run_turn (Notify t)))) = Ended"
    using inv by (cases "tw_run t"; cases "tw_notified t") (auto simp: tw_inv_def run_turn_def Notify_def)
  then have "\<exists>t'. Join (run_turn (run_turn (run_turn (Notify t)))) = Some (Inr t')"
    using tw_inv_run_turn [OF tw_inv_run_turn [OF tw_inv_run_turn [OF tw_inv_Notify [OF inv]]]]
    by (auto simp: tw_inv_def Join_def pthread_join_def)
  ultimately show ?thesis using inv by (auto simp: tw_inv_def)
qed

theorem thread_runs_once_witness:
  "tw_calls (run_turn (run_turn (run_turn (Notify (ThreadWithParam_new (5 :: nat) (Some False)))))) = [5]"
proof -
  have r: "tw_reach (5 :: nat) (Some False) (run_turn (run_turn (run_turn (Notify (ThreadWithParam_new 5 (Some False))))))"
    by (intro tw_reach.intros)
  show ?thesis using thread_runs_once [OF r]
    by (simp add: run_turn_def Notify_def ThreadWithParam_new_def)
qed

end
