(* ===== verification/Printers.thy ===== *)
theory Printers
  imports Cxx_Strings Param_Generators
begin

text \<open>
  The universal value printer of \<open>GoogleTestFramework/.../gtest-printers.h\<close>. The overloads of
  \<open>PrintTo\<close> and the specializations of \<open>UniversalPrinter\<close> are chosen by the type of the value;
  the datatype \<open>printable\<close> has one constructor per choice. A stream is the text written so far.
  What is in the framework's binary (strings, character arrays, bytes) and the library's output of
  an address are parameters.
\<close>

record binary_printers =
  PrintStringTo :: "string \<Rightarrow> string"
  PrintCharsTo :: "string option \<Rightarrow> string"
  PrintCharArray :: "string \<Rightarrow> string"
  PrintBytesInObjectTo :: "nat list \<Rightarrow> string"
  print_address :: "nat \<Rightarrow> string"

datatype printable =
  Streamable string
| Protobuf string string
| ConvertibleToInteger int
| OtherType "nat list"
| Boolean bool
| Pointer "nat option"
| FunctionPointer "nat option"
| Nullptr
| CharPointer "string option"
| StdString string
| ContainerOf "printable list"
| CharArray string
| ArrayOf "printable list"
| PairOf printable printable
| TupleOf "printable list"
| ReferenceTo nat printable

type_synonym printer = "string \<Rightarrow> string outcome"

definition kProtobufOneLinerMaxLength :: nat where
  "kProtobufOneLinerMaxLength = 50"

definition PrintValue_protobuf :: "string \<Rightarrow> string \<Rightarrow> printer" where
  "PrintValue_protobuf short_debug_string debug_string os =
     (let pretty_str = (if length short_debug_string > kProtobufOneLinerMaxLength
                        then [CHR 10] @ debug_string else short_debug_string) in
      Inr (os @ (''<'' @ pretty_str @ ''>'')))"

definition PrintValue_integer :: "int \<Rightarrow> printer" where
  "PrintValue_integer kBigInt os = Inr (os @ to_string kBigInt)"

subsection \<open>Containers and arrays\<close>

text \<open>The printers of the elements, in order.\<close>

definition kMaxCount :: nat where
  "kMaxCount = 32"

fun container_loop :: "printer list \<Rightarrow> nat \<Rightarrow> string \<Rightarrow> (nat \<times> string) outcome" where
  "container_loop [] count os = Inr (count, os)"
| "container_loop (p # ps) count os =
     (let os = (if count > 0 then os @ '','' else os) in
      if count > 0 \<and> count = kMaxCount then Inr (count, os @ '' ...'')
      else and_then (p (os @ '' '')) (\<lambda>os. container_loop ps (count + 1) os))"

definition DefaultPrintTo_container :: "printer list \<Rightarrow> printer" where
  "DefaultPrintTo_container ps os =
     and_then (container_loop ps 0 (os @ ''{'')) (\<lambda>(count, os).
       let os = (if count > 0 then os @ '' '' else os) in Inr (os @ ''}''))"

definition DefaultPrintTo_pointer :: "(nat \<Rightarrow> string) \<Rightarrow> nat option \<Rightarrow> printer" where
  "DefaultPrintTo_pointer address p os = Inr (os @ (case p of None \<Rightarrow> ''NULL'' | Some a \<Rightarrow> address a))"

fun raw_array_loop :: "printer list \<Rightarrow> printer" where
  "raw_array_loop [] os = Inr os"
| "raw_array_loop (p # ps) os = and_then (p (os @ '', '')) (raw_array_loop ps)"

text \<open>It prints \<open>a[0]\<close> unasked; reading beyond the array is undefined.\<close>

definition PrintRawArrayTo :: "printer list \<Rightarrow> nat \<Rightarrow> printer" where
  "PrintRawArrayTo a count os =
     (if count = 0 \<or> length a < count then Inl Undefined
      else and_then ((a ! 0) os) (raw_array_loop (tl (take count a))))"

definition kThreshold :: nat where
  "kThreshold = 18"

definition kChunkSize :: nat where
  "kChunkSize = 8"

definition UniversalPrintArray :: "printer list \<Rightarrow> printer" where
  "UniversalPrintArray begin os =
     (let len = length begin in
      if len = 0 then Inr (os @ ''{}'')
      else
        and_then
          (if len \<le> kThreshold then PrintRawArrayTo begin len (os @ ''{ '')
           else and_then (PrintRawArrayTo begin kChunkSize (os @ ''{ '')) (\<lambda>os.
                PrintRawArrayTo (drop (len - kChunkSize) begin) kChunkSize (os @ '', ..., '')))
          (\<lambda>os. Inr (os @ '' }'')))"

subsection \<open>Pairs and tuples\<close>

definition PrintTo_pair :: "printer \<Rightarrow> printer \<Rightarrow> printer" where
  "PrintTo_pair p q os =
     and_then (p (os @ ''('')) (\<lambda>os. and_then (q (os @ '', '')) (\<lambda>os. Inr (os @ '')'')))"

text \<open>\<open>TuplePrefixPrinter<N>\<close>: the first \<open>N\<close> fields.\<close>

fun PrintPrefixTo :: "nat \<Rightarrow> printer list \<Rightarrow> printer" where
  "PrintPrefixTo 0 t os = Inr os"
| "PrintPrefixTo (Suc n) t os =
     and_then (PrintPrefixTo n t os) (\<lambda>os. (t ! n) (if Suc n > 1 then os @ '', '' else os))"

definition PrintTupleTo :: "printer list \<Rightarrow> printer" where
  "PrintTupleTo t os = and_then (PrintPrefixTo (length t) t (os @ ''('')) (\<lambda>os. Inr (os @ '')''))"

definition Print_reference :: "(nat \<Rightarrow> string) \<Rightarrow> nat \<Rightarrow> printer \<Rightarrow> printer" where
  "Print_reference address a p os = p (os @ ''@'' @ address a @ '' '')"

subsection \<open>The printer\<close>

fun UniversalPrint :: "binary_printers \<Rightarrow> printable \<Rightarrow> printer" where
  "UniversalPrint B (Streamable s) os = Inr (os @ s)"
| "UniversalPrint B (Protobuf s d) os = PrintValue_protobuf s d os"
| "UniversalPrint B (ConvertibleToInteger i) os = PrintValue_integer i os"
| "UniversalPrint B (OtherType bytes) os = Inr (os @ PrintBytesInObjectTo B bytes)"
| "UniversalPrint B (Boolean x) os = Inr (os @ (if x then ''true'' else ''false''))"
| "UniversalPrint B (Pointer p) os = DefaultPrintTo_pointer (print_address B) p os"
| "UniversalPrint B (FunctionPointer p) os = DefaultPrintTo_pointer (print_address B) p os"
| "UniversalPrint B Nullptr os = Inr (os @ ''(nullptr)'')"
| "UniversalPrint B (CharPointer s) os = Inr (os @ PrintCharsTo B s)"
| "UniversalPrint B (StdString s) os = Inr (os @ PrintStringTo B s)"
| "UniversalPrint B (ContainerOf xs) os = DefaultPrintTo_container (map (UniversalPrint B) xs) os"
| "UniversalPrint B (CharArray s) os = Inr (os @ PrintCharArray B s)"
| "UniversalPrint B (ArrayOf xs) os = UniversalPrintArray (map (UniversalPrint B) xs) os"
| "UniversalPrint B (PairOf x y) os = PrintTo_pair (UniversalPrint B x) (UniversalPrint B y) os"
| "UniversalPrint B (TupleOf xs) os = PrintTupleTo (map (UniversalPrint B) xs) os"
| "UniversalPrint B (ReferenceTo a x) os = Print_reference (print_address B) a (UniversalPrint B x) os"

fun UniversalTersePrint :: "binary_printers \<Rightarrow> printable \<Rightarrow> printer" where
  "UniversalTersePrint B (ReferenceTo a x) os = UniversalPrint B x os"
| "UniversalTersePrint B (CharPointer s) os =
     (case s of None \<Rightarrow> Inr (os @ ''NULL'') | Some s \<Rightarrow> UniversalPrint B (StdString s) os)"
| "UniversalTersePrint B x os = UniversalPrint B x os"

definition PrintToString :: "binary_printers \<Rightarrow> printable \<Rightarrow> string outcome" where
  "PrintToString B x = UniversalTersePrint B x ''''"

fun TersePrintPrefixToStrings :: "binary_printers \<Rightarrow> nat \<Rightarrow> printable list \<Rightarrow> string list \<Rightarrow> string list outcome" where
  "TersePrintPrefixToStrings B 0 t strings = Inr strings"
| "TersePrintPrefixToStrings B (Suc n) t strings =
     and_then (TersePrintPrefixToStrings B n t strings) (\<lambda>strings.
     and_then (UniversalTersePrint B (t ! n) '''') (\<lambda>s. Inr (strings @ [s])))"

definition UniversalTersePrintTupleFieldsToStrings :: "binary_printers \<Rightarrow> printable list \<Rightarrow> string list outcome" where
  "UniversalTersePrintTupleFieldsToStrings B value = TersePrintPrefixToStrings B (length value) value []"

subsection \<open>What is printed\<close>

fun separated :: "string \<Rightarrow> string list \<Rightarrow> string" where
  "separated sep [] = []"
| "separated sep (x # xs) = sep @ x @ separated sep xs"

fun sep_join :: "string \<Rightarrow> string list \<Rightarrow> string" where
  "sep_join sep [] = []"
| "sep_join sep (x # xs) = x @ separated sep xs"

definition braced :: "string list \<Rightarrow> string" where
  "braced ss = (if ss = [] then ''{}'' else ''{ '' @ sep_join '', '' ss @ '' }'')"

definition first_elements :: "string list \<Rightarrow> string list" where
  "first_elements ss = (if length ss \<le> 32 then ss else take 32 ss @ [''...''])"

definition outer_elements :: "string list \<Rightarrow> string list" where
  "outer_elements ss = (if length ss \<le> 18 then ss else take 8 ss @ [''...''] @ drop (length ss - 8) ss)"

fun show_value :: "binary_printers \<Rightarrow> printable \<Rightarrow> string" where
  "show_value B (Streamable s) = s"
| "show_value B (Protobuf s d) = ''<'' @ (if length s \<le> 50 then s else [CHR 10] @ d) @ ''>''"
| "show_value B (ConvertibleToInteger i) = to_string i"
| "show_value B (OtherType bytes) = PrintBytesInObjectTo B bytes"
| "show_value B (Boolean x) = (if x then ''true'' else ''false'')"
| "show_value B (Pointer p) = (case p of None \<Rightarrow> ''NULL'' | Some a \<Rightarrow> print_address B a)"
| "show_value B (FunctionPointer p) = (case p of None \<Rightarrow> ''NULL'' | Some a \<Rightarrow> print_address B a)"
| "show_value B Nullptr = ''(nullptr)''"
| "show_value B (CharPointer s) = PrintCharsTo B s"
| "show_value B (StdString s) = PrintStringTo B s"
| "show_value B (ContainerOf xs) = braced (first_elements (map (show_value B) xs))"
| "show_value B (CharArray s) = PrintCharArray B s"
| "show_value B (ArrayOf xs) = braced (outer_elements (map (show_value B) xs))"
| "show_value B (PairOf x y) = ''('' @ sep_join '', '' [show_value B x, show_value B y] @ '')''"
| "show_value B (TupleOf xs) = ''('' @ sep_join '', '' (map (show_value B) xs) @ '')''"
| "show_value B (ReferenceTo a x) = ''@'' @ print_address B a @ '' '' @ show_value B x"

fun terse_value :: "binary_printers \<Rightarrow> printable \<Rightarrow> string" where
  "terse_value B (ReferenceTo a x) = show_value B x"
| "terse_value B (CharPointer s) = (case s of None \<Rightarrow> ''NULL'' | Some s \<Rightarrow> PrintStringTo B s)"
| "terse_value B x = show_value B x"

text \<open>A printer that appends a text to the stream.\<close>

definition appends :: "printer \<Rightarrow> string \<Rightarrow> bool" where
  "appends p s \<longleftrightarrow> (\<forall>os. p os = Inr (os @ s))"

lemma appendsD: "appends p s \<Longrightarrow> p os = Inr (os @ s)"
  by (simp add: appends_def)

lemma appends_nth: "list_all2 appends ps ss \<Longrightarrow> n < length ss \<Longrightarrow> (ps ! n) os = Inr (os @ ss ! n)"
  by (rule appendsD) (simp add: list_all2_nthD2)

lemma separated_append: "separated sep (xs @ ys) = separated sep xs @ separated sep ys"
  by (induction xs) simp_all

lemma sep_join_snoc: "sep_join sep (xs @ [x]) = (if xs = [] then x else sep_join sep xs @ sep @ x)"
  by (cases xs) (simp_all add: separated_append)

lemma container_loop_rest:
  assumes "list_all2 appends ps ss" "0 < count" "count \<le> 32"
  shows "\<exists>n > 0. container_loop ps count os
    = Inr (n, os @ separated '', '' (take (32 - count) ss) @ (if length ss \<le> 32 - count then [] else '', ...''))"
  using assms
proof (induction ps ss arbitrary: count os rule: list_all2_induct)
  case (Cons p ps s ss)
  show ?case
  proof (cases "count = 32")
    case False
    then have c: "32 - count = Suc (32 - (count + 1))" using Cons.prems by simp
    have "container_loop (p # ps) count os = container_loop ps (count + 1) (os @ '', '' @ s)"
      using Cons.hyps(1) Cons.prems False by (simp add: kMaxCount_def appendsD)
    with Cons.IH [of "count + 1" "os @ '', '' @ s"] Cons.prems False show ?thesis unfolding c by simp
  qed (simp add: kMaxCount_def)
qed simp

lemma DefaultPrintTo_container_appends:
  assumes "list_all2 appends ps ss"
  shows "appends (DefaultPrintTo_container ps) (braced (first_elements ss))"
proof (cases ps)
  case Nil
  with assms show ?thesis by (simp add: appends_def DefaultPrintTo_container_def braced_def first_elements_def)
next
  case (Cons p ps')
  with assms obtain s ss' where ss: "ss = s # ss'" "appends p s" "list_all2 appends ps' ss'"
    by (auto simp: list_all2_Cons1)
  show ?thesis unfolding appends_def
  proof
    fix os
    from container_loop_rest [OF ss(3), of 1 "os @ ''{ '' @ s"] obtain n where "n > 0" "container_loop ps' 1 (os @ ''{ '' @ s)
      = Inr (n, (os @ ''{ '' @ s) @ separated '', '' (take 31 ss') @ (if length ss' \<le> 31 then [] else '', ...''))"
      by auto
    then show "DefaultPrintTo_container ps os = Inr (os @ braced (first_elements ss))"
      using ss(2) by (simp add: Cons ss(1) DefaultPrintTo_container_def appendsD braced_def first_elements_def separated_append)
  qed
qed

lemma raw_array_loop_appends: "list_all2 appends ps ss \<Longrightarrow> raw_array_loop ps os = Inr (os @ separated '', '' ss)"
  by (induction ps ss arbitrary: os rule: list_all2_induct) (simp_all add: appendsD)

lemma PrintRawArrayTo_appends:
  assumes "list_all2 appends ps ss" "0 < n" "n \<le> length ss"
  shows "PrintRawArrayTo ps n os = Inr (os @ sep_join '', '' (take n ss))"
proof -
  have len: "length ps = length ss" using assms(1) by (rule list_all2_lengthD)
  obtain p ps' s ss' where c: "ps = p # ps'" "ss = s # ss'" using assms len by (cases ps; cases ss) auto
  obtain k where n: "n = Suc k" using assms(2) by (cases n) auto
  have "appends p s" "list_all2 appends (take k ps') (take k ss')" using assms(1) c by (auto simp: list_all2_takeI)
  then show ?thesis using assms(3) len c n
    by (simp add: PrintRawArrayTo_def appendsD raw_array_loop_appends)
qed

lemma sep_join_append:
  "xs \<noteq> [] \<Longrightarrow> ys \<noteq> [] \<Longrightarrow> sep_join sep (xs @ ys) = sep_join sep xs @ sep @ sep_join sep ys"
  by (cases xs; cases ys) (simp_all add: separated_append)

lemma UniversalPrintArray_appends:
  assumes "list_all2 appends ps ss"
  shows "appends (UniversalPrintArray ps) (braced (outer_elements ss))"
proof -
  have len: "length ps = length ss" using assms by (rule list_all2_lengthD)
  have drops: "list_all2 appends (drop n ps) (drop n ss)" for n using assms by (rule list_all2_dropI)
  have long: "UniversalPrintArray ps os = Inr (os @ braced (outer_elements ss))" if "length ss > 18" for os
  proof -
    let ?a = "take 8 ss" and ?b = "drop (length ss - 8) ss"
    have ne: "?a \<noteq> []" "?b \<noteq> []" using that by auto
    have "sep_join '', '' (?a @ [''...''] @ ?b) = sep_join '', '' ?a @ '', ..., '' @ sep_join '', '' ?b"
      using sep_join_append [OF ne(1), of "[''...''] @ ?b" "'', ''"] sep_join_append [of "[''...'']" ?b "'', ''"] ne(2) by simp
    moreover have "ss \<noteq> []" using that by auto
    ultimately show ?thesis using that len PrintRawArrayTo_appends [OF assms, of 8] PrintRawArrayTo_appends [OF drops, of 8]
      by (simp add: UniversalPrintArray_def kThreshold_def kChunkSize_def braced_def outer_elements_def Let_def)
  qed
  have "UniversalPrintArray ps os = Inr (os @ braced (outer_elements ss))" if "length ss \<le> 18" for os
    using that len PrintRawArrayTo_appends [OF assms, of "length ss"]
    by (auto simp: UniversalPrintArray_def kThreshold_def braced_def outer_elements_def Let_def)
  with long show ?thesis unfolding appends_def by (meson not_le)
qed

lemma PrintPrefixTo_appends:
  assumes "list_all2 appends ps ss" "n \<le> length ss"
  shows "PrintPrefixTo n ps os = Inr (os @ sep_join '', '' (take n ss))"
  using assms(2)
proof (induction n)
  case (Suc n)
  then have "take (Suc n) ss = take n ss @ [ss ! n]" by (simp add: take_Suc_conv_app_nth)
  with Suc show ?case using appends_nth [OF assms(1), of n] by (auto simp: sep_join_snoc)
qed simp

lemma UniversalPrint_appends: "appends (UniversalPrint B x) (show_value B x)"
proof (induction x)
  case (ContainerOf xs)
  then have "list_all2 appends (map (UniversalPrint B) xs) (map (show_value B) xs)"
    by (simp add: list_all2_conv_all_nth)
  from DefaultPrintTo_container_appends [OF this] show ?case by (simp add: appends_def)
next
  case (ArrayOf xs)
  then have "list_all2 appends (map (UniversalPrint B) xs) (map (show_value B) xs)"
    by (simp add: list_all2_conv_all_nth)
  from UniversalPrintArray_appends [OF this] show ?case by (simp add: appends_def)
next
  case (TupleOf xs)
  then have "list_all2 appends (map (UniversalPrint B) xs) (map (show_value B) xs)"
    by (simp add: list_all2_conv_all_nth)
  from PrintPrefixTo_appends [OF this, of "length xs"] show ?case by (simp add: appends_def PrintTupleTo_def)
qed (auto simp: appends_def PrintValue_protobuf_def PrintValue_integer_def kProtobufOneLinerMaxLength_def
      DefaultPrintTo_pointer_def PrintTo_pair_def Print_reference_def)


end
