(* ===== verification/Assertions.thy ===== *)
theory Assertions
  imports Printers Floating_Point
begin

text \<open>
  The assertions of the test framework: \<open>Message\<close> (gtest-message.h), \<open>AssertionResult\<close> and the
  comparison helpers (gtest.h), the predicate helpers and \<open>GTEST_ASSERT_\<close> (gtest_pred_impl.h).
  What is in the framework's binary is the record \<open>binary_results\<close>: the two factories of results,
  \<open>EqFailure\<close> and \<open>GetString\<close>. How the values of a comparison are formatted is a parameter \<open>fmt\<close>,
  for \<open>FormatForComparisonFailureMessage\<close>, which is chosen by their types.
\<close>

subsection \<open>Messages and results\<close>

text \<open>What is streamed: a value with the text its own operator gives, a pointer, a truth value.\<close>

datatype streamed =
  Plain string
| StreamedPointer "string option"
| StreamedBool bool

fun Message_stream :: "streamed \<Rightarrow> string \<Rightarrow> string" where
  "Message_stream (Plain s) ss = ss @ s"
| "Message_stream (StreamedPointer p) ss = ss @ (case p of None \<Rightarrow> ''(null)'' | Some s \<Rightarrow> s)"
| "Message_stream (StreamedBool b) ss = ss @ (if b then ''true'' else ''false'')"

record AssertionResult =
  success :: bool
  message_ptr :: "string option"

record binary_results =
  AssertionSuccess :: AssertionResult
  AssertionFailure :: AssertionResult
  EqFailure :: "string \<Rightarrow> string \<Rightarrow> string \<Rightarrow> string \<Rightarrow> bool \<Rightarrow> AssertionResult"
  GetString :: "string \<Rightarrow> string"

definition StreamableToString :: "binary_results \<Rightarrow> streamed \<Rightarrow> string" where
  "StreamableToString B x = GetString B (Message_stream x [])"

definition result_message :: "AssertionResult \<Rightarrow> string" where
  "result_message r = (case message_ptr r of Some m \<Rightarrow> c_str m | None \<Rightarrow> [])"

definition AppendMessage :: "binary_results \<Rightarrow> string \<Rightarrow> AssertionResult \<Rightarrow> AssertionResult" where
  "AppendMessage B a_message r =
     (let m = (case message_ptr r of None \<Rightarrow> [] | Some m \<Rightarrow> m) in
      r\<lparr>message_ptr := Some (m @ c_str (GetString B a_message))\<rparr>)"

definition result_stream :: "binary_results \<Rightarrow> AssertionResult \<Rightarrow> streamed \<Rightarrow> AssertionResult" where
  "result_stream B r x = AppendMessage B (Message_stream x []) r"

abbreviation stream_all :: "binary_results \<Rightarrow> AssertionResult \<Rightarrow> streamed list \<Rightarrow> AssertionResult" where
  "stream_all B r xs \<equiv> foldl (result_stream B) r xs"

subsection \<open>Comparisons\<close>

definition CmpHelperEQFailure ::
  "binary_results \<Rightarrow> ('a \<Rightarrow> 'a \<Rightarrow> string) \<Rightarrow> string \<Rightarrow> string \<Rightarrow> 'a \<Rightarrow> 'a \<Rightarrow> AssertionResult" where
  "CmpHelperEQFailure B fmt lhs_expression rhs_expression lhs rhs =
     EqFailure B lhs_expression rhs_expression (fmt lhs rhs) (fmt rhs lhs) False"

definition CmpHelperEQ ::
  "binary_results \<Rightarrow> ('a \<Rightarrow> 'a \<Rightarrow> string) \<Rightarrow> string \<Rightarrow> string \<Rightarrow> 'a \<Rightarrow> 'a \<Rightarrow> AssertionResult" where
  "CmpHelperEQ B fmt lhs_expression rhs_expression lhs rhs =
     (if lhs = rhs then AssertionSuccess B
      else CmpHelperEQFailure B fmt lhs_expression rhs_expression lhs rhs)"

definition CmpHelperOpFailure ::
  "binary_results \<Rightarrow> ('a \<Rightarrow> 'a \<Rightarrow> string) \<Rightarrow> string \<Rightarrow> string \<Rightarrow> 'a \<Rightarrow> 'a \<Rightarrow> string \<Rightarrow> AssertionResult" where
  "CmpHelperOpFailure B fmt expr1 expr2 val1 val2 oper =
     stream_all B (AssertionFailure B)
       [Plain ''Expected: ('', StreamedPointer (Some expr1), Plain '') '', StreamedPointer (Some oper), Plain '' ('',
        StreamedPointer (Some expr2), Plain ''), actual: '', Plain (fmt val1 val2), Plain '' vs '', Plain (fmt val2 val1)]"

text \<open>\<open>GTEST_IMPL_CMP_HELPER_\<close> and its five uses.\<close>

definition CmpHelper ::
  "('a \<Rightarrow> 'a \<Rightarrow> bool) \<Rightarrow> string \<Rightarrow> binary_results \<Rightarrow> ('a \<Rightarrow> 'a \<Rightarrow> string) \<Rightarrow> string \<Rightarrow> string \<Rightarrow> 'a \<Rightarrow> 'a \<Rightarrow> AssertionResult" where
  "CmpHelper rel oper B fmt expr1 expr2 val1 val2 =
     (if rel val1 val2 then AssertionSuccess B
      else CmpHelperOpFailure B fmt expr1 expr2 val1 val2 oper)"

datatype comparison = EQ | NE | LE | LT | GE | GT

fun compare_helper :: "comparison \<Rightarrow> binary_results \<Rightarrow> ('a :: linorder \<Rightarrow> 'a \<Rightarrow> string) \<Rightarrow> string \<Rightarrow> string \<Rightarrow> 'a \<Rightarrow> 'a \<Rightarrow> AssertionResult" where
  "compare_helper EQ = CmpHelperEQ"
| "compare_helper NE = CmpHelper (\<noteq>) ''!=''"
| "compare_helper LE = CmpHelper (\<le>) ''<=''"
| "compare_helper LT = CmpHelper (<) ''<''"
| "compare_helper GE = CmpHelper (\<ge>) ''>=''"
| "compare_helper GT = CmpHelper (>) ''>''"

text \<open>Two floating-point numbers by their bits; the texts are those of the two streams.\<close>

definition CmpHelperFloatingPointEQ ::
  "binary_results \<Rightarrow> nat \<Rightarrow> ('a :: len word \<Rightarrow> string) \<Rightarrow> string \<Rightarrow> string \<Rightarrow> 'a word \<Rightarrow> 'a word \<Rightarrow> AssertionResult" where
  "CmpHelperFloatingPointEQ B f text lhs_expression rhs_expression lhs rhs =
     (if AlmostEquals f lhs rhs then AssertionSuccess B
      else EqFailure B lhs_expression rhs_expression (text lhs) (text rhs) False)"

subsection \<open>Predicates\<close>

text \<open>The helpers take the texts of the predicate and its arguments, and the values as they are streamed.\<close>

definition evaluates_to :: "string \<Rightarrow> streamed \<Rightarrow> streamed list" where
  "evaluates_to e v = [Plain [CHR 10], StreamedPointer (Some e), Plain '' evaluates to '', v]"

definition AssertPred1Helper ::
  "binary_results \<Rightarrow> string \<Rightarrow> string \<Rightarrow> ('a \<Rightarrow> bool) \<Rightarrow> ('a \<Rightarrow> streamed) \<Rightarrow> 'a \<Rightarrow> AssertionResult" where
  "AssertPred1Helper B pred_text e1 pred st v1 =
     (if pred v1 then AssertionSuccess B
      else stream_all B (AssertionFailure B)
        ([StreamedPointer (Some pred_text), Plain ''('', StreamedPointer (Some e1), Plain '') evaluates to false, where'']
         @ evaluates_to e1 (st v1)))"

definition AssertPred2Helper ::
  "binary_results \<Rightarrow> string \<Rightarrow> string \<Rightarrow> string \<Rightarrow> ('a \<Rightarrow> 'a \<Rightarrow> bool) \<Rightarrow> ('a \<Rightarrow> streamed) \<Rightarrow> 'a \<Rightarrow> 'a \<Rightarrow> AssertionResult" where
  "AssertPred2Helper B pred_text e1 e2 pred st v1 v2 =
     (if pred v1 v2 then AssertionSuccess B
      else stream_all B (AssertionFailure B)
        ([StreamedPointer (Some pred_text), Plain ''('', StreamedPointer (Some e1), Plain '', '',
          StreamedPointer (Some e2), Plain '') evaluates to false, where'']
         @ evaluates_to e1 (st v1) @ evaluates_to e2 (st v2)))"

definition AssertPred3Helper ::
  "binary_results \<Rightarrow> string \<Rightarrow> string \<Rightarrow> string \<Rightarrow> string \<Rightarrow> ('a \<Rightarrow> 'a \<Rightarrow> 'a \<Rightarrow> bool) \<Rightarrow> ('a \<Rightarrow> streamed) \<Rightarrow>
   'a \<Rightarrow> 'a \<Rightarrow> 'a \<Rightarrow> AssertionResult" where
  "AssertPred3Helper B pred_text e1 e2 e3 pred st v1 v2 v3 =
     (if pred v1 v2 v3 then AssertionSuccess B
      else stream_all B (AssertionFailure B)
        ([StreamedPointer (Some pred_text), Plain ''('', StreamedPointer (Some e1), Plain '', '',
          StreamedPointer (Some e2), Plain '', '', StreamedPointer (Some e3), Plain '') evaluates to false, where'']
         @ evaluates_to e1 (st v1) @ evaluates_to e2 (st v2) @ evaluates_to e3 (st v3)))"

definition AssertPred4Helper ::
  "binary_results \<Rightarrow> string \<Rightarrow> string \<Rightarrow> string \<Rightarrow> string \<Rightarrow> string \<Rightarrow> ('a \<Rightarrow> 'a \<Rightarrow> 'a \<Rightarrow> 'a \<Rightarrow> bool) \<Rightarrow> ('a \<Rightarrow> streamed) \<Rightarrow>
   'a \<Rightarrow> 'a \<Rightarrow> 'a \<Rightarrow> 'a \<Rightarrow> AssertionResult" where
  "AssertPred4Helper B pred_text e1 e2 e3 e4 pred st v1 v2 v3 v4 =
     (if pred v1 v2 v3 v4 then AssertionSuccess B
      else stream_all B (AssertionFailure B)
        ([StreamedPointer (Some pred_text), Plain ''('', StreamedPointer (Some e1), Plain '', '',
          StreamedPointer (Some e2), Plain '', '', StreamedPointer (Some e3), Plain '', '',
          StreamedPointer (Some e4), Plain '') evaluates to false, where'']
         @ evaluates_to e1 (st v1) @ evaluates_to e2 (st v2) @ evaluates_to e3 (st v3) @ evaluates_to e4 (st v4)))"

definition AssertPred5Helper ::
  "binary_results \<Rightarrow> string \<Rightarrow> string \<Rightarrow> string \<Rightarrow> string \<Rightarrow> string \<Rightarrow> string \<Rightarrow> ('a \<Rightarrow> 'a \<Rightarrow> 'a \<Rightarrow> 'a \<Rightarrow> 'a \<Rightarrow> bool) \<Rightarrow>
   ('a \<Rightarrow> streamed) \<Rightarrow> 'a \<Rightarrow> 'a \<Rightarrow> 'a \<Rightarrow> 'a \<Rightarrow> 'a \<Rightarrow> AssertionResult" where
  "AssertPred5Helper B pred_text e1 e2 e3 e4 e5 pred st v1 v2 v3 v4 v5 =
     (if pred v1 v2 v3 v4 v5 then AssertionSuccess B
      else stream_all B (AssertionFailure B)
        ([StreamedPointer (Some pred_text), Plain ''('', StreamedPointer (Some e1), Plain '', '',
          StreamedPointer (Some e2), Plain '', '', StreamedPointer (Some e3), Plain '', '',
          StreamedPointer (Some e4), Plain '', '', StreamedPointer (Some e5), Plain '') evaluates to false, where'']
         @ evaluates_to e1 (st v1) @ evaluates_to e2 (st v2) @ evaluates_to e3 (st v3) @ evaluates_to e4 (st v4)
         @ evaluates_to e5 (st v5)))"

subsection \<open>Statements\<close>

datatype part_type = kNonFatalFailure | kFatalFailure

text \<open>
  A test function so far: the failures reported, and whether it has returned. A fatal failure
  returns from the function that has the assertion.
\<close>

record test_function =
  reported :: "(part_type \<times> string) list"
  returned :: bool

definition GTEST_ASSERT :: "part_type \<Rightarrow> AssertionResult \<Rightarrow> test_function \<Rightarrow> test_function" where
  "GTEST_ASSERT on_failure gtest_ar t =
     (if success gtest_ar then t
      else t\<lparr>reported := reported t @ [(on_failure, result_message gtest_ar)],
             returned := (on_failure = kFatalFailure)\<rparr>)"

text \<open>\<open>EXPECT_EQ(e1, e2)\<close> and its like: the kind, the comparison, the texts and the values.\<close>

datatype 'a assertion = Assertion part_type comparison string string 'a 'a

fun check_assertion :: "binary_results \<Rightarrow> ('a :: linorder \<Rightarrow> 'a \<Rightarrow> string) \<Rightarrow> 'a assertion \<Rightarrow> test_function \<Rightarrow> test_function" where
  "check_assertion B fmt (Assertion kind cmp e1 e2 v1 v2) t = GTEST_ASSERT kind (compare_helper cmp B fmt e1 e2 v1 v2) t"

fun run_assertions :: "binary_results \<Rightarrow> ('a :: linorder \<Rightarrow> 'a \<Rightarrow> string) \<Rightarrow> 'a assertion list \<Rightarrow> test_function \<Rightarrow> test_function" where
  "run_assertions B fmt [] t = t"
| "run_assertions B fmt (a # as) t =
     (let t = check_assertion B fmt a t in if returned t then t else run_assertions B fmt as t)"

subsection \<open>What a test function reports\<close>

text \<open>What the comments of gtest.h and gtest-message.h say of the functions in the binary.\<close>

definition documented :: "binary_results \<Rightarrow> bool" where
  "documented B \<longleftrightarrow> success (AssertionSuccess B) \<and> \<not> success (AssertionFailure B) \<and> message_ptr (AssertionFailure B) = None
     \<and> (\<forall>a b c d i. \<not> success (EqFailure B a b c d i)) \<and> (\<forall>s. nul_free s \<longrightarrow> GetString B s = s)"

fun compares :: "comparison \<Rightarrow> 'a :: linorder \<Rightarrow> 'a \<Rightarrow> bool" where
  "compares EQ x y = (x = y)"
| "compares NE x y = (x \<noteq> y)"
| "compares LE x y = (x \<le> y)"
| "compares LT x y = (x < y)"
| "compares GE x y = (y \<le> x)"
| "compares GT x y = (y < x)"

fun symbol_of :: "comparison \<Rightarrow> string" where
  "symbol_of EQ = ''==''" | "symbol_of NE = ''!=''" | "symbol_of LE = ''<=''" | "symbol_of LT = ''<''"
| "symbol_of GE = ''>=''" | "symbol_of GT = ''>''"

fun fails :: "'a :: linorder assertion \<Rightarrow> bool" where
  "fails (Assertion kind cmp e1 e2 v1 v2) = (\<not> compares cmp v1 v2)"

fun fatal :: "'a assertion \<Rightarrow> bool" where
  "fatal (Assertion kind cmp e1 e2 v1 v2) = (kind = kFatalFailure)"

fun report_of :: "binary_results \<Rightarrow> ('a \<Rightarrow> 'a \<Rightarrow> string) \<Rightarrow> 'a assertion \<Rightarrow> part_type \<times> string" where
  "report_of B fmt (Assertion kind cmp e1 e2 v1 v2) =
     (kind,
      if cmp = EQ then result_message (EqFailure B e1 e2 (fmt v1 v2) (fmt v2 v1) False)
      else ''Expected: ('' @ e1 @ '') '' @ symbol_of cmp @ '' ('' @ e2 @ ''), actual: '' @ fmt v1 v2 @ '' vs '' @ fmt v2 v1)"

fun nul_free_texts :: "'a assertion \<Rightarrow> bool" where
  "nul_free_texts (Assertion kind cmp e1 e2 v1 v2) = (nul_free e1 \<and> nul_free e2)"

text \<open>The assertions that are reached: up to the first that fails and is fatal.\<close>

fun reached :: "'a :: linorder assertion list \<Rightarrow> 'a assertion list" where
  "reached [] = []"
| "reached (a # as) = a # (if fails a \<and> fatal a then [] else reached as)"

lemma stream_all_message:
  assumes "documented B" "\<forall>x \<in> set xs. nul_free (Message_stream x [])" "message_ptr r = None \<or> nul_free (the (message_ptr r))"
  shows "success (stream_all B r xs) = success r
    \<and> result_message (stream_all B r xs) = result_message r @ concat (map (\<lambda>x. Message_stream x []) xs)"
  using assms(2,3)
proof (induction xs arbitrary: r)
  case (Cons x xs)
  define r' where "r' = result_stream B r x"
  have g: "GetString B (Message_stream x []) = Message_stream x []" using assms(1) Cons.prems(1) by (simp add: documented_def)
  have r': "success r' = success r" "result_message r' = result_message r @ Message_stream x []"
    "nul_free (the (message_ptr r'))" "message_ptr r' \<noteq> None"
    using Cons.prems g
    by (cases "message_ptr r"; simp add: r'_def result_stream_def AppendMessage_def result_message_def Let_def)+
  from Cons.IH [of r'] Cons.prems(1) r' show ?case by (simp add: r'_def)
qed simp

lemma CmpHelperOpFailure_message:
  assumes "documented B" "nul_free e1" "nul_free e2" "nul_free oper" "\<And>x y. nul_free (fmt x y)"
  shows "\<not> success (CmpHelperOpFailure B fmt e1 e2 v1 v2 oper)"
    "result_message (CmpHelperOpFailure B fmt e1 e2 v1 v2 oper)
     = ''Expected: ('' @ e1 @ '') '' @ oper @ '' ('' @ e2 @ ''), actual: '' @ fmt v1 v2 @ '' vs '' @ fmt v2 v1"
proof -
  have f: "message_ptr (AssertionFailure B) = None" "\<not> success (AssertionFailure B)" using assms(1) by (simp_all add: documented_def)
  let ?xs = "[Plain ''Expected: ('', StreamedPointer (Some e1), Plain '') '', StreamedPointer (Some oper), Plain '' ('',
        StreamedPointer (Some e2), Plain ''), actual: '', Plain (fmt v1 v2), Plain '' vs '', Plain (fmt v2 v1)]"
  have "\<forall>x \<in> set ?xs. nul_free (Message_stream x [])" using assms(2-5) by (simp add: NUL_def)
  from stream_all_message [OF assms(1) this, of "AssertionFailure B"] f
  show "\<not> success (CmpHelperOpFailure B fmt e1 e2 v1 v2 oper)"
    "result_message (CmpHelperOpFailure B fmt e1 e2 v1 v2 oper)
     = ''Expected: ('' @ e1 @ '') '' @ oper @ '' ('' @ e2 @ ''), actual: '' @ fmt v1 v2 @ '' vs '' @ fmt v2 v1"
    unfolding CmpHelperOpFailure_def by (simp_all add: result_message_def)
qed

lemma check_assertion_cases:
  assumes "documented B" "nul_free_texts a" "\<And>x y. nul_free (fmt x y)"
  shows "check_assertion B fmt a t
    = (if fails a then t\<lparr>reported := reported t @ [report_of B fmt a], returned := fatal a\<rparr> else t)"
proof (cases a)
  case (Assertion kind cmp e1 e2 v1 v2)
  have n: "nul_free e1" "nul_free e2" using assms(2) by (simp_all add: Assertion)
  note msg = CmpHelperOpFailure_message [OF assms(1) n _ assms(3)]
  have s: "success (AssertionSuccess B)" "\<And>a b c d i. \<not> success (EqFailure B a b c d i)"
    using assms(1) by (simp_all add: documented_def)
  have symbols: "NUL \<noteq> CHR ''!''" "NUL \<noteq> CHR ''=''" "NUL \<noteq> CHR ''<''" "NUL \<noteq> CHR ''>''" by (simp_all add: NUL_def)
  show ?thesis
    by (cases cmp) (simp_all add: symbols Assertion GTEST_ASSERT_def CmpHelperEQ_def CmpHelperEQFailure_def CmpHelper_def s msg)
qed

text \<open>
  C37. The comparisons of a test function, in the order it has them: it reports exactly those that do not
  hold among the ones it reaches, with their kind and the text that names the expressions and shows the values, and
  it returns at the first fatal one that does not hold, and only there.
\<close>

theorem assertions_report:
  assumes "documented B" "\<forall>a \<in> set as. nul_free_texts a" "\<forall>x y. nul_free (fmt x y)"
  shows "run_assertions B fmt as \<lparr>reported = [], returned = False\<rparr>
    = \<lparr>reported = map (report_of B fmt) (filter fails (reached as)), returned = (\<exists>a \<in> set as. fails a \<and> fatal a)\<rparr>"
proof -
  have "run_assertions B fmt as \<lparr>reported = rs, returned = False\<rparr>
    = \<lparr>reported = rs @ map (report_of B fmt) (filter fails (reached as)), returned = (\<exists>a \<in> set as. fails a \<and> fatal a)\<rparr>" for rs
    using assms(2)
  proof (induction as arbitrary: rs)
    case (Cons a as)
    then show ?case using check_assertion_cases [OF assms(1), of a fmt] assms(3) by (auto simp: Let_def)
  qed simp
  from this [of "[]"] show ?thesis by simp
qed

text \<open>Three assertions on numbers: the first two fail, the second is fatal.\<close>

definition demo_results :: binary_results where
  "demo_results = \<lparr>AssertionSuccess = \<lparr>success = True, message_ptr = None\<rparr>,
     AssertionFailure = \<lparr>success = False, message_ptr = None\<rparr>,
     EqFailure = (\<lambda>a b c d i. \<lparr>success = False, message_ptr = Some (a @ b @ c @ d)\<rparr>), GetString = id\<rparr>"

theorem assertions_report_witness:
  "run_assertions demo_results (\<lambda>x y. ''n'')
     [Assertion kNonFatalFailure LT ''a'' ''b'' (3 :: int) 3, Assertion kFatalFailure NE ''a'' ''b'' 3 3,
      Assertion kFatalFailure GT ''a'' ''b'' 3 4] \<lparr>reported = [], returned = False\<rparr>
   = \<lparr>reported = [(kNonFatalFailure, ''Expected: (a) < (b), actual: n vs n''),
                  (kFatalFailure, ''Expected: (a) != (b), actual: n vs n'')], returned = True\<rparr>"
proof -
  have "documented demo_results" by (simp add: documented_def demo_results_def)
  from assertions_report [OF this, of "[Assertion kNonFatalFailure LT ''a'' ''b'' (3 :: int) 3,
    Assertion kFatalFailure NE ''a'' ''b'' 3 3, Assertion kFatalFailure GT ''a'' ''b'' 3 4]" "\<lambda>x y. ''n''"]
  show ?thesis by (simp add: NUL_def del: run_assertions.simps)
qed

text \<open>The predicate helpers succeed exactly when the predicate holds; \<open>EXPECT_FLOAT_EQ\<close> when the numbers are almost equal.\<close>

lemma predicate_helpers_succeed:
  assumes "documented B"
  shows "success (AssertPred1Helper B p e1 P1 st v1) = P1 v1"
    "success (AssertPred2Helper B p e1 e2 P2 st v1 v2) = P2 v1 v2"
    "success (AssertPred3Helper B p e1 e2 e3 P3 st v1 v2 v3) = P3 v1 v2 v3"
    "success (AssertPred4Helper B p e1 e2 e3 e4 P4 st v1 v2 v3 v4) = P4 v1 v2 v3 v4"
    "success (AssertPred5Helper B p e1 e2 e3 e4 e5 P5 st v1 v2 v3 v4 v5) = P5 v1 v2 v3 v4 v5"
    "success (CmpHelperFloatingPointEQ B f text e1 e2 x y) = AlmostEquals f x y"
proof -
  have fold: "success (stream_all B r xs) = success r" for r xs
    by (induction xs arbitrary: r) (simp_all add: result_stream_def AppendMessage_def Let_def)
  have s: "success (AssertionSuccess B)" "\<not> success (AssertionFailure B)" "\<And>a b c d i. \<not> success (EqFailure B a b c d i)"
    using assms by (simp_all add: documented_def)
  show "success (AssertPred1Helper B p e1 P1 st v1) = P1 v1" "success (AssertPred2Helper B p e1 e2 P2 st v1 v2) = P2 v1 v2"
    "success (AssertPred3Helper B p e1 e2 e3 P3 st v1 v2 v3) = P3 v1 v2 v3"
    unfolding AssertPred1Helper_def AssertPred2Helper_def AssertPred3Helper_def by (simp_all only: fold s if_split simp_thms)
  show "success (AssertPred4Helper B p e1 e2 e3 e4 P4 st v1 v2 v3 v4) = P4 v1 v2 v3 v4"
    "success (AssertPred5Helper B p e1 e2 e3 e4 e5 P5 st v1 v2 v3 v4 v5) = P5 v1 v2 v3 v4 v5"
    unfolding AssertPred4Helper_def AssertPred5Helper_def by (simp_all only: fold s if_split simp_thms)
  show "success (CmpHelperFloatingPointEQ B f text e1 e2 x y) = AlmostEquals f x y"
    by (simp add: CmpHelperFloatingPointEQ_def s)
qed

end
