(* ===== verification/Well_Typed.thy ===== *)
theory Well_Typed
  imports Lifecycle
begin

text \<open>
  The integers of the backend at their types. The model keeps identifiers and sequence numbers as
  integers; \<open>server-backend.h\<close> declares them \<open>int\<close>. Here every state the backend can reach and
  every reply it gives is shown to keep them within \<open>int\<close>, so that no assignment of the code
  narrows a value; the counters of COMMIT stay below the number of buffered writes.
\<close>

definition txn_typed :: "TransactionAttributes \<Rightarrow> bool" where
  "txn_typed t \<longleftrightarrow> is_int (max_seq_num t) \<and> (\<forall>k \<in> dom (buffers t). is_int k)"

definition well_typed :: "ServerBackend \<Rightarrow> bool" where
  "well_typed b \<longleftrightarrow> (\<forall>i t. m_txns b i = Some t \<longrightarrow> is_int i \<and> txn_typed t) \<and> (\<forall>i \<in> m_commits b. is_int i)
     \<and> (\<forall>tm \<in> set (m_timers b). is_int (timer_txn_id tm))"

fun reply_typed :: "Reply \<Rightarrow> bool" where
  "reply_typed (command, txn_id, seq_num, err, data) \<longleftrightarrow> is_int txn_id \<and> is_int seq_num"

lemma well_typed_new: "well_typed (ServerBackend_new d s)"
  by (simp add: well_typed_def ServerBackend_new_def)

lemma txn_typed_simps [simp]:
  "txn_typed (t\<lparr>curr_timestamp := ts\<rparr>) = txn_typed t"
  "is_int k \<Longrightarrow> txn_typed t \<Longrightarrow> txn_typed (buffered k d ts t)"
  "is_int k \<Longrightarrow> txn_typed t \<Longrightarrow> txn_typed (closed_at k ts t)"
  "txn_typed (getNewTransactionAttributes f ts)"
  by (auto simp: txn_typed_def max_def getNewTransactionAttributes_def consts_simps int_range_defs)

lemma well_typedD:
  assumes "well_typed b"
  shows "m_txns b i = Some t \<Longrightarrow> is_int i" "m_txns b i = Some t \<Longrightarrow> txn_typed t" "i \<in> m_commits b \<Longrightarrow> is_int i"
    "tm \<in> set (m_timers b) \<Longrightarrow> is_int (timer_txn_id tm)"
  using assms by (auto simp: well_typed_def)

text \<open>A new state of the same integers, or fewer, or with one transaction that is typed.\<close>

lemma well_typed_less:
  assumes "well_typed b" "m_txns b' \<subseteq>\<^sub>m m_txns b" "m_commits b' \<subseteq> m_commits b" "set (m_timers b') \<subseteq> set (m_timers b)"
  shows "well_typed b'"
  using assms by (auto simp: well_typed_def map_le_def dom_def)

lemma well_typed_txn:
  assumes "well_typed b" "is_int i" "txn_typed t"
  shows "well_typed (with_txn i t b)"
  using assms by (auto simp: well_typed_def)

lemma map_le_without: "m(i := None) \<subseteq>\<^sub>m m"
  by (simp add: map_le_def)

text \<open>What a command leaves behind: a typed state, and a typed reply if it answers.\<close>

definition typed_result :: "command_result \<Rightarrow> bool" where
  "typed_result x \<longleftrightarrow> well_typed (snd x) \<and> (\<forall>reply q. fst x = Inr (reply, q) \<longrightarrow> reply_typed reply)"

lemma typed_replies:
  "is_int i \<Longrightarrow> is_int k \<Longrightarrow> well_typed b \<Longrightarrow> typed_result (SET_ERROR err i k b)"
  "is_int i \<Longrightarrow> is_int k \<Longrightarrow> well_typed b \<Longrightarrow> typed_result (SET_ACK i k p b)"
  "is_int i \<Longrightarrow> is_int k \<Longrightarrow> well_typed b \<Longrightarrow> typed_result (SET_READ i k d p b)"
  "is_int i \<Longrightarrow> is_int k \<Longrightarrow> well_typed b \<Longrightarrow> typed_result (SET_ASK_RESEND i k p b)"
  "is_int i \<Longrightarrow> well_typed b \<Longrightarrow> typed_result (SET_NEW_TXN i p b)"
  by (simp_all add: typed_result_def reply_simps is_int_initial)

lemma WRITE_typed:
  assumes "well_typed b" "is_int i" "is_int k"
  shows "typed_result (WRITE (c, i, k, n, d) e p b)"
  by (cases rule: WRITE_cases [of i b c k n d e p]) (use assms in \<open>simp_all add: typed_replies well_typed_txn well_typedD(2) [OF assms(1)]\<close>)

lemma READ_typed:
  assumes "well_typed b" "is_int i" "is_int k" "READ (c, i, k, n, f) p b = (Inr x, b')"
  shows "typed_result (Inr x, b')"
proof -
  have "well_typed b'" by (rule well_typed_less [OF assms(1)]) (use READ_frame [of "(c, i, k, n, f)" p b] assms(4) in auto)
  moreover have "reply_typed (fst x)"
    using assms(2-4) by (auto simp: READ_def reply_simps split: option.splits prod.splits sum.splits)
  ultimately show ?thesis by (cases x) (simp add: typed_result_def)
qed

lemma ABORT_typed:
  assumes "backend_inv b" "well_typed b" "is_int i" "is_int k"
  shows "typed_result (ABORT (c, i, k, n, d) p b)"
proof (cases rule: ABORT_cases [OF assms(1), of i c k n d p])
  case (3 t s)
  have "well_typed (removeTransaction i (b\<lparr>m_os := s\<rparr>))"
    by (rule well_typed_less [OF assms(2)]) (simp_all add: map_le_without)
  with 3 assms show ?thesis by (simp add: typed_replies)
qed (use assms in \<open>simp_all add: typed_replies\<close>)

lemma NEW_TXN_typed:
  assumes "well_typed b" "is_int i" "is_int k" "nul_free f" "NEW_TXN (c, i, k, n, f) e p b = (Inr x, b')"
  shows "typed_result (Inr x, b')"
  using assms(4)
proof (cases rule: NEW_TXN_cases [of f k c i n e p b])
  case (started j s)
  have j: "is_int j" by (rule candidate_id_range(4) [OF started(2)])
  have "well_typed (started_state j f (now e) s b)"
    using assms(1) j by (auto simp: well_typed_def new_timer_def)
  with j have "typed_result (SET_NEW_TXN j p (started_state j f (now e) s b))" by (rule typed_replies)
  then show ?thesis using started(4) assms(5) by simp
next
  case bad_seq
  with assms(5) typed_replies(1) [OF assms(2,3,1), of InvalidSequenceNumber] show ?thesis by simp
qed (use assms(5) in simp)

lemma COMMIT_typed:
  assumes inv: "backend_inv b" and b: "well_typed b" and ik: "is_int i" "is_int k"
  shows "typed_result (COMMIT (c, i, k, n, d) e p b)"
  using inv
proof (cases rule: COMMIT_cases [of b i c k n d e p])
  case (missing t m)
  from first_missing_Some(1,2) [OF missing(4)] ik(2) have "is_int m" by (simp add: consts_simps int_range_defs)
  with missing b ik show ?thesis by (simp add: typed_replies well_typed_txn well_typedD(2) [OF b])
next
  case (full t fa)
  let ?t = "closed_at k (now e) t" and ?b = "with_txn i (closed_at k (now e) t) b"
  have wt: "well_typed ?b" using full(2) b ik by (simp add: well_typed_txn well_typedD(2) [OF b])
  have fm: "first_missing (buffers ?t) (initial_seq_num + 1) (max_seq_num ?t) = None"
    "m_file_name fa = sp_file_attributes ?t" using full by simp_all
  have ti: "txn_inv ?t" by (rule commit_flush_facts [OF inv ik(2) full(2,3)])
  show ?thesis
  proof (cases rule: COMMIT_flush_cases [OF fm ti, of ?b i k p])
    case (2 s d)
    with full(7) wt ik show ?thesis by (simp add: typed_replies well_typed_def)
  next
    case (3 s c)
    have "well_typed (committed_state i ?t (int (length c)) s ?b)" using b ik(1) by (auto simp: well_typed_def)
    with full(7) 3 ik show ?thesis by (simp add: typed_replies)
  qed (use full(7) wt ik in \<open>simp_all add: typed_replies\<close>)
qed (use b ik in \<open>simp_all add: typed_replies well_typed_txn well_typedD(2) [OF b]\<close>)

lemma processCommand_typed:
  assumes inv: "backend_inv b" and b: "well_typed b" and ok: "request_ok req"
    and r: "processCommand req e p b = (Inr (reply, q), b')"
  shows "well_typed b' \<and> reply_typed reply"
proof -
  obtain c i k n f where req: "req = (c, i, k, n, f)" by (cases req)
  with ok have ik: "is_int i" "is_int k" "nul_free f" by simp_all
  have "typed_result (Inr (reply, q), b')"
    using r READ_typed [OF b ik(1,2), of c n f p "(reply, q)" b'] WRITE_typed [OF b ik(1,2), of c n f e p]
      COMMIT_typed [OF inv b ik(1,2), of c n f e p] ABORT_typed [OF inv b ik(1,2), of c n f p]
      NEW_TXN_typed [OF b ik, of c n e p "(reply, q)" b'] typed_replies(1) [OF ik(1,2) b, of InvalidCommand]
    by (auto simp: req processCommand_def split: if_splits)
  then show ?thesis by (simp add: typed_result_def)
qed

lemma server_step_typed:
  assumes "server_step b b'" "backend_inv b" "timers_inv b" "well_typed b"
  shows "well_typed b'"
  using assms(1)
proof (cases rule: server_step.cases)
  case (request h pl e p x)
  then show ?thesis by (cases x) (auto dest: processCommand_typed [OF assms(2,4) request_ok_parsed])
next
  case (timer_ends tm w b1)
  then have nul: "nul_free (timer_file_name tm)" using assms(3) by (simp add: timers_inv_def)
  have "m_txns b1 \<subseteq>\<^sub>m m_txns b" "m_commits b1 = m_commits b" "m_timers b1 = m_timers b"
    by (cases rule: txn_timer_turn_cases [OF nul, of b w]; use timer_ends(4) in \<open>auto simp: map_le_without\<close>)+
  then show ?thesis
    unfolding timer_ends(1) by (intro well_typed_less [OF assms(4)]) (auto dest: set_remove1_subset [THEN subsetD])
next
  case (timer_sleeps tm w tm' b1)
  then have nul: "nul_free (timer_file_name tm)" using assms(3) by (simp add: timers_inv_def)
  have t: "b1 = b" "timer_txn_id tm' = timer_txn_id tm"
    by (cases rule: txn_timer_turn_cases [OF nul, of b w]; use timer_sleeps(4) in auto)+
  have "is_int (timer_txn_id tm')" using well_typedD(4) [OF assms(4) timer_sleeps(2)] t(2) by simp
  then show ?thesis
    using assms(4) unfolding timer_sleeps(1) t(1) by (auto simp: well_typed_def dest: set_remove1_subset [THEN subsetD])
qed

text \<open>
  The loops of COMMIT count up to \<open>max_seq_num\<close> with an \<open>int\<close>; the increment past \<open>INT\_MAX\<close>
  would need that many buffered writes.
\<close>

lemma loop_counter_bound:
  assumes "txn_inv t" "first_missing (buffers t) (initial_seq_num + 1) (max_seq_num t) = None"
  shows "max_seq_num t \<le> int (card (dom (buffers t)))"
proof -
  have "{1..max_seq_num t} \<subseteq> dom (buffers t)" using assms(2) by (auto simp: first_missing_None consts_simps)
  then have "card {1..max_seq_num t} \<le> card (dom (buffers t))" using assms(1) by (intro card_mono) (simp_all add: txn_inv_def)
  then show ?thesis by simp
qed

text \<open>
  C13. Whatever bytes the clients send and however the timers wake, every identifier and sequence number the backend keeps,
  among the transactions, their buffers, the commits and the timers, is within \<open>int\<close>, and so are those of every reply to
  the next request.
\<close>

theorem reachable_well_typed:
  assumes "reachable (ServerBackend_new d s) b"
  shows "well_typed b \<and> (\<forall>h pl e p reply q b'.
    processCommand (getClientRequestAsTuple (Some h) (Some pl)) e p b = (Inr (reply, q), b') \<longrightarrow> reply_typed reply)"
proof -
  from assms have r: "backend_inv b \<and> timers_inv b \<and> well_typed b"
  proof (induction rule: reachable.induct)
    case start
    show ?case by (simp add: new_backend_inv well_typed_new)
  next
    case (step b b')
    then show ?case using server_step_inv [OF step(2)] server_step_typed [OF step(2)] by simp
  qed
  then show ?thesis using processCommand_typed [OF _ _ request_ok_parsed] by blast
qed

theorem reachable_well_typed_witness:
  "reply_typed (ack_cmd, -1, 0, nil, ''old'')"
proof -
  let ?b = "ServerBackend_new ''d'' demo_os"
  have "fst (processCommand (getClientRequestAsTuple (Some ''READ -1 0 1'') (Some ''f'')) demo_env True ?b)
      = Inr ((ack_cmd, -1, 0, nil, ''old''), True)" by code_simp
  then have "processCommand (getClientRequestAsTuple (Some ''READ -1 0 1'') (Some ''f'')) demo_env True ?b
      = (Inr ((ack_cmd, -1, 0, nil, ''old''), True),
         snd (processCommand (getClientRequestAsTuple (Some ''READ -1 0 1'') (Some ''f'')) demo_env True ?b))"
    by (metis prod.collapse)
  then show ?thesis using reachable_well_typed [OF reachable.start, of "''d''" demo_os] by blast
qed

end
