(* ===== verification/Type_Lists.thy ===== *)
theory Type_Lists
  imports Typed_Tests
begin

text \<open>
  The type lists of \<open>GoogleTestFramework/.../internal/gtest-type-util.h\<close> and the macros for typed
  tests of \<open>gtest-typed-test.h\<close>. A type or a class template is an identity; \<open>none\<close> is
  \<open>internal::None\<close> (\<open>NoneT\<close> for templates), the default of the fifty parameters. The structs
  \<open>Types0\<close> to \<open>Types50\<close> have a \<open>Head\<close> and a \<open>Tail\<close>, so they are lists. What the compiler
  selects among the fifty-one versions of \<open>Types\<close> is a function of the arguments.
\<close>

subsection \<open>Names of types\<close>

text \<open>\<open>find("::", from)\<close>; \<open>None\<close> is \<open>npos\<close>.\<close>

fun find_colons :: "string \<Rightarrow> nat \<Rightarrow> nat option" where
  "find_colons (a # b # r) k =
     (if a = CHR '':'' \<and> b = CHR '':'' then Some k else find_colons (b # r) (Suc k))"
| "find_colons r k = None"

definition CanonicalizeForStdLibVersioning :: "string \<Rightarrow> string" where
  "CanonicalizeForStdLibVersioning s =
     (let prefix = ''std::__'' in
      if take (length prefix) s = prefix then
        (case find_colons (drop (length prefix) s) (length prefix) of
           None \<Rightarrow> s
         | Some end \<Rightarrow> take (length ''std'') s @ drop end s)
      else s)"

text \<open>\<open>typeid(T).name()\<close> and \<open>__cxa_demangle\<close>, which gives \<open>None\<close> for a status that is not 0.\<close>

definition GetTypeName :: "('ty \<Rightarrow> string) \<Rightarrow> (string \<Rightarrow> string option) \<Rightarrow> 'ty \<Rightarrow> string" where
  "GetTypeName name demangle ty =
     CanonicalizeForStdLibVersioning (case demangle (name ty) of Some readable_name \<Rightarrow> readable_name | None \<Rightarrow> name ty)"

text \<open>The inline namespace of the library's version goes, whatever it is called.\<close>

lemma Canonicalize_versioned:
  assumes "find_colons v 7 = None" "\<And>w. v \<noteq> w @ '':''" "s = ''std::__'' @ v @ ''::'' @ rest"
  shows "CanonicalizeForStdLibVersioning s = ''std::'' @ rest"
proof -
  have "find_colons (v @ ''::'' @ rest) k = Some (k + length v)" if "find_colons v n = None" "\<And>w. v \<noteq> w @ '':''" for k n
    using that
  proof (induction v arbitrary: k n)
    case (Cons a v)
    show ?case
    proof (cases v)
      case Nil
      then have "a \<noteq> CHR '':''" using Cons.prems(2) [of "[]"] by simp
      with Nil show ?thesis by simp
    next
      case (Cons b v')
      have "v \<noteq> w @ '':''" for w using Cons.prems(2) [of "a # w"] by simp
      then have "find_colons (v @ ''::'' @ rest) (Suc k) = Some (Suc k + length v)"
        using Cons.IH [of "Suc n" "Suc k"] Cons.prems(1) \<open>v = b # v'\<close> by (auto split: if_splits)
      then show ?thesis using Cons.prems(1) \<open>v = b # v'\<close> by (auto split: if_splits)
    qed
  qed simp
  from this [OF assms(1,2), of 7] show ?thesis by (simp add: assms(3) CanonicalizeForStdLibVersioning_def numeral_eq_Suc)
qed

subsection \<open>Lists of types and of templates\<close>

definition max_types :: nat where
  "max_types = 50"

text \<open>
  \<open>Types<T1, ..., Tn>\<close>: the other parameters are \<open>None\<close>. The specialization with \<open>k\<close>
  parameters matches when the rest are \<open>None\<close>; the most special one has the least \<open>k\<close>.
\<close>

definition with_defaults :: "'ty \<Rightarrow> 'ty list \<Rightarrow> 'ty list" where
  "with_defaults none args = args @ replicate (max_types - length args) none"

definition matches :: "'ty \<Rightarrow> 'ty list \<Rightarrow> nat \<Rightarrow> bool" where
  "matches none args k \<longleftrightarrow> list_all (\<lambda>x. x = none) (drop k args)"

definition Types_type :: "'ty \<Rightarrow> 'ty list \<Rightarrow> 'ty list" where
  "Types_type none args =
     (let args = with_defaults none args in
      case find (matches none args) [0..<Suc max_types] of
        Some k \<Rightarrow> take k args
      | None \<Rightarrow> args)"

definition Templates_type :: "'t \<Rightarrow> 't list \<Rightarrow> 't list" where
  "Templates_type noneT args = Types_type noneT args"

text \<open>What a user writes as \<open>Types\<close> in the macros: a list, or a single type.\<close>

datatype 'ty type_argument = OneType 'ty | TypesOf "'ty list"

fun TypeList_type :: "'ty \<Rightarrow> 'ty type_argument \<Rightarrow> 'ty list" where
  "TypeList_type none (OneType t) = [t]"
| "TypeList_type none (TypesOf args) = Types_type none args"

lemma Types_type_exact:
  assumes "length args \<le> max_types" "args = [] \<or> last args \<noteq> none"
  shows "Types_type none args = args"
proof -
  let ?a = "with_defaults none args"
  have m: "matches none ?a k \<longleftrightarrow> length args \<le> k" for k
  proof
    assume k: "length args \<le> k"
    then show "matches none ?a k" by (simp add: matches_def with_defaults_def list_all_iff)
  next
    assume m: "matches none ?a k"
    show "length args \<le> k"
    proof (rule ccontr)
      assume k: "\<not> length args \<le> k"
      then have "last args \<in> set (drop k args)" by (metis drop_eq_Nil last_drop last_in_set not_le_imp_less)
      with m k have "last args = none" by (auto simp: matches_def with_defaults_def list_all_iff)
      with assms(2) k show False by auto
    qed
  qed
  have "find (matches none ?a) [0..<Suc max_types] = Some (length args)"
    unfolding find_Some_iff using assms(1) m by (intro exI [of _ "length args"]) (auto simp del: upt_Suc)
  then show ?thesis by (simp add: Types_type_def with_defaults_def Let_def del: upt_Suc)
qed

subsection \<open>The macros\<close>

text \<open>\<open>TYPED_TEST_CASE\<close> keeps the types and the names' generator for the tests of the case.\<close>

record 'ty typed_case =
  tc_types :: "'ty list"
  tc_names :: "'ty \<Rightarrow> nat \<Rightarrow> string"

definition NameGeneratorSelector :: "('ty \<Rightarrow> nat \<Rightarrow> string) option \<Rightarrow> 'ty \<Rightarrow> nat \<Rightarrow> string" where
  "NameGeneratorSelector provided = (case provided of Some g \<Rightarrow> g | None \<Rightarrow> DefaultNameGenerator)"

definition TYPED_TEST_CASE :: "'ty \<Rightarrow> 'ty type_argument \<Rightarrow> ('ty \<Rightarrow> nat \<Rightarrow> string) option \<Rightarrow> 'ty typed_case" where
  "TYPED_TEST_CASE none types provided =
     \<lparr>tc_types = TypeList_type none types, tc_names = NameGeneratorSelector provided\<rparr>"

definition TYPED_TEST ::
  "(('ty, 'tst) typed_registration \<Rightarrow> 's \<Rightarrow> 's) \<Rightarrow> ('ty \<Rightarrow> string) \<Rightarrow> ('ty \<Rightarrow> nat) \<Rightarrow> string \<Rightarrow> string \<Rightarrow> 'tst \<Rightarrow>
   code_location \<Rightarrow> 'ty typed_case \<Rightarrow> 's \<Rightarrow> 's outcome" where
  "TYPED_TEST enrol type_name fixture_id case_name test_name test loc tc s =
     TypeParameterizedTest_Register enrol type_name fixture_id test (tc_types tc) [] loc case_name test_name 0
       (GenerateNames (tc_names tc) (tc_types tc)) s"

definition TYPED_TEST_CASE_P :: typed_state where
  "TYPED_TEST_CASE_P = typed_state_new"

definition TYPED_TEST_P :: "string \<times> code_location \<Rightarrow> typed_state \<Rightarrow> typed_state outcome" where
  "TYPED_TEST_P test st = (case test of (test_name, loc) \<Rightarrow> AddTestName (cl_file loc) (cl_line loc) test_name st)"

text \<open>
  \<open>REGISTER_TYPED_TEST_CASE_P\<close>: the list of the class templates and the text of their names, as
  \<open>VerifyRegisteredTestNames\<close>, in the framework's binary and here \<open>verify\<close>, returns it.
\<close>

definition REGISTER_TYPED_TEST_CASE_P ::
  "(code_location \<Rightarrow> string \<Rightarrow> typed_state \<Rightarrow> (string \<times> typed_state) outcome) \<Rightarrow> 'tst \<Rightarrow> (string \<Rightarrow> 'tst) \<Rightarrow> code_location \<Rightarrow>
   string list \<Rightarrow> typed_state \<Rightarrow> ('tst list \<times> string \<times> typed_state) outcome" where
  "REGISTER_TYPED_TEST_CASE_P verify noneT template_of loc names st =
     and_then (verify loc (arguments_text names) st) (\<lambda>(registered_names, st).
       Inr (Templates_type noneT (map template_of names), registered_names, st))"

definition INSTANTIATE_TYPED_TEST_CASE_P ::
  "(('ty, 'tst) typed_registration \<Rightarrow> 's \<Rightarrow> 's) \<Rightarrow> ('ty \<Rightarrow> string) \<Rightarrow> ('ty \<Rightarrow> nat) \<Rightarrow> 'ty \<Rightarrow> string \<Rightarrow> string \<Rightarrow>
   'ty type_argument \<Rightarrow> ('ty \<Rightarrow> nat \<Rightarrow> string) option \<Rightarrow> 'tst list \<times> string \<times> typed_state \<Rightarrow> 's \<Rightarrow> 's outcome" where
  "INSTANTIATE_TYPED_TEST_CASE_P enrol type_name fixture_id none prefix case_name types provided registered s =
     (case registered of (all_tests, registered_names, st) \<Rightarrow>
        TypeParameterizedTestCase_Register enrol type_name fixture_id (TypeList_type none types) prefix st case_name
          (GenerateNames (NameGeneratorSelector provided) (TypeList_type none types)) all_tests (Some registered_names) s)"

text \<open>A program: the definitions of the tests, their registration and one instantiation.\<close>

fun define_tests :: "(string \<times> code_location) list \<Rightarrow> typed_state \<Rightarrow> typed_state outcome" where
  "define_tests [] st = Inr st"
| "define_tests (t # ts) st = and_then (TYPED_TEST_P t st) (define_tests ts)"

text \<open>What the comment on \<open>VerifyRegisteredTestNames\<close> says: it returns the text when it names the defined tests.\<close>

definition verifies :: "(code_location \<Rightarrow> string \<Rightarrow> typed_state \<Rightarrow> (string \<times> typed_state) outcome) \<Rightarrow> bool" where
  "verifies verify \<longleftrightarrow> (\<forall>loc names st. list_all IsValidParamName names \<longrightarrow> distinct names \<longrightarrow>
     set names = dom (ts_tests st) \<longrightarrow> (\<exists>st'. verify loc (arguments_text names) st = Inr (arguments_text names, st')
       \<and> ts_tests st' = ts_tests st))"

lemma define_tests_map:
  assumes "\<not> ts_registered st" "distinct (map fst dts)" "list_all IsValidParamName (map fst dts)"
    and "\<forall>n \<in> fst ` set dts. ts_tests st n = None"
  shows "define_tests dts st = Inr (st\<lparr>ts_tests := ts_tests st ++ map_of dts\<rparr>)"
  using assms
proof (induction dts arbitrary: st)
  case (Cons t dts)
  obtain n loc where t: "t = (n, loc)" by (cases t)
  have n: "c_str n = n" "ts_tests st n = None"
    using Cons.prems(3,4) identifier_char(3) [of n] by (auto simp: t intro!: c_str_nul_free)
  let ?st = "st\<lparr>ts_tests := (ts_tests st)(n \<mapsto> loc)\<rparr>"
  have "TYPED_TEST_P t st = Inr ?st" using Cons.prems(1) n by (cases loc) (simp add: t TYPED_TEST_P_def AddTestName_def)
  moreover have "define_tests dts ?st = Inr (?st\<lparr>ts_tests := ts_tests ?st ++ map_of dts\<rparr>)"
    by (rule Cons.IH) (use Cons.prems t in auto)
  moreover have "ts_tests ?st ++ map_of dts = ts_tests st ++ map_of (t # dts)"
    using Cons.prems(2) map_of_eq_None_iff [of dts n]
    by (auto simp: t map_add_def fun_eq_iff split: option.split)
  ultimately show ?case by (simp del: map_of.simps)
qed simp

lemma map2_map_self: "map2 f (map g ns) ns = map (\<lambda>n. f (g n) n) ns"
  by (induction ns) simp_all

text \<open>
  C36. The macros for type-parameterized tests: tests with distinct names, defined in any order, registered with all their names in any
  order and instantiated with up to fifty types, are registered one by one, every test with every type, under its own name, at the place
  of its definition and with the types' names by position.
\<close>

theorem typed_macros_register:
  assumes defined: "distinct (map fst dts)" "list_all IsValidParamName (map fst dts)" "dts \<noteq> []"
    and names: "distinct names" "set names = fst ` set dts" "length names \<le> max_types" "\<forall>n \<in> set names. template_of n \<noteq> noneT"
    and types: "length tys \<le> max_types" "none \<notin> set tys" and verify: "verifies verify"
  shows "and_then (define_tests dts TYPED_TEST_CASE_P) (\<lambda>st.
      and_then (REGISTER_TYPED_TEST_CASE_P verify noneT template_of loc names st) (\<lambda>registered.
        INSTANTIATE_TYPED_TEST_CASE_P enrol type_name fixture_id none prefix case_name (TypesOf tys) provided registered s))
    = Inr (fold enrol (concat (map (\<lambda>n. map2 (typed_registration_of type_name fixture_id prefix case_name
        (map2 (NameGeneratorSelector provided) tys [0..<length tys]) (the (map_of dts n)) n (template_of n)) [0..<length tys] tys) names)) s)"
proof -
  let ?st = "typed_state_new\<lparr>ts_tests := map_of dts\<rparr>"
  have def: "define_tests dts TYPED_TEST_CASE_P = Inr ?st"
    using define_tests_map [of typed_state_new dts] defined by (simp add: TYPED_TEST_CASE_P_def typed_state_new_def)
  have ok: "list_all IsValidParamName names" using defined(2) names(2) by (auto simp: list_all_iff)
  have "set names = dom (ts_tests ?st)" using names(2) by (simp add: dom_map_of_conv_image_fst)
  with verify ok names(1) obtain st' where v: "verify loc (arguments_text names) ?st = Inr (arguments_text names, st')"
    "ts_tests st' = map_of dts" unfolding verifies_def by fastforce
  have ne: "names \<noteq> []" using names(2) defined(3) by auto
  have tmpl: "Templates_type noneT (map template_of names) = map template_of names"
    unfolding Templates_type_def by (rule Types_type_exact) (use names(3,4) ne in \<open>auto simp: last_map\<close>)
  have tyl: "Types_type none tys = tys" 
    using Types_type_exact [of tys none] types last_in_set [of tys] by metis
  have "map_of dts n = Some (the (map_of dts n))" if "n \<in> set names" for n
    using that names(2) by (cases "map_of dts n") (auto simp: map_of_eq_None_iff)
  then have locs: "list_all (\<lambda>n. ts_tests st' n = Some (the (map_of dts n))) names" by (simp add: list_all_iff v(2))
  show ?thesis
    using TypeParameterizedTestCase_Register_spec [OF _ _ ok locs refl, of tys "GenerateNames (NameGeneratorSelector provided) tys"
        "map template_of names" enrol type_name fixture_id prefix case_name s] ne v(1)
    by (simp add: def REGISTER_TYPED_TEST_CASE_P_def INSTANTIATE_TYPED_TEST_CASE_P_def tmpl tyl map2_map_self length_GenerateNames
        GenerateNames_def GenerateNamesRecursively_eq)
qed

text \<open>Two tests, registered in the other order, on two types; registrations are collected in order.\<close>

definition demo_verify :: "code_location \<Rightarrow> string \<Rightarrow> typed_state \<Rightarrow> (string \<times> typed_state) outcome" where
  "demo_verify loc text st = Inr (text, st\<lparr>ts_registered := True\<rparr>)"

theorem typed_macros_register_witness:
  "\<exists>rs. and_then (define_tests [(''A'', \<lparr>cl_file = ''t.cc'', cl_line = 3\<rparr>), (''B'', \<lparr>cl_file = ''t.cc'', cl_line = 9\<rparr>)] TYPED_TEST_CASE_P) (\<lambda>st.
      and_then (REGISTER_TYPED_TEST_CASE_P demo_verify [] id \<lparr>cl_file = ''t.cc'', cl_line = 12\<rparr> [''B'', ''A''] st) (\<lambda>registered.
        INSTANTIATE_TYPED_TEST_CASE_P (\<lambda>r rs. rs @ [r]) (\<lambda>t :: nat. ''T'') id 0 ''My'' ''Case'' (TypesOf [1, 2]) None registered []))
    = Inr rs \<and> map (\<lambda>r. (tr_case_name r, tr_name r, cl_line (tr_location r), tr_type r)) rs
      = [(''My/Case/0'', ''B'', 9, 1), (''My/Case/1'', ''B'', 9, 2), (''My/Case/0'', ''A'', 3, 1), (''My/Case/1'', ''A'', 3, 2)]"
proof -
  let ?dts = "[(''A'', \<lparr>cl_file = ''t.cc'', cl_line = 3\<rparr>), (''B'', \<lparr>cl_file = ''t.cc'', cl_line = 9\<rparr>)]"
  have "verifies demo_verify" by (simp add: verifies_def demo_verify_def)
  moreover have "list_all IsValidParamName (map fst ?dts)" by code_simp
  moreover have "DefaultNameGenerator (1 :: nat) 0 = ''0''" "DefaultNameGenerator (2 :: nat) 1 = ''1''" by code_simp+
  ultimately show ?thesis
    using typed_macros_register [of ?dts "[''B'', ''A'']" id "[]" "[1, 2 :: nat]" 0 demo_verify "\<lparr>cl_file = ''t.cc'', cl_line = 12\<rparr>"
        "\<lambda>r rs. rs @ [r]" "\<lambda>t. ''T''" id "''My''" "''Case''" None "[]"]
    by (simp add: max_types_def typed_registration_of_def NameGeneratorSelector_def c_str_def NUL_def insert_commute)
qed

end
