(* ===== verification/Spec2Isabelle.thy ===== *)
theory Spec2Isabelle
  imports Recovery_Facts Transaction_Spec Durability Rollback Lifecycle Server_Main Test_Proofs
    Linked_Ptr Generator_Functions Typed_Tests Native_Array Floating_Point
    Interleaving_Races Cartesian_ProductN Port_Threads Port_Storage Assertions
    Well_Typed Type_Lists
begin

text \<open>
  A verification of the client/server file system: the transactional file server (\<open>src/Server\<close>),
  the client and the test program that drives it (\<open>src/ClientServerTest\<close>), the code they
  share (\<open>src/ClientServerShared\<close>), and the parts of the bundled test framework
  (\<open>src/GoogleTestFramework\<close>) whose implementation is in its headers.

  \<^bold>\<open>The program.\<close> A client opens a connection and sends requests of a 64-byte header and a payload.
  The dispatcher accepts connections, wakes the thread of a connection when its descriptor is ready,
  reads a request, hands it to the backend and writes the 128-byte response header and payload.
  The backend keeps the open transactions: NEW\_TXN opens one on a file, WRITE buffers data under a sequence
  number, COMMIT asks for the least missing write or appends all buffers in order, ABORT discards, READ
  returns a file, and a timer thread removes idle transactions. Four logs on disk record the
  beginning and the three ends of transactions with the file's size; recovery reads them, rolls
  files back to their last committed size and restarts what was open.

  \<^bold>\<open>Foundations.\<close> \<open>Prelude\<close>: abnormal ends as values (exit, failed assertion, uncaught exception,
  undefined behaviour, a loop that never returns), integer ranges, C strings. \<open>Cxx_Strings\<close>: printing and
  formatted extraction of numbers, with their round trip. \<open>Regex\<close>: the regular expressions of the
  program and their language.

  \<^bold>\<open>Shared code.\<close> \<open>Constants\<close> (constants.h, errors.h), \<open>Wire_Protocol\<close> (wire-protocol.h and the headers both
  sides build), \<open>Message_Codec\<close> (the contract \<open>wire_codec\<close> of a framed message, interpreted on requests and
  on responses: what one side encodes the other decodes), \<open>Read_Write_Helper\<close> (the two loops over
  a descriptor; locales state what is needed of the system calls, \<open>Posix_File\<close> and \<open>Socket\<close> interpret them),
  \<open>Arguments\<close> (argument-helper.h: the formats accept exactly ports of 1 to 65535 and dotted addresses).

  \<^bold>\<open>Backend.\<close> \<open>Posix_File\<close> (file.h, file.cpp over a model of files, descriptors and failing system calls),
  \<open>Backend_State\<close> (the record \<open>ServerBackend\<close>: transactions by identifier, shared file attributes with
  their use counts, committed identifiers, the operating system), \<open>Commands\<close> (each command function of
  server-backend.cpp, with the lock held as one step, the timer function and the public interface),
  \<open>Recovery\<close> (reading the logs, truncation, restart). \<open>Backend_Facts\<close>, \<open>Command_Cases\<close> and
  \<open>Recovery_Facts\<close> are the case analyses the theorems share. \<open>Backend_Invariant\<close> and \<open>Backend_Safety\<close>: the
  invariant of the data structures and that every operation keeps it and answers.
  \<open>Command_Properties\<close>: what commits append, ask for and leave alone. \<open>Transaction_Spec\<close>: the abstract
  transactional store and the proof that the backend refines it. \<open>Rollback\<close>: failed commits.
  \<open>Durability\<close>: the logs describe the state, so a crash loses nothing that was acknowledged. \<open>Site\<close>: the
  assumptions on where the server runs. \<open>Lifecycle\<close>: the state machine of requests and timers.
  \<open>Well_Typed\<close>: the integers of every reachable state and reply are within their C++ types.

  \<^bold>\<open>Threads of the backend.\<close> \<open>Interleaving\<close> cuts the command functions where they take or release a
  lock: a thread is its place (\<open>pc\<close>), and the sections (\<open>section_enter\<close> to \<open>section_finish\<close>) are the
  steps that any thread may take between any two steps of another. The mutex of a transaction has a number that
  is never used again, so that a reference into the transaction map that has become invalid is seen as such. It shows that the
  sections of one thread alone add up to the command. \<open>Interleaving_Safety\<close>: in any interleaving of
  commands and timers no thread uses a removed transaction and no two hold one mutex, and there is no deadlock, as
  long as no transaction in use times out and no identifier in use is drawn again. \<open>Interleaving_Commits\<close>: the data of
  a commit is contiguous in its file, and a READ meanwhile sees a prefix of it. \<open>Interleaving_Races\<close>: what goes wrong when the two conditions fail,
  when a write fails while another commit runs, and when two commits write the commit log.

  \<^bold>\<open>Dispatcher, client, programs.\<close> \<open>Dispatcher\<close> (the connection thread of server-dispatcher.h over the
  contracts \<open>duplex\<close> and \<open>dispatch\<close>: requests are answered in order however the stream is cut, and the
  thread ends), \<open>Accept_Loop\<close> (construction, accept and notifier as a step relation), \<open>Client\<close> (client.cpp;
  one remote call from end to end), \<open>Signal_Handler\<close>, \<open>Server_Main\<close> (both main functions and the class Server).

  \<^bold>\<open>Test suite.\<close> \<open>Test_Suite\<close> has every test of client-server-test.cpp as a program in the monad of
  \<open>Test_Harness\<close> over the modelled client, connection and server; \<open>Test_Rules\<close> are the rules by which
  \<open>Test_Proofs\<close> shows that all of them pass, whatever their random choices.

  \<^bold>\<open>Test framework.\<close> \<open>Linked_Ptr\<close> (the circular lists behind \<open>linked_ptr\<close> implement ownership counting),
  \<open>Param_Generators\<close> (the contract \<open>param_generator\<close> of a generator of parameters, \<open>ValuesIn\<close> and \<open>Range\<close>),
  \<open>Cartesian_Product\<close>, \<open>Cartesian_Product3\<close> and \<open>Cartesian_ProductN\<close> (\<open>Combine\<close> of two, three and any number
  of components keeps their contract),
  \<open>Generator_Functions\<close> (the functions and holders a test writes), \<open>Param_Registry\<close> (registration of every
  pattern with every parameter), \<open>Typed_Tests\<close> and \<open>Type_Lists\<close> (the same for types, from the
  macros down), \<open>Native_Array\<close>, \<open>Floating_Point\<close>
  (\<open>AlmostEquals\<close> counts representable numbers), \<open>Port_Threads\<close> (\<open>scoped_ptr\<close>; the mutex, whose
  \<open>AssertHeld\<close> is right however it interleaves), \<open>Port_Storage\<close> (\<open>ThreadLocal\<close> is a value per thread;
  \<open>Notification\<close> and \<open>ThreadWithParam\<close>), \<open>Printers\<close> (the value printer against a reference text),
  \<open>Assertions\<close> (messages, comparison and predicate helpers, and what a test function reports).

  \<^bold>\<open>Loops.\<close> Loops over data are recursive functions with termination proofs. Loops that may not return are
  \<open>partial_function (option)\<close>, with \<open>None\<close> for not returning: the read and write loops, the
  connection, the search for a free identifier, the handler's questions, the walks round a circle of smart
  pointers, the count of a range and the loop over a generator. No fuel is used; where a property says that
  such an operation answers, its statement has the result \<open>Some\<close>.

  \<^bold>\<open>Not modelled.\<close> Debug and error output; the kernel's scheduling, thread creation and condition variables beyond
  the order of wake-ups; \<open>select\<close>, \<open>socket\<close> and the other system calls, which are parameters. In
  \<open>Interleaving\<close>, READ, NEW\_TXN and a call of \<open>logTransaction\<close> are one step each; steps are atomic and in program order,
  so that races inside a section are noted as findings and not modelled. The lambdas \<open>move\<close> and \<open>max\<close> of
  server-backend.h return references to their own parameters; they are taken as \<open>std::move\<close> and \<open>std::max\<close>.
  Of the test framework, everything whose implementation is in its binary, death tests, the platform
  configuration, the printers of wide characters, and the tuples of \<open>gtest-tuple.h\<close>, which stand in for the
  library's own. The generated classes that
  differ in their number of components are modelled once, over lists of components of one type.
\<close>

end
